(* ===== verification/Rq_Prelude.thy ===== *)
theory Rq_Prelude
  imports
    Complex_Main
    "HOL-Library.Word"
    "HOL-Library.List_Lexorder"
    "HOL-Library.Char_ord"
    "HOL-Library.Sublist"
begin

text \<open>
  Shared ground of the development: machine integers and byte strings, Rust's \<open>str\<close> and its
  bytes, big-endian encodings and their order, UTF-8 decoding as \<open>String::from_utf8_lossy\<close>
  performs it, decimal formatting, and the sorted enumeration of a key-value map.
  The collections \<open>rq_simps\<close> (rewriting) and \<open>rq_scan\<close> (facts about ordered
  enumerations) carry the proofs of the components.
\<close>

named_theorems rq_simps \<open>rewriting facts shared by the component proofs\<close>

named_theorems rq_scan \<open>facts on the ordered enumeration of a key-value map\<close>

section \<open>Machine integers and byte strings\<close>

type_synonym u8 = "8 word"
type_synonym u32 = "32 word"
type_synonym u64 = "64 word"

type_synonym bytes = "8 word list"

text \<open>A store of byte strings: the contents of one column family.\<close>

type_synonym kv = "bytes \<rightharpoonup> bytes"

text \<open>Rust's \<open>saturating_sub\<close> and \<open>saturating_add\<close> on unsigned words.\<close>

definition saturating_sub :: "u64 \<Rightarrow> u64 \<Rightarrow> u64" where
  "saturating_sub a b = (if a < b then 0 else a - b)"

definition saturating_add :: "u64 \<Rightarrow> u64 \<Rightarrow> u64" where
  "saturating_add a b = (if unat a + unat b < 2 ^ 64 then a + b else - 1)"

lemma unat_saturating_sub [rq_simps]: "unat (saturating_sub a b) = unat a - unat b"
  by (auto simp: saturating_sub_def unat_sub_if' word_less_nat_alt)

lemma unat_saturating_add [rq_simps]:
  "unat (saturating_add a b) = min (unat a + unat b) (2 ^ 64 - 1)"
proof -
  have "unat (- 1 :: u64) = 2 ^ 64 - 1"
    by (simp add: unsigned_minus_1_eq_mask mask_eq_exp_minus_1)
  then show ?thesis
    by (auto simp: saturating_add_def unat_word_ariths min_def)
qed

section \<open>Strings and their bytes\<close>

text \<open>
  A Rust \<open>str\<close> is a sequence of UTF-8 bytes; a HOL \<open>string\<close> holds one \<open>char\<close> per
  byte, so \<open>as_bytes\<close> is a bijection.
\<close>

definition as_bytes :: "string \<Rightarrow> bytes" where
  "as_bytes = map (\<lambda>c. word_of_nat (of_char c))"

definition of_bytes :: "bytes \<Rightarrow> string" where
  "of_bytes = map (\<lambda>b. char_of (unat b))"

lemma byte_char_roundtrip [simp]: "char_of (unat (word_of_nat (of_char c) :: u8)) = c"
proof -
  have "of_char c < (256::nat)"
    using mod_less_divisor [of 256 "of_char c"] by simp
  then have "unat (word_of_nat (of_char c) :: u8) = of_char c"
    by (simp add: unat_of_nat)
  then show ?thesis by simp
qed

lemma of_bytes_as_bytes [simp]: "of_bytes (as_bytes s) = s"
  by (induction s) (auto simp: as_bytes_def of_bytes_def)

lemma as_bytes_of_bytes [simp]: "as_bytes (of_bytes b) = b"
proof (induction b)
  case Nil
  then show ?case by (simp add: as_bytes_def of_bytes_def)
next
  case (Cons x xs)
  have "unat x < 256"
    using unsigned_less [of x] by simp
  with Cons show ?case
    by (simp add: as_bytes_def of_bytes_def)
qed

lemma as_bytes_inj [simp]: "as_bytes a = as_bytes b \<longleftrightarrow> a = b"
  by (metis of_bytes_as_bytes)

lemma as_bytes_append [simp]: "as_bytes (a @ b) = as_bytes a @ as_bytes b"
  by (simp add: as_bytes_def)

lemma length_as_bytes [simp]: "length (as_bytes a) = length a"
  by (simp add: as_bytes_def)

text \<open>A string without a NUL character, the separator of a task key.\<close>

definition nul_free :: "string \<Rightarrow> bool" where
  "nul_free s \<longleftrightarrow> (0 :: u8) \<notin> set (as_bytes s)"

section \<open>Big-endian encoding\<close>

text \<open>The \<open>k\<close> base-256 digits of \<open>n\<close>, most significant first.\<close>

fun be_digits :: "nat \<Rightarrow> nat \<Rightarrow> bytes" where
  "be_digits 0 n = []"
| "be_digits (Suc k) n = word_of_nat (n div 256 ^ k) # be_digits k (n mod 256 ^ k)"

fun be_value :: "bytes \<Rightarrow> nat" where
  "be_value [] = 0"
| "be_value (b # bs) = unat b * 256 ^ length bs + be_value bs"

definition to_be_bytes :: "u64 \<Rightarrow> bytes" where
  "to_be_bytes w = be_digits 8 (unat w)"

definition from_be_bytes :: "bytes \<Rightarrow> u64" where
  "from_be_bytes bs = word_of_nat (be_value bs)"

lemma length_be_digits [simp]: "length (be_digits k n) = k"
  by (induction k arbitrary: n) auto

lemma be_digit_small: "n < 256 ^ Suc k \<Longrightarrow> unat (word_of_nat (n div 256 ^ k) :: u8) = n div 256 ^ k"
proof -
  assume "n < 256 ^ Suc k"
  then have "n div 256 ^ k < 256"
    by (simp add: less_mult_imp_div_less)
  then show ?thesis by (simp add: unat_of_nat)
qed

lemma be_value_digits: "n < 256 ^ k \<Longrightarrow> be_value (be_digits k n) = n"
proof (induction k arbitrary: n)
  case (Suc k)
  have "n mod 256 ^ k < 256 ^ k" by simp
  with Suc.IH have "be_value (be_digits k (n mod 256 ^ k)) = n mod 256 ^ k" by blast
  with be_digit_small [OF Suc.prems] show ?case
    by (simp add: div_mult_mod_eq)
qed simp

text \<open>The encoding is monotone: lexicographic order of the digits is numeric order.\<close>

lemma be_digits_less:
  "n < 256 ^ k \<Longrightarrow> m < 256 ^ k \<Longrightarrow> be_digits k n < be_digits k m \<longleftrightarrow> n < m"
proof (induction k arbitrary: n m)
  case (Suc k)
  let ?q = "256 ^ k :: nat"
  have IH: "be_digits k (n mod ?q) < be_digits k (m mod ?q) \<longleftrightarrow> n mod ?q < m mod ?q"
    by (rule Suc.IH) simp_all
  note digit = be_digit_small [OF Suc.prems(1)] be_digit_small [OF Suc.prems(2)]
  have "be_digits (Suc k) n < be_digits (Suc k) m \<longleftrightarrow>
    n div ?q < m div ?q \<or> (n div ?q = m div ?q \<and> n mod ?q < m mod ?q)"
    using digit by (simp add: IH word_less_nat_alt word_unat_eq_iff)
  also have "\<dots> \<longleftrightarrow> n < m"
  proof (cases "n div ?q = m div ?q")
    case True
    then show ?thesis
      by (metis add_less_cancel_left div_mult_mod_eq less_irrefl)
  next
    case False
    then show ?thesis
      by (meson div_le_mono leD le_less_linear less_imp_le nat_neq_iff)
  qed
  finally show ?case .
qed simp

lemma unat_u64_less: "unat (w :: u64) < 256 ^ 8"
  using unsigned_less [of w] by simp

lemma length_to_be_bytes [simp]: "length (to_be_bytes w) = 8"
  by (simp add: to_be_bytes_def)

lemma from_to_be_bytes [simp]: "from_be_bytes (to_be_bytes w) = w"
  by (simp add: to_be_bytes_def from_be_bytes_def be_value_digits [OF unat_u64_less])

lemma to_be_bytes_less [simp]: "to_be_bytes a < to_be_bytes b \<longleftrightarrow> a < b"
  by (simp add: to_be_bytes_def be_digits_less [OF unat_u64_less unat_u64_less] word_less_nat_alt)

lemma to_be_bytes_inj [simp]: "to_be_bytes a = to_be_bytes b \<longleftrightarrow> a = b"
  by (metis from_to_be_bytes)

lemma append_less_append [simp]: "(p @ a :: bytes) < p @ b \<longleftrightarrow> a < b"
  by (induction p) auto

section \<open>Decimal formatting\<close>

text \<open>The decimal digits of a number, as \<open>format!\<close> prints an unsigned integer.\<close>

fun show_nat :: "nat \<Rightarrow> string" where
  "show_nat n = (if n < 10 then [char_of (48 + n)]
     else show_nat (n div 10) @ [char_of (48 + n mod 10)])"

declare show_nat.simps [simp del]

section \<open>UTF-8\<close>

text \<open>
  \<open>String::from_utf8_lossy\<close> of the standard library: well-formed sequences are copied, each
  maximal ill-formed prefix becomes the replacement character (bytes EF BF BD).
\<close>

definition utf8_len :: "u8 \<Rightarrow> nat" where
  "utf8_len b = (if b < 0x80 then 1 else if 0xC2 \<le> b \<and> b \<le> 0xDF then 2
     else if 0xE0 \<le> b \<and> b \<le> 0xEF then 3 else if 0xF0 \<le> b \<and> b \<le> 0xF4 then 4 else 0)"

definition utf8_cont :: "u8 \<Rightarrow> bool" where
  "utf8_cont c \<longleftrightarrow> 0x80 \<le> c \<and> c \<le> 0xBF"

definition utf8_second :: "u8 \<Rightarrow> u8 \<Rightarrow> bool" where
  "utf8_second b c =
     (if b = 0xE0 then 0xA0 \<le> c \<and> c \<le> 0xBF else if b = 0xED then 0x80 \<le> c \<and> c \<le> 0x9F
      else if b = 0xF0 then 0x90 \<le> c \<and> c \<le> 0xBF else if b = 0xF4 then 0x80 \<le> c \<and> c \<le> 0x8F
      else utf8_cont c)"

text \<open>How many bytes after the leading byte \<open>b\<close> continue its sequence.\<close>

definition utf8_follow :: "u8 \<Rightarrow> bytes \<Rightarrow> nat" where
  "utf8_follow b r = (case r of [] \<Rightarrow> 0 | c # r' \<Rightarrow>
     if 2 \<le> utf8_len b \<and> utf8_second b c
     then Suc (length (takeWhile utf8_cont (take (utf8_len b - 2) r'))) else 0)"

fun utf8_lossy :: "bytes \<Rightarrow> bytes" where
  "utf8_lossy [] = []"
| "utf8_lossy (b # r) =
     (let n = utf8_follow b r
      in (if utf8_len b = Suc n then b # take n r else [0xEF, 0xBF, 0xBD]) @ utf8_lossy (drop n r))"

fun utf8_valid :: "bytes \<Rightarrow> bool" where
  "utf8_valid [] = True"
| "utf8_valid (b # r) =
     (let n = utf8_follow b r in utf8_len b = Suc n \<and> utf8_valid (drop n r))"

definition from_utf8_lossy :: "bytes \<Rightarrow> string" where
  "from_utf8_lossy b = of_bytes (utf8_lossy b)"

lemma utf8_lossy_valid: "utf8_valid b \<Longrightarrow> utf8_lossy b = b"
  by (induction b rule: utf8_lossy.induct) (auto simp: Let_def)

lemma from_utf8_lossy_as_bytes [rq_simps]:
  "utf8_valid (as_bytes s) \<Longrightarrow> from_utf8_lossy (as_bytes s) = s"
  by (simp add: from_utf8_lossy_def utf8_lossy_valid)

section \<open>Ordered enumeration of a key-value map\<close>

text \<open>The entries of a finite map in ascending key order, as a RocksDB iterator yields them.\<close>

definition kv_list :: "kv \<Rightarrow> (bytes \<times> bytes) list" where
  "kv_list m = map (\<lambda>k. (k, the (m k))) (sorted_list_of_set (dom m))"

lemma fst_kv_list [rq_scan]: "map fst (kv_list m) = sorted_list_of_set (dom m)"
  by (simp add: kv_list_def comp_def)

lemma set_kv_list [rq_scan]: "finite (dom m) \<Longrightarrow> (k, v) \<in> set (kv_list m) \<longleftrightarrow> m k = Some v"
  by (auto simp: kv_list_def)

lemma distinct_kv_list [rq_scan]: "distinct (map fst (kv_list m))"
  by (simp add: fst_kv_list)

lemma sorted_kv_list [rq_scan]: "sorted_wrt (<) (map fst (kv_list m))"
  by (simp add: fst_kv_list)

lemma length_kv_list [rq_scan]: "length (kv_list m) = card (dom m)"
  by (simp add: kv_list_def)

lemma map_of_kv_list [rq_scan]: "finite (dom m) \<Longrightarrow> map_of (kv_list m) = m"
proof
  fix k
  assume fin: "finite (dom m)"
  show "map_of (kv_list m) k = m k"
  proof (cases "m k")
    case None
    then have "k \<notin> fst ` set (kv_list m)"
      using fin by (auto simp: set_kv_list)
    with None show ?thesis by (simp add: map_of_eq_None_iff)
  next
    case (Some v)
    then show ?thesis
      using fin by (simp add: distinct_kv_list set_kv_list)
  qed
qed

text \<open>A strictly sorted list of entries is the enumeration of its map.\<close>

lemma kv_list_map_of: "sorted_wrt (<) (map fst xs) \<Longrightarrow> kv_list (map_of xs) = xs"
proof -
  assume sorted: "sorted_wrt (<) (map fst xs)"
  then have dist: "distinct (map fst xs)"
    by (simp add: strict_sorted_iff)
  have "sorted_list_of_set (dom (map_of xs)) = map fst xs"
    using sorted by (simp add: dom_map_of_conv_image_fst sorted_list_of_set.idem_if_sorted_distinct
        strict_sorted_iff flip: set_map)
  then have "kv_list (map_of xs) = map (\<lambda>p. (fst p, the (map_of xs (fst p)))) xs"
    by (simp add: kv_list_def comp_def)
  also have "\<dots> = xs"
    by (rule map_idI) (use dist in \<open>auto simp: map_of_is_SomeI\<close>)
  finally show ?thesis .
qed

end
