(* ===== verification/Rq_Task.thy ===== *)
theory Rq_Task
  imports Rq_Prelude
begin

text \<open>
  \<open>src/error.rs\<close> and \<open>src/task.rs\<close>: the error type, the task record and its envelope for
  corrupt bytes, and the encoding of RocksDB keys. The serialisation crate is not part of the
  repository: a value of type \<open>'a codec\<close> stands for \<open>bincode::serialize\<close> and
  \<open>bincode::deserialize\<close> at one type, and the locale \<open>bincode\<close> states what the code relies on.
  The system clock (\<open>now_millis\<close>) is an argument of every definition that reads it.
\<close>

section \<open>Errors\<close>

datatype io_kind = PermissionDenied | OtherIo

datatype queue_error =
    RocksDB string
  | Serialization string
  | QueueNotFound string
  | TaskNotFound string
  | ColumnFamilyMissing string
  | BacklogQuotaExceeded (quota_tenant: string) (quota_queue: string)
      (quota_current: nat) (quota_quota: nat) (quota_incoming: nat)
  | Io io_kind string

section \<open>Serialisation as a parameter\<close>

record 'a codec =
  bc_serialize :: "'a \<Rightarrow> string + bytes"
  bc_deserialize :: "bytes \<Rightarrow> string + 'a"

locale bincode =
  fixes C :: "'a codec"
  assumes roundtrip: "bc_serialize C x = Inr b \<Longrightarrow> bc_deserialize C b = Inr x"
    and serialize_total: "\<exists>b. bc_serialize C x = Inr b"
begin

definition enc :: "'a \<Rightarrow> bytes" where
  "enc x = projr (bc_serialize C x)"

lemma serialize_enc [simp]: "bc_serialize C x = Inr (enc x)"
  using serialize_total [of x] by (auto simp: enc_def)

lemma deserialize_enc [simp]: "bc_deserialize C (enc x) = Inr x"
  by (rule roundtrip) simp

lemma enc_inj [simp]: "enc x = enc y \<longleftrightarrow> x = y"
  by (metis deserialize_enc sum.inject(2))

end

section \<open>Tasks\<close>

record task =
  task_id :: string
  task_queue :: string
  payload :: bytes
  enqueued_at :: u64
  attempts :: u32
  deadline :: u64

definition task_serialize :: "task codec \<Rightarrow> task \<Rightarrow> queue_error + bytes" where
  "task_serialize C t = (case bc_serialize C t of Inl e \<Rightarrow> Inl (Serialization e) | Inr b \<Rightarrow> Inr b)"

definition task_deserialize :: "task codec \<Rightarrow> bytes \<Rightarrow> queue_error + task" where
  "task_deserialize C b = (case bc_deserialize C b of Inl e \<Rightarrow> Inl (Serialization e) | Inr t \<Rightarrow> Inr t)"

definition age_ms :: "u64 \<Rightarrow> task \<Rightarrow> u64" where
  "age_ms now t = saturating_sub now (enqueued_at t)"

text \<open>The envelope of unparseable bytes: \<open>u32::MAX\<close> attempts, the raw bytes as payload.\<close>

definition poison :: "u64 \<Rightarrow> string \<Rightarrow> bytes \<Rightarrow> task" where
  "poison now q raw =
     \<lparr>task_id = ''corrupt-'' @ show_nat (unat now), task_queue = q, payload = raw,
      enqueued_at = now, attempts = - 1, deadline = 0\<rparr>"

section \<open>Keys\<close>

definition encode_key :: "string \<Rightarrow> u64 \<Rightarrow> bytes" where
  "encode_key q s = as_bytes q @ [0] @ to_be_bytes s"

definition queue_prefix :: "string \<Rightarrow> bytes" where
  "queue_prefix q = as_bytes q @ [0]"

text \<open>
  \<open>key.get(key.len().checked_sub(8)?..)?.try_into().ok()?\<close>: \<open>None\<close> for a key shorter than
  eight bytes, else the big-endian value of the last eight.
\<close>

definition decode_key_seq :: "bytes \<Rightarrow> u64 option" where
  "decode_key_seq k =
     (if length k < 8 then None else Some (from_be_bytes (drop (length k - 8) k)))"

lemma decode_encode_key [simp]: "decode_key_seq (encode_key q s) = Some s"
  by (simp add: decode_key_seq_def encode_key_def)

lemma encode_key_prefix: "encode_key q s = queue_prefix q @ to_be_bytes s"
  by (simp add: encode_key_def queue_prefix_def)

lemma prefix_encode_key [simp]: "prefix (queue_prefix q) (encode_key q s)"
  by (simp add: encode_key_prefix)

lemma encode_key_less [simp]: "encode_key q a < encode_key q b \<longleftrightarrow> a < b"
  by (simp add: encode_key_prefix)

lemma encode_key_seq_inj: "encode_key q a = encode_key q' b \<Longrightarrow> a = b"
  by (metis decode_encode_key option.inject)

lemma encode_key_eq [simp]: "encode_key q a = encode_key q' b \<longleftrightarrow> q = q' \<and> a = b"
proof
  assume eq: "encode_key q a = encode_key q' b"
  then have "a = b" by (rule encode_key_seq_inj)
  with eq show "q = q' \<and> a = b" by (simp add: encode_key_def)
qed simp

text \<open>
  Where two names without NUL are followed by a NUL byte, the names agree: the prefix of one
  queue never matches a key of another.
\<close>

lemma nul_split: "(0::u8) \<notin> set a \<Longrightarrow> 0 \<notin> set b \<Longrightarrow> prefix (a @ [0]) (b @ 0 # r) \<Longrightarrow> a = b"
proof (induction a arbitrary: b)
  case Nil
  then show ?case by (cases b) auto
next
  case (Cons x a)
  then show ?case by (cases b) auto
qed

lemma queue_prefix_other_key:
  assumes "nul_free q" and "nul_free q'" and "prefix (queue_prefix q) (encode_key q' s)"
  shows "q = q'"
  using nul_split [of "as_bytes q" "as_bytes q'" "to_be_bytes s"] assms
  by (auto simp: nul_free_def queue_prefix_def encode_key_def)

end
