(* ===== verification/Rq_Store.thy ===== *)
theory Rq_Store
  imports Rq_Prelude
begin

text \<open>
  RocksDB as the program sees it. The database is not part of the repository, so it is a
  parameter of the model: a record \<open>'db rocksdb\<close> with one field per call the sources make, over
  an opaque state \<open>'db\<close>. The locale \<open>kv_store\<close> states the documented contract of those calls in
  terms of a view of the state (the finite map each column family holds), allowing any call to
  fail; \<open>reliable_store\<close> adds that calls on existing column families do not fail. The last
  section gives an executable reference store, on which both locales are interpreted.
\<close>

section \<open>Column family options and write batches\<close>

datatype compression = NoCompression | Lz4 | Zstd

datatype cf_filter = PendingFilter u64 | InflightFilter u64 | DlqFilter u64

text \<open>
  A field of \<open>cf_options\<close> is a setter of \<open>rocksdb::Options\<close> that the program calls; \<open>None\<close>
  leaves RocksDB's default in place.
\<close>

record cf_options =
  write_buffer_size :: "nat option"
  max_write_buffer_number :: "int option"
  min_write_buffer_number_to_merge :: "int option"
  prefix_extractor :: "(string \<times> (bytes \<Rightarrow> bytes) \<times> (bytes \<Rightarrow> bool)) option"
  memtable_prefix_bloom_ratio :: "rat option"
  level_zero_file_num_compaction_trigger :: "int option"
  level_zero_slowdown_writes_trigger :: "int option"
  level_zero_stop_writes_trigger :: "int option"
  target_file_size_base :: "nat option"
  max_bytes_for_level_base :: "nat option"
  compression_per_level :: "compression list option"
  block_cache_capacity :: "nat option"
  bloom_filter_bits :: "rat option"
  compaction_filter :: "(string \<times> cf_filter) option"

definition default_options :: cf_options where
  "default_options =
     \<lparr>write_buffer_size = None, max_write_buffer_number = None, min_write_buffer_number_to_merge = None,
      prefix_extractor = None, memtable_prefix_bloom_ratio = None,
      level_zero_file_num_compaction_trigger = None, level_zero_slowdown_writes_trigger = None,
      level_zero_stop_writes_trigger = None, target_file_size_base = None,
      max_bytes_for_level_base = None, compression_per_level = None, block_cache_capacity = None,
      bloom_filter_bits = None, compaction_filter = None\<rparr>"

record write_options =
  wo_sync :: bool
  wo_disable_wal :: bool

datatype write_op = PutCf (op_cf: string) (op_key: bytes) bytes | DeleteCf (op_cf: string) (op_key: bytes)

text \<open>The effect of a write batch on the view of the column families.\<close>

fun apply_op :: "write_op \<Rightarrow> (string \<Rightarrow> kv option) \<Rightarrow> (string \<Rightarrow> kv option)" where
  "apply_op (PutCf c k v) V = V(c := map_option (\<lambda>m. m(k \<mapsto> v)) (V c))"
| "apply_op (DeleteCf c k) V = V(c := map_option (\<lambda>m. m(k := None)) (V c))"

definition apply_batch :: "write_op list \<Rightarrow> (string \<Rightarrow> kv option) \<Rightarrow> (string \<Rightarrow> kv option)" where
  "apply_batch b V = fold apply_op b V"

text \<open>
  An iterator yields results: it either enumerates the entries it stands for, or it delivers
  an initial part of them followed by an error.
\<close>

fun faithful_scan :: "(string + 'a) list \<Rightarrow> 'a list \<Rightarrow> bool" where
  "faithful_scan [] xs \<longleftrightarrow> xs = []"
| "faithful_scan (Inl e # r) xs \<longleftrightarrow> True"
| "faithful_scan (Inr y # r) [] \<longleftrightarrow> False"
| "faithful_scan (Inr y # r) (x # xs) \<longleftrightarrow> y = x \<and> faithful_scan r xs"

section \<open>The calls the program makes\<close>

record 'db rocksdb =
  cf_handle :: "'db \<Rightarrow> string \<Rightarrow> bool"
  get_cf :: "'db \<Rightarrow> string \<Rightarrow> bytes \<Rightarrow> string + bytes option"
  iterator_prefix :: "'db \<Rightarrow> string \<Rightarrow> bytes \<Rightarrow> (string + bytes \<times> bytes) list"
  iterator_from :: "'db \<Rightarrow> string \<Rightarrow> bytes \<Rightarrow> (string + bytes \<times> bytes) list"
  write_opt :: "'db \<Rightarrow> write_options \<Rightarrow> write_op list \<Rightarrow> string + 'db"
  put_cf_opt :: "'db \<Rightarrow> write_options \<Rightarrow> string \<Rightarrow> bytes \<Rightarrow> bytes \<Rightarrow> string + 'db"
  delete_cf_opt :: "'db \<Rightarrow> write_options \<Rightarrow> string \<Rightarrow> bytes \<Rightarrow> string + 'db"
  create_cf :: "'db \<Rightarrow> string \<Rightarrow> cf_options \<Rightarrow> string + 'db"
  drop_cf :: "'db \<Rightarrow> string \<Rightarrow> string + 'db"
  list_cf :: "'db \<Rightarrow> string + string list"
  open_cf :: "'db \<Rightarrow> bool \<Rightarrow> (string \<times> cf_options) list \<Rightarrow> string + 'db"
  registered_filter :: "'db \<Rightarrow> string \<Rightarrow> cf_filter option"
  compaction_pass :: "'db \<Rightarrow> string \<Rightarrow> (bytes \<times> bytes) list"
  compaction_drop :: "'db \<Rightarrow> string \<Rightarrow> bytes list \<Rightarrow> 'db"
  create_checkpoint_at :: "'db \<Rightarrow> string \<Rightarrow> string option"
  property_value :: "'db \<Rightarrow> string \<Rightarrow> string + string option"

text \<open>
  Reading the fields: \<open>cf_handle\<close> tells whether a column family exists; \<open>iterator_prefix\<close> is a
  forward iterator bounded to the keys with a prefix, \<open>iterator_from\<close> one that starts at a key
  and is not bounded; \<open>open_cf\<close> reopens
  a stored database with the given descriptors, its Boolean being both
  \<open>create_if_missing\<close> and \<open>create_missing_column_families\<close>; a manual compaction shows the
  entries \<open>compaction_pass\<close> to the filter registered for the column family and drops the keys
  it rejected.
\<close>

section \<open>The contract\<close>

locale kv_store =
  fixes R :: "'db rocksdb"
    and view :: "'db \<Rightarrow> string \<Rightarrow> kv option"
  assumes view_finite: "view d c = Some m \<Longrightarrow> finite (dom m)"
    and cf_handle_view: "cf_handle R d c \<longleftrightarrow> view d c \<noteq> None"
    and get_view: "view d c = Some m \<Longrightarrow> get_cf R d c k = Inr r \<Longrightarrow> r = m k"
    and prefix_view: "view d c = Some m \<Longrightarrow>
      faithful_scan (iterator_prefix R d c p) (kv_list (m |` {k. prefix p k}))"
    and from_view: "view d c = Some m \<Longrightarrow>
      faithful_scan (iterator_from R d c s) (kv_list (m |` {k. s \<le> k}))"
    and write_view: "write_opt R d wo b = Inr d' \<Longrightarrow> view d' = apply_batch b (view d)"
    and put_view: "put_cf_opt R d wo c k v = Inr d' \<Longrightarrow> view d' = apply_op (PutCf c k v) (view d)"
    and delete_view: "delete_cf_opt R d wo c k = Inr d' \<Longrightarrow> view d' = apply_op (DeleteCf c k) (view d)"
    and create_view: "create_cf R d c opts = Inr d' \<Longrightarrow>
      view d c = None \<and> view d' = (view d)(c \<mapsto> Map.empty)"
    and drop_view: "drop_cf R d c = Inr d' \<Longrightarrow> view d c \<noteq> None \<and> view d' = (view d)(c := None)"
    and list_view: "list_cf R d = Inr cs \<Longrightarrow> set cs = dom (view d)"
    and open_view: "open_cf R d create ds = Inr d' \<Longrightarrow>
      dom (view d) \<subseteq> insert ''default'' (fst ` set ds) \<and>
      view d' = (\<lambda>c. if c \<in> insert ''default'' (fst ` set ds) \<and> view d c = None
                     then Some Map.empty else view d c)"
    and pass_view: "view d c = Some m \<Longrightarrow> (k, v) \<in> set (compaction_pass R d c) \<Longrightarrow> m k = Some v"
    and compact_view: "view (compaction_drop R d c ks) =
      (view d)(c := map_option (\<lambda>m. m |` (- set ks)) (view d c))"
    and filter_create: "create_cf R d c opts = Inr d' \<Longrightarrow>
      registered_filter R d' = (registered_filter R d)(c := map_option snd (compaction_filter opts))"
    and filter_write: "write_opt R d wo b = Inr d' \<Longrightarrow> registered_filter R d' = registered_filter R d"
    and filter_put: "put_cf_opt R d wo c k v = Inr d' \<Longrightarrow> registered_filter R d' = registered_filter R d"
    and filter_compact: "registered_filter R (compaction_drop R d c ks) = registered_filter R d"
    and filter_open: "open_cf R d create ds = Inr d' \<Longrightarrow> distinct (map fst ds) \<Longrightarrow> (c, opts) \<in> set ds \<Longrightarrow>
      registered_filter R d' c = map_option snd (compaction_filter opts)"

locale reliable_store = kv_store R view for R :: "'db rocksdb" and view +
  assumes get_total: "view d c = Some m \<Longrightarrow> \<exists>r. get_cf R d c k = Inr r"
    and prefix_total: "view d c = Some m \<Longrightarrow> \<exists>xs. iterator_prefix R d c p = map Inr xs"
    and from_total: "view d c = Some m \<Longrightarrow> \<exists>xs. iterator_from R d c s = map Inr xs"
    and write_total: "(\<And>x. x \<in> set b \<Longrightarrow> view d (op_cf x) \<noteq> None) \<Longrightarrow> \<exists>d'. write_opt R d wo b = Inr d'"
    and put_total: "view d c \<noteq> None \<Longrightarrow> \<exists>d'. put_cf_opt R d wo c k v = Inr d'"
    and delete_total: "view d c \<noteq> None \<Longrightarrow> \<exists>d'. delete_cf_opt R d wo c k = Inr d'"
    and create_total: "view d c = None \<Longrightarrow> \<exists>d'. create_cf R d c opts = Inr d'"
    and drop_total: "view d c \<noteq> None \<Longrightarrow> \<exists>d'. drop_cf R d c = Inr d'"
    and list_total: "view d c \<noteq> None \<Longrightarrow> \<exists>cs. list_cf R d = Inr cs"
    and open_total: "dom (view d) \<subseteq> insert ''default'' (fst ` set ds) \<Longrightarrow>
      create \<or> insert ''default'' (fst ` set ds) \<subseteq> dom (view d) \<Longrightarrow> \<exists>d'. open_cf R d create ds = Inr d'"

section \<open>Write batches\<close>

lemma apply_batch_Nil [simp]: "apply_batch [] V = V"
  by (simp add: apply_batch_def)

lemma apply_batch_Cons [simp]: "apply_batch (x # b) V = apply_batch b (apply_op x V)"
  by (simp add: apply_batch_def)

lemma apply_batch_append [simp]: "apply_batch (a @ b) V = apply_batch b (apply_batch a V)"
  by (simp add: apply_batch_def)

lemma apply_op_defined [simp]: "apply_op x V c = None \<longleftrightarrow> V c = None"
  by (cases x) auto

lemma apply_batch_defined [simp]: "apply_batch b V c = None \<longleftrightarrow> V c = None"
  by (induction b arbitrary: V) auto

lemma apply_batch_other [rq_simps]: "c \<notin> op_cf ` set b \<Longrightarrow> apply_batch b V c = V c"
proof (induction b arbitrary: V)
  case (Cons x b)
  then show ?case by (cases x) auto
qed simp

text \<open>
  A batch splits by column family: its effect on one of them is that of the operations naming
  it, in order.
\<close>

fun kv_op :: "write_op \<Rightarrow> kv \<Rightarrow> kv" where
  "kv_op (PutCf c k v) m = m(k \<mapsto> v)"
| "kv_op (DeleteCf c k) m = m(k := None)"

definition kv_batch :: "write_op list \<Rightarrow> kv \<Rightarrow> kv" where
  "kv_batch b m = fold kv_op b m"

lemma kv_batch_simps [simp]:
  "kv_batch [] m = m" "kv_batch (x # b) m = kv_batch b (kv_op x m)"
  "kv_batch (a @ b) m = kv_batch b (kv_batch a m)"
  by (simp_all add: kv_batch_def)

lemma apply_batch_cf:
  "V c = Some m \<Longrightarrow> apply_batch b V c = Some (kv_batch (filter (\<lambda>x. op_cf x = c) b) m)"
proof (induction b arbitrary: V m)
  case (Cons x b)
  then show ?case by (cases x) (auto simp: fun_upd_def)
qed simp

lemma kv_batch_deletes: "kv_batch (map (DeleteCf c) ks) m = m |` (- set ks)"
proof (induction ks arbitrary: m)
  case (Cons k ks)
  then show ?case by (auto simp: restrict_map_def fun_eq_iff)
qed (simp add: restrict_map_def)

lemma kv_batch_puts: "kv_batch (map (\<lambda>(k, v). PutCf c k v) xs) m = m ++ map_of (rev xs)"
  by (induction xs arbitrary: m) (auto simp: map_add_upd_left fun_eq_iff map_add_def split: option.splits)

section \<open>Scans\<close>

lemma faithful_scan_total [rq_scan]: "faithful_scan (map Inr ys) xs \<longleftrightarrow> ys = xs"
proof (induction ys arbitrary: xs)
  case (Cons y ys)
  then show ?case by (cases xs) auto
qed auto

context kv_store
begin

lemma restrict_finite: "view d c = Some m \<Longrightarrow> finite (dom (m |` A))"
  using view_finite by fastforce

lemma write_defined: "write_opt R d wo b = Inr d' \<Longrightarrow> view d' c = None \<longleftrightarrow> view d c = None"
  by (simp add: write_view)

lemma write_other: "write_opt R d wo b = Inr d' \<Longrightarrow> c \<notin> op_cf ` set b \<Longrightarrow> view d' c = view d c"
  by (simp add: write_view apply_batch_other)

end

context reliable_store
begin

lemma get_eq: "view d c = Some m \<Longrightarrow> get_cf R d c k = Inr (m k)"
  using get_total get_view by fastforce

lemma prefix_eq: "view d c = Some m \<Longrightarrow> iterator_prefix R d c p = map Inr (kv_list (m |` {k. prefix p k}))"
  by (metis faithful_scan_total prefix_total prefix_view)

lemma from_eq: "view d c = Some m \<Longrightarrow> iterator_from R d c s = map Inr (kv_list (m |` {k. s \<le> k}))"
  by (metis faithful_scan_total from_total from_view)

lemma write_obtain:
  assumes "\<And>x. x \<in> set b \<Longrightarrow> view d (op_cf x) \<noteq> None"
  obtains d' where "write_opt R d wo b = Inr d'" and "view d' = apply_batch b (view d)"
  using write_total [of b d wo] write_view [of d wo b] assms by blast

end

section \<open>A reference store\<close>

text \<open>
  Column families as association lists: an entry put later shadows an earlier one. The list of
  column families keeps the filter each was created with.
\<close>

record mem_db =
  mem_cfs :: "(string \<times> (bytes \<times> bytes) list) list"
  mem_filters :: "(string \<times> cf_filter) list"

fun mem_insert :: "bytes \<Rightarrow> bytes \<Rightarrow> (bytes \<times> bytes) list \<Rightarrow> (bytes \<times> bytes) list" where
  "mem_insert k v [] = [(k, v)]"
| "mem_insert k v ((k', v') # xs) =
     (if k < k' then (k, v) # (k', v') # xs else if k = k' then (k, v) # xs
      else (k', v') # mem_insert k v xs)"

definition mem_sort :: "(bytes \<times> bytes) list \<Rightarrow> (bytes \<times> bytes) list" where
  "mem_sort xs = foldr (\<lambda>(k, v). mem_insert k v) xs []"

lemma map_of_mem_insert [simp]: "map_of (mem_insert k v xs) = (map_of xs)(k \<mapsto> v)"
  by (induction k v xs rule: mem_insert.induct) auto

lemma set_mem_insert: "fst ` set (mem_insert k v xs) = insert k (fst ` set xs)"
  by (induction k v xs rule: mem_insert.induct) auto

lemma sorted_mem_insert:
  "sorted_wrt (<) (map fst xs) \<Longrightarrow> sorted_wrt (<) (map fst (mem_insert k v xs))"
proof (induction k v xs rule: mem_insert.induct)
  case (2 k v k' v' xs)
  have "x \<in> fst ` set (mem_insert k v xs) \<Longrightarrow> k' < k \<Longrightarrow> k' < x" for x
    using "2.prems" by (auto simp: set_mem_insert)
  with 2 show ?case by (auto simp: image_iff)
qed simp

lemma sorted_mem_sort: "sorted_wrt (<) (map fst (mem_sort xs))"
  by (induction xs) (auto simp: mem_sort_def sorted_mem_insert)

lemma map_of_mem_sort: "map_of (mem_sort xs) = map_of xs"
  by (induction xs) (auto simp: mem_sort_def)

lemma in_mem_sort: "(k, v) \<in> set (mem_sort xs) \<Longrightarrow> map_of xs k = Some v"
proof -
  assume "(k, v) \<in> set (mem_sort xs)"
  moreover have "distinct (map fst (mem_sort xs))"
    using sorted_mem_sort by (simp add: strict_sorted_iff)
  ultimately show ?thesis
    by (metis map_of_is_SomeI map_of_mem_sort)
qed

lemma sorted_map_filter: "sorted_wrt (<) (map f xs) \<Longrightarrow> sorted_wrt (<) (map f (filter P xs))"
  by (induction xs) auto

lemma map_of_filter_key: "map_of (filter (\<lambda>(k, v). P k) xs) = map_of xs |` {k. P k}"
  by (induction xs) (auto simp: restrict_map_def fun_eq_iff)

lemma mem_sort_filter: "filter (\<lambda>(k, v). P k) (mem_sort xs) = kv_list (map_of xs |` {k. P k})"
proof -
  let ?ys = "filter (\<lambda>(k, v). P k) (mem_sort xs)"
  have "sorted_wrt (<) (map fst ?ys)"
    by (intro sorted_map_filter sorted_mem_sort)
  then show ?thesis
    using kv_list_map_of [of ?ys] by (simp add: map_of_filter_key map_of_mem_sort)
qed

definition mem_view :: "mem_db \<Rightarrow> string \<Rightarrow> kv option" where
  "mem_view d c = map_option map_of (map_of (mem_cfs d) c)"

definition mem_update :: "string \<Rightarrow> ('a \<Rightarrow> 'a) \<Rightarrow> (string \<times> 'a) list \<Rightarrow> (string \<times> 'a) list" where
  "mem_update c f cfs = map (\<lambda>(c', xs). (c', if c' = c then f xs else xs)) cfs"

fun mem_op :: "write_op \<Rightarrow> mem_db \<Rightarrow> mem_db" where
  "mem_op (PutCf c k v) d = d\<lparr>mem_cfs := mem_update c (Cons (k, v)) (mem_cfs d)\<rparr>"
| "mem_op (DeleteCf c k) d = d\<lparr>mem_cfs := mem_update c (filter (\<lambda>(k', v). k' \<noteq> k)) (mem_cfs d)\<rparr>"

definition mem_missing :: "mem_db \<Rightarrow> string list \<Rightarrow> string list" where
  "mem_missing d cs = filter (\<lambda>c. map_of (mem_cfs d) c = None) (''default'' # cs)"

definition mem_rocksdb :: "mem_db rocksdb" where
  "mem_rocksdb = \<lparr>
     cf_handle = (\<lambda>d c. map_of (mem_cfs d) c \<noteq> None),
     get_cf = (\<lambda>d c k. case map_of (mem_cfs d) c of None \<Rightarrow> Inl ''no column family''
                        | Some xs \<Rightarrow> Inr (map_of xs k)),
     iterator_prefix = (\<lambda>d c p. case map_of (mem_cfs d) c of None \<Rightarrow> [Inl ''no column family'']
                        | Some xs \<Rightarrow> map Inr (filter (\<lambda>(k, v). prefix p k) (mem_sort xs))),
     iterator_from = (\<lambda>d c s. case map_of (mem_cfs d) c of None \<Rightarrow> [Inl ''no column family'']
                        | Some xs \<Rightarrow> map Inr (filter (\<lambda>(k, v). s \<le> k) (mem_sort xs))),
     write_opt = (\<lambda>d wo b. Inr (fold mem_op b d)),
     put_cf_opt = (\<lambda>d wo c k v. Inr (mem_op (PutCf c k v) d)),
     delete_cf_opt = (\<lambda>d wo c k. Inr (mem_op (DeleteCf c k) d)),
     create_cf = (\<lambda>d c opts. if map_of (mem_cfs d) c \<noteq> None then Inl ''Column family already exists''
                   else Inr (d\<lparr>mem_cfs := (c, []) # mem_cfs d,
                     mem_filters := (case compaction_filter opts of None \<Rightarrow> id | Some (n, f) \<Rightarrow> Cons (c, f))
                       (filter (\<lambda>(c', f). c' \<noteq> c) (mem_filters d))\<rparr>)),
     drop_cf = (\<lambda>d c. if map_of (mem_cfs d) c = None then Inl ''Invalid column family''
                   else Inr (d\<lparr>mem_cfs := filter (\<lambda>(c', xs). c' \<noteq> c) (mem_cfs d)\<rparr>)),
     list_cf = (\<lambda>d. if mem_cfs d = [] then Inl ''No such file or directory'' else Inr (map fst (mem_cfs d))),
     open_cf = (\<lambda>d create ds.
       if \<not> fst ` set (mem_cfs d) \<subseteq> insert ''default'' (fst ` set ds) then Inl ''Column families not opened''
       else if \<not> create \<and> mem_missing d (map fst ds) \<noteq> [] then Inl ''Column family not found''
       else Inr (d\<lparr>mem_cfs := mem_cfs d @ map (\<lambda>c. (c, [])) (mem_missing d (map fst ds)),
                   mem_filters := concat (map (\<lambda>(c, opts). case compaction_filter opts of
                      None \<Rightarrow> [] | Some (n, f) \<Rightarrow> [(c, f)]) ds)\<rparr>)),
     registered_filter = (\<lambda>d c. map_of (mem_filters d) c),
     compaction_pass = (\<lambda>d c. case map_of (mem_cfs d) c of None \<Rightarrow> [] | Some xs \<Rightarrow> mem_sort xs),
     compaction_drop = (\<lambda>d c ks. d\<lparr>mem_cfs := mem_update c (filter (\<lambda>(k, v). k \<notin> set ks)) (mem_cfs d)\<rparr>),
     create_checkpoint_at = (\<lambda>d p. None),
     property_value = (\<lambda>d n. Inr None)\<rparr>"

lemma mem_rocksdb_sel [simp]:
  "cf_handle mem_rocksdb d c \<longleftrightarrow> map_of (mem_cfs d) c \<noteq> None"
  "write_opt mem_rocksdb d wo b = Inr (fold mem_op b d)"
  "put_cf_opt mem_rocksdb d wo c k v = Inr (mem_op (PutCf c k v) d)"
  "delete_cf_opt mem_rocksdb d wo c k = Inr (mem_op (DeleteCf c k) d)"
  "registered_filter mem_rocksdb d c = map_of (mem_filters d) c"
  by (simp_all add: mem_rocksdb_def)

lemma map_of_mem_update: "map_of (mem_update c f cfs) = (map_of cfs)(c := map_option f (map_of cfs c))"
  by (induction cfs) (auto simp: mem_update_def)

lemma mem_view_op [simp]: "mem_view (mem_op x d) = apply_op x (mem_view d)"
  by (cases x) (auto simp: mem_view_def map_of_mem_update map_of_filter_key restrict_map_def
      fun_eq_iff option.map_comp comp_def split: option.splits intro!: option.map_cong)

lemma mem_view_batch [simp]: "mem_view (fold mem_op b d) = apply_batch b (mem_view d)"
  by (induction b arbitrary: d) auto

lemma mem_filters_op [simp]: "mem_filters (mem_op x d) = mem_filters d"
  by (cases x) auto

lemma mem_filters_batch [simp]: "mem_filters (fold mem_op b d) = mem_filters d"
  by (induction b arbitrary: d) auto

lemma mem_view_Some: "mem_view d c = Some m \<longleftrightarrow> (\<exists>xs. map_of (mem_cfs d) c = Some xs \<and> m = map_of xs)"
  by (auto simp: mem_view_def)

lemma mem_view_None: "mem_view d c = None \<longleftrightarrow> map_of (mem_cfs d) c = None"
  by (simp add: mem_view_def)

lemma dom_mem_view: "dom (mem_view d) = fst ` set (mem_cfs d)"
  by (auto simp: mem_view_def dom_def map_of_eq_None_iff simp flip: not_None_eq)

lemma map_of_filter_neq: "map_of (filter (\<lambda>(c', x). c' \<noteq> c) xs) = (map_of xs)(c := None)"
  by (induction xs) auto

lemma map_of_const_list: "map_of (map (\<lambda>c. (c, v)) cs) c = (if c \<in> set cs then Some v else None)"
  by (induction cs) auto

lemma mem_missing_set: "set (mem_missing d cs) = {c \<in> insert ''default'' (set cs). mem_view d c = None}"
  by (auto simp: mem_missing_def mem_view_None)

lemma mem_missing_Nil: "insert ''default'' (set cs) \<subseteq> dom (mem_view d) \<Longrightarrow> mem_missing d cs = []"
proof -
  assume "insert ''default'' (set cs) \<subseteq> dom (mem_view d)"
  then have "set (mem_missing d cs) = {}"
    unfolding mem_missing_set by fastforce
  then show ?thesis by simp
qed

lemma mem_view_put: "mem_view (mem_op (PutCf c k v) d) = apply_op (PutCf c k v) (mem_view d)"
  and mem_view_delete: "mem_view (mem_op (DeleteCf c k) d) = apply_op (DeleteCf c k) (mem_view d)"
  by (rule mem_view_op)+

lemma map_of_mem_open:
  "map_of (mem_cfs d @ map (\<lambda>c. (c, [])) (mem_missing d cs)) c =
   (if c \<in> insert ''default'' (set cs) \<and> map_of (mem_cfs d) c = None then Some []
    else map_of (mem_cfs d) c)"
  by (simp add: map_add_def map_of_const_list mem_missing_set mem_view_None split: option.splits)

lemma mem_open_view:
  assumes "open_cf mem_rocksdb d create ds = Inr d'"
  shows "dom (mem_view d) \<subseteq> insert ''default'' (fst ` set ds) \<and>
    mem_view d' = (\<lambda>c. if c \<in> insert ''default'' (fst ` set ds) \<and> mem_view d c = None
                       then Some Map.empty else mem_view d c)"
proof -
  have sub: "fst ` set (mem_cfs d) \<subseteq> insert ''default'' (fst ` set ds)"
    and cfs: "mem_cfs d' = mem_cfs d @ map (\<lambda>c. (c, [])) (mem_missing d (map fst ds))"
    using assms by (simp_all add: mem_rocksdb_def split: if_splits, auto)
  have "mem_view d' c = (if c \<in> insert ''default'' (fst ` set ds) \<and> mem_view d c = None
      then Some Map.empty else mem_view d c)" for c
    unfolding mem_view_def cfs map_of_mem_open by simp
  with sub show ?thesis by (auto simp: dom_mem_view)
qed

lemma map_of_concat_filters:
  "distinct (map fst ds) \<Longrightarrow> (c, opts) \<in> set ds \<Longrightarrow>
   map_of (concat (map (\<lambda>(c, opts). case compaction_filter opts of
      None \<Rightarrow> [] | Some (n, f) \<Rightarrow> [(c, f)]) ds)) c = map_option snd (compaction_filter opts)"
proof (induction ds)
  case (Cons a ds)
  have none: "c \<notin> fst ` set ds \<Longrightarrow> map_of (concat (map (\<lambda>(c, opts). case compaction_filter opts of
      None \<Rightarrow> [] | Some (n, f) \<Rightarrow> [(c, f)]) ds)) c = None"
    by (force simp: map_of_eq_None_iff split: option.splits)
  show ?case
  proof (cases "a = (c, opts)")
    case True
    with Cons.prems none show ?thesis by (auto split: option.splits)
  next
    case False
    with Cons show ?thesis by (force split: option.splits prod.splits)
  qed
qed simp

text \<open>The reference store satisfies the contract, and never fails on an existing column family.\<close>

interpretation mem: reliable_store mem_rocksdb mem_view
proof (unfold_locales, goal_cases)
  case (1 d c m)
  then show ?case by (auto simp: mem_view_Some finite_dom_map_of)
next
  case (2 d c)
  then show ?case by (simp add: mem_view_None)
next
  case (3 d c m k r)
  then show ?case by (auto simp: mem_view_Some mem_rocksdb_def)
next
  case (4 d c m p)
  then show ?case by (auto simp: mem_view_Some mem_rocksdb_def mem_sort_filter faithful_scan_total)
next
  case (5 d c m s)
  then show ?case by (auto simp: mem_view_Some mem_rocksdb_def mem_sort_filter faithful_scan_total)
next
  case (7 d wo c k v d')
  then have "d' = mem_op (PutCf c k v) d" by simp
  then show ?case by (metis mem_view_put)
next
  case (8 d wo c k d')
  then have "d' = mem_op (DeleteCf c k) d" by simp
  then show ?case by (metis mem_view_delete)
next
  case (9 d c opts d')
  then show ?case
    by (auto simp: mem_rocksdb_def mem_view_def fun_eq_iff split: if_splits)
next
  case (10 d c d')
  then show ?case
    by (auto simp: mem_rocksdb_def mem_view_def fun_eq_iff map_of_filter_neq split: if_splits)
next
  case (11 d cs)
  then show ?case
    by (simp add: mem_rocksdb_def dom_mem_view split: if_splits flip: set_map)
next
  case (12 d create ds d')
  then show ?case by (rule mem_open_view)
next
  case (13 d c m k v)
  then show ?case
    by (auto simp: mem_rocksdb_def mem_view_Some in_mem_sort)
next
  case (14 d c ks)
  then show ?case
    by (auto simp: mem_rocksdb_def mem_view_def map_of_mem_update map_of_filter_key fun_eq_iff
        option.map_comp comp_def Compl_eq)
next
  case (15 d c opts d')
  then show ?case
    by (auto simp: mem_rocksdb_def map_of_filter_neq split: if_splits option.splits)
next
  case (19 d create ds d' c opts)
  then show ?case
    by (auto simp: mem_rocksdb_def map_of_concat_filters split: if_splits)
next
  case (29 d ds create)
  then show ?case
    using mem_missing_Nil [of "map fst ds" d] by (auto simp: mem_rocksdb_def dom_mem_view)
qed (auto simp: mem_rocksdb_def mem_view_Some mem_view_None dom_mem_view split: if_splits)

end
