(* ===== verification/Rq_Compaction.thy ===== *)
theory Rq_Compaction
  imports Rq_Task Rq_Store
begin

text \<open>
  \<open>src/compaction.rs\<close>: the compaction filters of the three kinds of column family and the
  counters they share. A filter is a function of the clock, the value shown to it and the
  counters; the level and the key it also receives are not used by the code. The atomic
  counters wrap, as \<open>AtomicU64::fetch_add\<close> does, and so does the product
  \<open>retention_secs * 1000\<close> (release profile).
\<close>

record compaction_counters =
  pending_expired :: u64
  dlq_expired :: u64
  inflight_stale :: u64
  kept :: u64

definition new_counters :: compaction_counters where
  "new_counters = \<lparr>pending_expired = 0, dlq_expired = 0, inflight_stale = 0, kept = 0\<rparr>"

datatype decision = Keep | Remove

definition make_pending_filter ::
  "task codec \<Rightarrow> u64 \<Rightarrow> u64 \<Rightarrow> bytes \<Rightarrow> compaction_counters \<Rightarrow> decision \<times> compaction_counters" where
  "make_pending_filter C retention_secs now value n =
     (if retention_secs = 0 then (Keep, n\<lparr>kept := kept n + 1\<rparr>)
      else case task_deserialize C value of
        Inr t \<Rightarrow> if age_ms now t > retention_secs * 1000
                 then (Remove, n\<lparr>pending_expired := pending_expired n + 1\<rparr>)
                 else (Keep, n\<lparr>kept := kept n + 1\<rparr>)
      | Inl e \<Rightarrow> (Remove, n\<lparr>pending_expired := pending_expired n + 1\<rparr>))"

definition make_dlq_filter ::
  "task codec \<Rightarrow> u64 \<Rightarrow> u64 \<Rightarrow> bytes \<Rightarrow> compaction_counters \<Rightarrow> decision \<times> compaction_counters" where
  "make_dlq_filter C dlq_retention now value n =
     (case task_deserialize C value of
        Inr t \<Rightarrow> if age_ms now t > dlq_retention * 1000
                 then (Remove, n\<lparr>dlq_expired := dlq_expired n + 1\<rparr>)
                 else (Keep, n\<lparr>kept := kept n + 1\<rparr>)
      | Inl e \<Rightarrow> (Remove, n\<lparr>dlq_expired := dlq_expired n + 1\<rparr>))"

definition make_inflight_filter ::
  "task codec \<Rightarrow> u64 \<Rightarrow> bytes \<Rightarrow> compaction_counters \<Rightarrow> decision \<times> compaction_counters" where
  "make_inflight_filter C stale_after_secs value n =
     (case task_deserialize C value of
        Inr t \<Rightarrow> (Keep, n\<lparr>kept := kept n + 1\<rparr>)
      | Inl e \<Rightarrow> (Remove, n\<lparr>inflight_stale := inflight_stale n + 1\<rparr>))"

text \<open>The filter registered for a column family, applied to one record.\<close>

fun run_filter ::
  "task codec \<Rightarrow> cf_filter \<Rightarrow> u64 \<Rightarrow> bytes \<Rightarrow> compaction_counters \<Rightarrow> decision \<times> compaction_counters" where
  "run_filter C (PendingFilter r) now v n = make_pending_filter C r now v n"
| "run_filter C (DlqFilter r) now v n = make_dlq_filter C r now v n"
| "run_filter C (InflightFilter r) now v n = make_inflight_filter C r v n"

text \<open>
  One compaction of a column family: the records it visits are shown to the filter in turn, the
  \<open>i\<close>-th at clock value \<open>clk i\<close>; the result is the keys to drop.
\<close>

fun filter_records ::
  "task codec \<Rightarrow> cf_filter \<Rightarrow> (nat \<Rightarrow> u64) \<Rightarrow> nat \<Rightarrow> (bytes \<times> bytes) list \<Rightarrow> compaction_counters
   \<Rightarrow> bytes list \<times> compaction_counters" where
  "filter_records C f clk i [] n = ([], n)"
| "filter_records C f clk i ((k, v) # xs) n =
     (case run_filter C f (clk i) v n of (dec, n') \<Rightarrow>
        case filter_records C f clk (Suc i) xs n' of (ks, n'') \<Rightarrow>
          (if dec = Remove then k # ks else ks, n''))"

definition compact_range_cf ::
  "'db rocksdb \<Rightarrow> task codec \<Rightarrow> (nat \<Rightarrow> u64) \<Rightarrow> string \<Rightarrow> 'db \<times> compaction_counters
   \<Rightarrow> 'db \<times> compaction_counters" where
  "compact_range_cf R C clk c = (\<lambda>(d, n).
     case registered_filter R d c of
       None \<Rightarrow> (compaction_drop R d c [], n)
     | Some f \<Rightarrow> (case filter_records C f clk 0 (compaction_pass R d c) n of (ks, n') \<Rightarrow>
         (compaction_drop R d c ks, n')))"

section \<open>What a compaction may drop\<close>

text \<open>A dropped key was shown to the filter, which answered \<open>Remove\<close> for its value.\<close>

lemma filter_records_dropped:
  assumes "k \<in> set (fst (filter_records C f clk i xs n))"
  shows "\<exists>v j n'. (k, v) \<in> set xs \<and> fst (run_filter C f (clk j) v n') = Remove"
  using assms
proof (induction C f clk i xs n rule: filter_records.induct)
  case (2 C f clk i k' v xs n)
  obtain dec n1 where r: "run_filter C f (clk i) v n = (dec, n1)"
    by (cases "run_filter C f (clk i) v n")
  obtain ks n2 where s: "filter_records C f clk (Suc i) xs n1 = (ks, n2)"
    by (cases "filter_records C f clk (Suc i) xs n1")
  have "dec = Remove \<and> k = k' \<or> k \<in> set ks"
    using "2.prems" r s by (auto split: if_splits)
  then show ?case
  proof
    assume "dec = Remove \<and> k = k'"
    then show ?thesis using r by (metis fst_conv list.set_intros(1))
  next
    assume "k \<in> set ks"
    with "2.IH" [OF r [symmetric]] s show ?thesis by fastforce
  qed
qed simp

lemma pending_filter_decision:
  "fst (make_pending_filter C r now v n) = Remove \<longleftrightarrow> r \<noteq> 0 \<and>
     (case bc_deserialize C v of Inl e \<Rightarrow> True | Inr t \<Rightarrow> r * 1000 < age_ms now t)"
  by (auto simp: make_pending_filter_def task_deserialize_def split: sum.splits)

lemma dlq_filter_decision:
  "fst (make_dlq_filter C r now v n) = Remove \<longleftrightarrow>
     (case bc_deserialize C v of Inl e \<Rightarrow> True | Inr t \<Rightarrow> r * 1000 < age_ms now t)"
  by (auto simp: make_dlq_filter_def task_deserialize_def split: sum.splits)

lemma inflight_filter_decision:
  "fst (make_inflight_filter C r v n) = Remove \<longleftrightarrow> (\<exists>e. bc_deserialize C v = Inl e)"
  by (auto simp: make_inflight_filter_def task_deserialize_def split: sum.splits)

lemmas filter_decisions = pending_filter_decision dlq_filter_decision inflight_filter_decision

context kv_store
begin

text \<open>A compaction of one column family leaves the others alone and only ever removes entries.\<close>

lemma compact_other: "c' \<noteq> c \<Longrightarrow> view (fst (compact_range_cf R C clk c (d, n))) c' = view d c'"
  by (auto simp: compact_range_cf_def compact_view split: option.splits prod.splits)

lemma compact_filters: "registered_filter R (fst (compact_range_cf R C clk c (d, n))) = registered_filter R d"
  by (auto simp: compact_range_cf_def filter_compact split: option.splits prod.splits)

lemma compact_defined: "view (fst (compact_range_cf R C clk c (d, n))) c' = None \<longleftrightarrow> view d c' = None"
  by (auto simp: compact_range_cf_def compact_view split: option.splits prod.splits)

lemma compact_subset:
  "view d c = Some m \<Longrightarrow>
   \<exists>m'. view (fst (compact_range_cf R C clk c (d, n))) c = Some m' \<and> m' \<subseteq>\<^sub>m m"
  by (auto simp: compact_range_cf_def compact_view map_le_def restrict_map_def split: option.splits prod.splits)

lemma compact_keeps:
  assumes m: "view d c = Some m" and k: "m k = Some v" and f: "registered_filter R d c = Some f"
    and keep: "\<And>j n. fst (run_filter C f (clk j) v n) = Keep"
  shows "\<exists>m'. view (fst (compact_range_cf R C clk c (d, n))) c = Some m' \<and> m' k = Some v"
proof -
  obtain ks n' where r: "filter_records C f clk 0 (compaction_pass R d c) n = (ks, n')"
    by (cases "filter_records C f clk 0 (compaction_pass R d c) n")
  have "k \<notin> set ks"
  proof
    assume "k \<in> set ks"
    then obtain v' j n'' where "(k, v') \<in> set (compaction_pass R d c)"
      and rm: "fst (run_filter C f (clk j) v' n'') = Remove"
      using filter_records_dropped [of k C f clk 0 "compaction_pass R d c" n] r by auto
    then have "v' = v"
      using pass_view [OF m] k by (metis option.inject)
    with rm keep show False by simp
  qed
  with m k f r show ?thesis
    by (simp add: compact_range_cf_def compact_view)
qed

end

end
