(* ===== verification/Rq_Policy.thy ===== *)
theory Rq_Policy
  imports Rq_Prelude
begin

text \<open>
  \<open>src/policy.rs\<close>: backlog and retention policies of a tenant and the two built-in tiers.
  \<open>usize\<close> fields are natural numbers, \<open>u32\<close> and \<open>u64\<close> fields are words.
\<close>

datatype backlog_policy = Reject | Block (timeout_ms: u64) | EvictOldest

record retention_policy =
  pending_retention_secs :: u64
  dlq_retention_secs :: u64
  inflight_stale_secs :: u64

definition default_retention :: retention_policy where
  "default_retention =
     \<lparr>pending_retention_secs = 0, dlq_retention_secs = 7 * 24 * 3600, inflight_stale_secs = 300\<rparr>"

record namespace_policy =
  np_tenant_id :: string
  np_namespace :: string
  np_weight :: u32
  np_max_inflight :: nat
  np_burst_tokens :: u32
  np_rate_per_sec :: u32
  np_backlog_quota :: "nat option"
  np_backlog_policy :: backlog_policy
  np_retention :: retention_policy

definition standard_policy :: "string \<Rightarrow> namespace_policy" where
  "standard_policy t =
     \<lparr>np_tenant_id = t, np_namespace = t, np_weight = 10, np_max_inflight = 500,
      np_burst_tokens = 100, np_rate_per_sec = 100, np_backlog_quota = Some 100000,
      np_backlog_policy = Reject, np_retention = default_retention\<rparr>"

definition premium_policy :: "string \<Rightarrow> namespace_policy" where
  "premium_policy t =
     \<lparr>np_tenant_id = t, np_namespace = t, np_weight = 50, np_max_inflight = 5000,
      np_burst_tokens = 1000, np_rate_per_sec = 1000, np_backlog_quota = Some 1000000,
      np_backlog_policy = Block 5000, np_retention = default_retention\<rparr>"

end
