(* ===== verification/Rq_Paths.thy ===== *)
theory Rq_Paths
  imports Rq_Prelude
begin

text \<open>
  The part of \<open>std::path\<close> (Unix) that the program uses: a path is parsed into components, empty
  pieces and inner \<open>.\<close> pieces disappear, and \<open>Path::starts_with\<close> compares whole components.
\<close>

datatype component = RootDir | CurDir | ParentDir | NormalComp string

fun split_slash :: "string \<Rightarrow> string list" where
  "split_slash [] = [[]]"
| "split_slash (c # s) =
     (if c = CHR ''/'' then [] # split_slash s
      else case split_slash s of [] \<Rightarrow> [[c]] | p # ps \<Rightarrow> (c # p) # ps)"

definition component_of :: "string \<Rightarrow> component" where
  "component_of s = (if s = ''..'' then ParentDir else NormalComp s)"

definition path_components :: "string \<Rightarrow> component list" where
  "path_components p =
     (if prefix ''/'' p then [RootDir] else if hd (split_slash p) = ''.'' then [CurDir] else [])
     @ map component_of (filter (\<lambda>s. s \<noteq> [] \<and> s \<noteq> ''.'') (split_slash p))"

definition path_starts_with :: "string \<Rightarrow> string \<Rightarrow> bool" where
  "path_starts_with p base \<longleftrightarrow> prefix (path_components base) (path_components p)"

text \<open>
  Where a sequence of components leads, resolving \<open>..\<close> lexically from the names already
  walked: the directory as a list of names, outermost first.
\<close>

fun resolve :: "string list \<Rightarrow> component list \<Rightarrow> string list" where
  "resolve acc [] = acc"
| "resolve acc (RootDir # cs) = resolve [] cs"
| "resolve acc (CurDir # cs) = resolve acc cs"
| "resolve acc (ParentDir # cs) = resolve (butlast acc) cs"
| "resolve acc (NormalComp s # cs) = resolve (acc @ [s]) cs"

lemma resolve_append: "resolve acc (a @ b) = resolve (resolve acc a) b"
  by (induction acc a rule: resolve.induct) auto

lemma resolve_extends:
  "ParentDir \<notin> set cs \<Longrightarrow> RootDir \<notin> set cs \<Longrightarrow> prefix acc (resolve acc cs)"
proof (induction acc cs rule: resolve.induct)
  case (5 acc s cs)
  then have "prefix (acc @ [s]) (resolve (acc @ [s]) cs)" by simp
  then show ?case by (auto dest: append_prefixD)
qed auto

lemma component_of_not_root: "RootDir \<notin> component_of ` A"
  by (auto simp: component_of_def)

text \<open>A root component can only stand first.\<close>

lemma RootDir_only_first: "path_components p = a @ b \<Longrightarrow> a \<noteq> [] \<Longrightarrow> RootDir \<notin> set b"
proof -
  assume eq: "path_components p = a @ b" and a: "a \<noteq> []"
  let ?rest = "map component_of (filter (\<lambda>s. s \<noteq> [] \<and> s \<noteq> ''.'') (split_slash p))"
  have rest: "RootDir \<notin> set ?rest"
    using component_of_not_root [of "set (filter (\<lambda>s. s \<noteq> [] \<and> s \<noteq> ''.'') (split_slash p))"]
    by (metis set_map)
  obtain h where h: "path_components p = h @ ?rest" and "length h \<le> 1"
    by (simp add: path_components_def split: if_splits)
  have "RootDir \<notin> set b" if "h = []"
    using rest h eq that by (metis UnCI append_Nil set_append)
  moreover have "RootDir \<notin> set b" if hx: "h = [x]" for x
  proof -
    obtain a' where "a = x # a'" and "?rest = a' @ b"
      using a eq h hx by (cases a) auto
    then show ?thesis using rest by (metis UnCI set_append)
  qed
  ultimately show ?thesis
    using \<open>length h \<le> 1\<close> by (cases h) auto
qed

end
