(* ===== verification/Rq_Registry.thy ===== *)
theory Rq_Registry
  imports Rq_Compaction Rq_Policy Rq_Paths
begin

text \<open>
  \<open>src/tenant.rs\<close>, part one: the state of \<open>TenantRegistry\<close>, column family names and options,
  opening a database, and the life cycle of a tenant. An operation on the registry takes the
  state and returns a result and the new state, so that what was changed before an error is
  visible; \<open>bind_op\<close> is Rust's \<open>?\<close>.
\<close>

section \<open>Results with state\<close>

type_synonym ('s, 'a) outcome = "(queue_error + 'a) \<times> 's"

definition bind_op :: "('s, 'a) outcome \<Rightarrow> ('a \<Rightarrow> 's \<Rightarrow> ('s, 'b) outcome) \<Rightarrow> ('s, 'b) outcome" where
  "bind_op r f = (case r of (Inl e, s) \<Rightarrow> (Inl e, s) | (Inr a, s) \<Rightarrow> f a s)"

definition bind_res :: "queue_error + 'a \<Rightarrow> 's \<Rightarrow> ('a \<Rightarrow> ('s, 'b) outcome) \<Rightarrow> ('s, 'b) outcome" where
  "bind_res r s f = (case r of Inl e \<Rightarrow> (Inl e, s) | Inr a \<Rightarrow> f a)"

lemma bind_op_simps [simp]: "bind_op (Inl e, s) f = (Inl e, s)" "bind_op (Inr a, s) f = f a s"
  by (simp_all add: bind_op_def)

lemma bind_res_simps [simp]: "bind_res (Inl e) s f = (Inl e, s)" "bind_res (Inr a) s f = f a"
  by (simp_all add: bind_res_def)

definition rocks :: "string + 'a \<Rightarrow> queue_error + 'a" where
  "rocks r = (case r of Inl e \<Rightarrow> Inl (RocksDB e) | Inr a \<Rightarrow> Inr a)"

definition ser :: "string + 'a \<Rightarrow> queue_error + 'a" where
  "ser r = (case r of Inl e \<Rightarrow> Inl (Serialization e) | Inr a \<Rightarrow> Inr a)"

lemma rocks_simps [simp]: "rocks (Inl e) = Inl (RocksDB e)" "rocks (Inr a) = Inr a"
  by (simp_all add: rocks_def)

lemma ser_simps [simp]: "ser (Inl e) = Inl (Serialization e)" "ser (Inr a) = Inr a"
  by (simp_all add: ser_def)

section \<open>Configuration and state\<close>

record db_config =
  sst_path :: string
  wal_path :: string
  cfg_block_cache_bytes :: nat
  cfg_write_buffer_bytes :: nat
  cfg_max_write_buffers :: int

definition local_config :: db_config where
  "local_config = \<lparr>sst_path = ''./data/rocksqueue'', wal_path = ''./data/rocksqueue-wal'',
     cfg_block_cache_bytes = 256 * 1024 * 1024, cfg_write_buffer_bytes = 64 * 1024 * 1024,
     cfg_max_write_buffers = 4\<rparr>"

definition production_config :: db_config where
  "production_config = \<lparr>sst_path = ''/data/rocksqueue'', wal_path = ''/wal/rocksqueue-wal'',
     cfg_block_cache_bytes = 4 * 1024 * 1024 * 1024, cfg_write_buffer_bytes = 64 * 1024 * 1024,
     cfg_max_write_buffers = 4\<rparr>"

definition cf_pending :: "string \<Rightarrow> string" where
  "cf_pending t = t @ ''__pending''"

definition cf_inflight :: "string \<Rightarrow> string" where
  "cf_inflight t = t @ ''__inflight''"

definition cf_dlq :: "string \<Rightarrow> string" where
  "cf_dlq t = t @ ''__dlq''"

definition CF_SYSTEM :: string where
  "CF_SYSTEM = ''__system__''"

definition DEFAULT_VISIBILITY_TIMEOUT_MS :: u64 where
  "DEFAULT_VISIBILITY_TIMEOUT_MS = 60000"

definition TENANT_META_PREFIX :: bytes where
  "TENANT_META_PREFIX = as_bytes ''tenant:''"

record 'db registry =
  db :: 'db
  seq :: u64
  block_cache :: nat
  write_buffer_bytes :: nat
  max_write_buffers :: int
  counters :: compaction_counters
  policies :: "string \<rightharpoonup> namespace_policy"
  queue_locks :: "string set"
  ack_locks :: "string set"

definition lift_db :: "string + 'db \<Rightarrow> 'db registry \<Rightarrow> ('db registry, unit) outcome" where
  "lift_db r g = (case r of Inl e \<Rightarrow> (Inl (RocksDB e), g) | Inr d \<Rightarrow> (Inr (), g\<lparr>db := d\<rparr>))"

lemma lift_db_simps [simp]:
  "lift_db (Inl e) g = (Inl (RocksDB e), g)" "lift_db (Inr d) g = (Inr (), g\<lparr>db := d\<rparr>)"
  by (simp_all add: lift_db_def)

section \<open>Options\<close>

definition queue_prefix_transform :: "bytes \<Rightarrow> bytes" where
  "queue_prefix_transform key =
     (let n = length (takeWhile (\<lambda>b. b \<noteq> 0) key)
      in if n < length key then take (Suc n) key else key)"

definition queue_prefix_in_domain :: "bytes \<Rightarrow> bool" where
  "queue_prefix_in_domain key \<longleftrightarrow> 0 \<in> set key"

definition system_cf_opts :: cf_options where
  "system_cf_opts = default_options\<lparr>write_buffer_size := Some (16 * 1024 * 1024)\<rparr>"

definition cf_options_with_filter ::
  "nat \<Rightarrow> nat \<Rightarrow> int \<Rightarrow> cf_filter option \<Rightarrow> cf_filter option \<Rightarrow> cf_filter option \<Rightarrow> cf_options" where
  "cf_options_with_filter cache wb mw pending_filter inflight_filter dlq_filter =
     default_options\<lparr>
       write_buffer_size := Some wb,
       max_write_buffer_number := Some mw,
       min_write_buffer_number_to_merge := Some 2,
       prefix_extractor := Some (''queue_prefix'', queue_prefix_transform, queue_prefix_in_domain),
       memtable_prefix_bloom_ratio := Some (1 / 10),
       level_zero_file_num_compaction_trigger := Some 4,
       level_zero_slowdown_writes_trigger := Some 12,
       level_zero_stop_writes_trigger := Some 20,
       target_file_size_base := Some (64 * 1024 * 1024),
       max_bytes_for_level_base := Some (512 * 1024 * 1024),
       compression_per_level := Some [NoCompression, NoCompression, Lz4, Lz4, Lz4, Zstd, Zstd],
       block_cache_capacity := Some cache,
       bloom_filter_bits := Some 10,
       compaction_filter :=
         (case pending_filter of Some f \<Rightarrow> Some (''pending_filter'', f) | None \<Rightarrow>
            case inflight_filter of Some f \<Rightarrow> Some (''inflight_filter'', f) | None \<Rightarrow>
              case dlq_filter of Some f \<Rightarrow> Some (''dlq_filter'', f) | None \<Rightarrow> None)\<rparr>"

definition pending_opts :: "nat \<Rightarrow> nat \<Rightarrow> int \<Rightarrow> retention_policy \<Rightarrow> cf_options" where
  "pending_opts cache wb mw r =
     cf_options_with_filter cache wb mw (Some (PendingFilter (pending_retention_secs r))) None None"

definition inflight_opts :: "nat \<Rightarrow> nat \<Rightarrow> int \<Rightarrow> retention_policy \<Rightarrow> cf_options" where
  "inflight_opts cache wb mw r =
     cf_options_with_filter cache wb mw None (Some (InflightFilter (inflight_stale_secs r))) None"

definition dlq_opts :: "nat \<Rightarrow> nat \<Rightarrow> int \<Rightarrow> retention_policy \<Rightarrow> cf_options" where
  "dlq_opts cache wb mw r =
     cf_options_with_filter cache wb mw None None (Some (DlqFilter (dlq_retention_secs r)))"

definition hot_write_opts :: write_options where
  "hot_write_opts = \<lparr>wo_sync = False, wo_disable_wal = False\<rparr>"

definition admin_write_opts :: write_options where
  "admin_write_opts = \<lparr>wo_sync = True, wo_disable_wal = False\<rparr>"

section \<open>Opening a database\<close>

text \<open>The scan over the persisted policies: it stops at the first key without the prefix.\<close>

fun load_loop ::
  "namespace_policy codec \<Rightarrow> (string + bytes \<times> bytes) list \<Rightarrow> (string \<times> namespace_policy) list
   \<Rightarrow> queue_error + (string \<times> namespace_policy) list" where
  "load_loop PC [] acc = Inr acc"
| "load_loop PC (Inl e # items) acc = Inl (RocksDB e)"
| "load_loop PC (Inr (key, value) # items) acc =
     (if \<not> prefix TENANT_META_PREFIX key then Inr acc
      else case bc_deserialize PC value of
        Inl e \<Rightarrow> Inl (Serialization e)
      | Inr p \<Rightarrow> load_loop PC items
          (acc @ [(from_utf8_lossy (drop (length TENANT_META_PREFIX) key), p)]))"

definition load_persisted_tenants ::
  "'db rocksdb \<Rightarrow> namespace_policy codec \<Rightarrow> 'db \<Rightarrow> queue_error + (string \<times> namespace_policy) list" where
  "load_persisted_tenants R PC disk =
     (case list_cf R disk of
        Inl e \<Rightarrow> Inr []
      | Inr cfs \<Rightarrow>
          if CF_SYSTEM \<notin> set cfs then Inr []
          else case open_cf R disk False (map (\<lambda>n. (n, default_options)) cfs) of
            Inl e \<Rightarrow> Inl (RocksDB e)
          | Inr d \<Rightarrow>
              if \<not> cf_handle R d CF_SYSTEM then Inl (ColumnFamilyMissing CF_SYSTEM)
              else load_loop PC (iterator_from R d CF_SYSTEM TENANT_META_PREFIX) [])"

definition tenant_descriptors ::
  "db_config \<Rightarrow> string \<times> namespace_policy \<Rightarrow> (string \<times> cf_options) list" where
  "tenant_descriptors cfg = (\<lambda>(t, p).
     let cache = cfg_block_cache_bytes cfg; wb = cfg_write_buffer_bytes cfg;
         mw = cfg_max_write_buffers cfg; r = np_retention p
     in [(cf_pending t, pending_opts cache wb mw r), (cf_inflight t, inflight_opts cache wb mw r),
         (cf_dlq t, dlq_opts cache wb mw r)])"

definition open_registry ::
  "'db rocksdb \<Rightarrow> namespace_policy codec \<Rightarrow> u64 \<Rightarrow> 'db \<Rightarrow> db_config \<Rightarrow> queue_error + 'db registry" where
  "open_registry R PC now disk cfg =
     (case load_persisted_tenants R PC disk of
        Inl e \<Rightarrow> Inl e
      | Inr tenants \<Rightarrow>
          (case open_cf R disk True
             ((CF_SYSTEM, system_cf_opts) # concat (map (tenant_descriptors cfg) tenants)) of
             Inl e \<Rightarrow> Inl (RocksDB e)
           | Inr d \<Rightarrow> Inr
               \<lparr>db = d, seq = now, block_cache = cfg_block_cache_bytes cfg,
                write_buffer_bytes = cfg_write_buffer_bytes cfg,
                max_write_buffers = cfg_max_write_buffers cfg,
                counters = new_counters,
                policies = fold (\<lambda>(t, p) m. m(t \<mapsto> p)) tenants Map.empty,
                queue_locks = {}, ack_locks = {}\<rparr>))"

section \<open>Tenant life cycle\<close>

definition meta_key :: "string \<Rightarrow> bytes" where
  "meta_key t = TENANT_META_PREFIX @ as_bytes t"

definition put_meta ::
  "'db rocksdb \<Rightarrow> namespace_policy codec \<Rightarrow> 'db registry \<Rightarrow> string \<Rightarrow> namespace_policy
   \<Rightarrow> ('db registry, unit) outcome" where
  "put_meta R PC g t p =
     (if \<not> cf_handle R (db g) CF_SYSTEM then (Inl (ColumnFamilyMissing CF_SYSTEM), g)
      else bind_res (ser (bc_serialize PC p)) g (\<lambda>v.
        lift_db (put_cf_opt R (db g) admin_write_opts CF_SYSTEM (meta_key t) v) g))"

definition provision_tenant ::
  "'db rocksdb \<Rightarrow> namespace_policy codec \<Rightarrow> 'db registry \<Rightarrow> string \<Rightarrow> namespace_policy
   \<Rightarrow> ('db registry, unit) outcome" where
  "provision_tenant R PC g t p =
     (let r = np_retention p; cache = block_cache g; wb = write_buffer_bytes g; mw = max_write_buffers g
      in bind_op (lift_db (create_cf R (db g) (cf_pending t) (pending_opts cache wb mw r)) g) (\<lambda>_ g.
         bind_op (lift_db (create_cf R (db g) (cf_inflight t) (inflight_opts cache wb mw r)) g) (\<lambda>_ g.
         bind_op (lift_db (create_cf R (db g) (cf_dlq t) (dlq_opts cache wb mw r)) g) (\<lambda>_ g.
         bind_op (put_meta R PC g t p) (\<lambda>_ g.
         (Inr (), g\<lparr>policies := (policies g)(t \<mapsto> p)\<rparr>))))))"

definition tenant_lock :: "string \<Rightarrow> string \<Rightarrow> bool" where
  "tenant_lock t name \<longleftrightarrow> prefix (t @ ''/'') name"

definition drop_tenant :: "'db rocksdb \<Rightarrow> 'db registry \<Rightarrow> string \<Rightarrow> ('db registry, unit) outcome" where
  "drop_tenant R g t =
     bind_op (lift_db (drop_cf R (db g) (cf_pending t)) g) (\<lambda>_ g.
     bind_op (lift_db (drop_cf R (db g) (cf_inflight t)) g) (\<lambda>_ g.
     bind_op (lift_db (drop_cf R (db g) (cf_dlq t)) g) (\<lambda>_ g.
     if \<not> cf_handle R (db g) CF_SYSTEM then (Inl (ColumnFamilyMissing CF_SYSTEM), g)
     else bind_op (lift_db (delete_cf_opt R (db g) admin_write_opts CF_SYSTEM (meta_key t)) g) (\<lambda>_ g.
       (Inr (), g\<lparr>policies := (policies g)(t := None),
                  queue_locks := {k \<in> queue_locks g. \<not> tenant_lock t k},
                  ack_locks := {k \<in> ack_locks g. \<not> tenant_lock t k}\<rparr>)))))"

definition update_namespace_policy ::
  "'db rocksdb \<Rightarrow> namespace_policy codec \<Rightarrow> 'db registry \<Rightarrow> string \<Rightarrow> namespace_policy
   \<Rightarrow> ('db registry, unit) outcome" where
  "update_namespace_policy R PC g t p =
     (if policies g t = None then (Inl (QueueNotFound (''tenant not found: '' @ t)), g)
      else bind_op (put_meta R PC g t p) (\<lambda>_ g. (Inr (), g\<lparr>policies := (policies g)(t \<mapsto> p)\<rparr>)))"

definition get_policy :: "'db registry \<Rightarrow> string \<Rightarrow> namespace_policy option" where
  "get_policy g t = policies g t"

text \<open>
  \<open>list_tenants\<close> enumerates a concurrent hash map; the order of the enumeration is not
  specified, so it is an argument: a list that holds every key once.
\<close>

definition list_tenants :: "string list \<Rightarrow> 'db registry \<Rightarrow> string list" where
  "list_tenants order g = filter (\<lambda>t. policies g t \<noteq> None) order"

definition create_checkpoint ::
  "'db rocksdb \<Rightarrow> 'db registry \<Rightarrow> string \<Rightarrow> string \<Rightarrow> queue_error option" where
  "create_checkpoint R g path allowed_base =
     (if ParentDir \<in> set (path_components path)
      then Some (Io PermissionDenied (''checkpoint path must not contain '' @ [CHR 0x27] @ ''..'' @ [CHR 0x27]))
      else if \<not> path_starts_with path allowed_base
      then Some (Io PermissionDenied ''checkpoint path must be under configured checkpoint directory'')
      else map_option RocksDB (create_checkpoint_at R (db g) path))"

definition ping :: "'db rocksdb \<Rightarrow> 'db registry \<Rightarrow> queue_error option" where
  "ping R g = (case property_value R (db g) ''rocksdb.stats'' of Inl e \<Rightarrow> Some (RocksDB e) | Inr v \<Rightarrow> None)"

definition compact_tenant ::
  "'db rocksdb \<Rightarrow> task codec \<Rightarrow> (nat \<Rightarrow> u64) \<Rightarrow> 'db registry \<Rightarrow> string \<Rightarrow> ('db registry, unit) outcome" where
  "compact_tenant R C clk g t =
     (if \<not> cf_handle R (db g) (cf_pending t) then (Inl (ColumnFamilyMissing (cf_pending t)), g)
      else if \<not> cf_handle R (db g) (cf_inflight t) then (Inl (ColumnFamilyMissing (cf_inflight t)), g)
      else if \<not> cf_handle R (db g) (cf_dlq t) then (Inl (ColumnFamilyMissing (cf_dlq t)), g)
      else case compact_range_cf R C clk (cf_dlq t)
             (compact_range_cf R C clk (cf_inflight t)
               (compact_range_cf R C clk (cf_pending t) (db g, counters g))) of
        (d, n) \<Rightarrow> (Inr (), g\<lparr>db := d, counters := n\<rparr>))"

section \<open>Column family names\<close>

text \<open>
  The last characters of the four kinds of name differ, so no tenant's column family is another
  tenant's of a different kind, nor the system one.
\<close>

lemma last_cf_names:
  "last (cf_pending t) = CHR ''g''" "last (cf_inflight t) = CHR ''t''"
  "last (cf_dlq t) = CHR ''q''" "last CF_SYSTEM = CHR ''_''"
  by (simp_all add: cf_pending_def cf_inflight_def cf_dlq_def CF_SYSTEM_def)

lemma cf_names_inj [simp]:
  "cf_pending t = cf_pending t' \<longleftrightarrow> t = t'"
  "cf_inflight t = cf_inflight t' \<longleftrightarrow> t = t'"
  "cf_dlq t = cf_dlq t' \<longleftrightarrow> t = t'"
  by (simp_all add: cf_pending_def cf_inflight_def cf_dlq_def)

lemma last_neq: "last a \<noteq> last b \<Longrightarrow> a \<noteq> b"
  by auto

lemma cf_names_neq [simp]:
  "cf_pending t \<noteq> cf_inflight t'" "cf_inflight t' \<noteq> cf_pending t"
  "cf_pending t \<noteq> cf_dlq t'" "cf_dlq t' \<noteq> cf_pending t"
  "cf_inflight t \<noteq> cf_dlq t'" "cf_dlq t' \<noteq> cf_inflight t"
  "cf_pending t \<noteq> CF_SYSTEM" "CF_SYSTEM \<noteq> cf_pending t"
  "cf_inflight t \<noteq> CF_SYSTEM" "CF_SYSTEM \<noteq> cf_inflight t"
  "cf_dlq t \<noteq> CF_SYSTEM" "CF_SYSTEM \<noteq> cf_dlq t"
  by (rule last_neq, simp add: last_cf_names)+

text \<open>RocksDB's own column family has yet another name.\<close>

lemma default_cf_neq [simp]:
  "''default'' \<noteq> CF_SYSTEM" "CF_SYSTEM \<noteq> ''default''" "''default'' \<noteq> cf_pending t" "cf_pending t \<noteq> ''default''"
  "''default'' \<noteq> cf_dlq t" "cf_dlq t \<noteq> ''default''"
  by (rule last_neq, simp add: last_cf_names)+

lemma default_inflight_neq [simp]: "''default'' \<noteq> cf_inflight t" "cf_inflight t \<noteq> ''default''"
proof -
  have "length (cf_inflight t) \<noteq> length ''default''" by (simp add: cf_inflight_def)
  then show "''default'' \<noteq> cf_inflight t" "cf_inflight t \<noteq> ''default''" by metis+
qed

end
