(* ===== verification/Rq_Queue.thy ===== *)
theory Rq_Queue
  imports Rq_Registry
begin

text \<open>
  \<open>src/tenant.rs\<close>, part two: the queue operations of \<open>TenantRegistry\<close>. Each loop over an
  iterator is a recursive function over the items it yields, with the source's accumulators;
  an item that is an error ends the operation, as \<open>item?\<close> does. Arguments that stand for the
  environment: \<open>clk\<close> (successive readings of the clock within one call), \<open>uuid\<close> (the
  identifiers the \<open>uuid\<close> crate generates), \<open>env\<close> (what other threads do to the registry while a
  blocked producer sleeps). An operation that can wait returns an option: \<open>None\<close> means that it
  does not return.
\<close>

section \<open>Column families and locks\<close>

definition pending_cf :: "'db rocksdb \<Rightarrow> 'db registry \<Rightarrow> string \<Rightarrow> queue_error + string" where
  "pending_cf R g t = (if cf_handle R (db g) (cf_pending t) then Inr (cf_pending t)
     else Inl (ColumnFamilyMissing (cf_pending t)))"

definition inflight_cf :: "'db rocksdb \<Rightarrow> 'db registry \<Rightarrow> string \<Rightarrow> queue_error + string" where
  "inflight_cf R g t = (if cf_handle R (db g) (cf_inflight t) then Inr (cf_inflight t)
     else Inl (ColumnFamilyMissing (cf_inflight t)))"

definition dlq_cf :: "'db rocksdb \<Rightarrow> 'db registry \<Rightarrow> string \<Rightarrow> queue_error + string" where
  "dlq_cf R g t = (if cf_handle R (db g) (cf_dlq t) then Inr (cf_dlq t)
     else Inl (ColumnFamilyMissing (cf_dlq t)))"

definition lock_name :: "string \<Rightarrow> string \<Rightarrow> string" where
  "lock_name t q = t @ ''/'' @ q"

definition queue_lock :: "'db registry \<Rightarrow> string \<Rightarrow> string \<Rightarrow> 'db registry" where
  "queue_lock g t q = g\<lparr>queue_locks := insert (lock_name t q) (queue_locks g)\<rparr>"

definition ack_lock :: "'db registry \<Rightarrow> string \<Rightarrow> string \<Rightarrow> 'db registry" where
  "ack_lock g t q = g\<lparr>ack_locks := insert (lock_name t q) (ack_locks g)\<rparr>"

definition next_seq :: "'db registry \<Rightarrow> u64 \<times> 'db registry" where
  "next_seq g = (seq g, g\<lparr>seq := seq g + 1\<rparr>)"

section \<open>Depth\<close>

fun count_items :: "(string + 'a) list \<Rightarrow> nat \<Rightarrow> queue_error + nat" where
  "count_items [] n = Inr n"
| "count_items (Inl e # items) n = Inl (RocksDB e)"
| "count_items (Inr x # items) n = count_items items (Suc n)"

definition count_prefix :: "'db rocksdb \<Rightarrow> 'db registry \<Rightarrow> string \<Rightarrow> string \<Rightarrow> queue_error + nat" where
  "count_prefix R g cf q = count_items (iterator_prefix R (db g) cf (queue_prefix q)) 0"

definition depth :: "'db rocksdb \<Rightarrow> 'db registry \<Rightarrow> string \<Rightarrow> string \<Rightarrow> queue_error + nat \<times> nat \<times> nat" where
  "depth R g t q =
     (case pending_cf R g t of Inl e \<Rightarrow> Inl e | Inr pcf \<Rightarrow>
      case count_prefix R g pcf q of Inl e \<Rightarrow> Inl e | Inr p \<Rightarrow>
      case inflight_cf R g t of Inl e \<Rightarrow> Inl e | Inr icf \<Rightarrow>
      case count_prefix R g icf q of Inl e \<Rightarrow> Inl e | Inr i \<Rightarrow>
      case dlq_cf R g t of Inl e \<Rightarrow> Inl e | Inr dcf \<Rightarrow>
      case count_prefix R g dcf q of Inl e \<Rightarrow> Inl e | Inr d \<Rightarrow> Inr (p, i, d))"

section \<open>Backlog quota\<close>

fun evict_loop ::
  "string \<Rightarrow> nat \<Rightarrow> (string + bytes \<times> bytes) list \<Rightarrow> write_op list \<Rightarrow> nat \<Rightarrow> queue_error + write_op list \<times> nat" where
  "evict_loop cf count [] batch evicted = Inr (batch, evicted)"
| "evict_loop cf count (x # items) batch evicted =
     (if evicted \<ge> count then Inr (batch, evicted)
      else case x of
        Inl e \<Rightarrow> Inl (RocksDB e)
      | Inr (k, v) \<Rightarrow> evict_loop cf count items (batch @ [DeleteCf cf k]) (Suc evicted))"

definition evict_oldest_pending ::
  "'db rocksdb \<Rightarrow> 'db registry \<Rightarrow> string \<Rightarrow> string \<Rightarrow> nat \<Rightarrow> ('db registry, unit) outcome" where
  "evict_oldest_pending R g t q count =
     bind_res (pending_cf R g t) g (\<lambda>pcf.
     bind_res (evict_loop pcf count (iterator_prefix R (db g) pcf (queue_prefix q)) [] 0) g
       (\<lambda>(batch, evicted).
         if evicted > 0 then lift_db (write_opt R (db g) hot_write_opts batch) g else (Inr (), g)))"

text \<open>
  The loop of the \<open>Block\<close> policy. Poll \<open>i\<close> reads the clock as \<open>clk i\<close>; during the sleep after it
  the other threads change the registry by \<open>env i\<close>.
\<close>

partial_function (option) block_wait ::
  "'db rocksdb \<Rightarrow> (nat \<Rightarrow> u64) \<Rightarrow> (nat \<Rightarrow> 'db registry \<Rightarrow> 'db registry) \<Rightarrow> nat \<Rightarrow> 'db registry
   \<Rightarrow> string \<Rightarrow> string \<Rightarrow> nat \<Rightarrow> nat \<Rightarrow> u64 \<Rightarrow> ('db registry, unit) outcome option" where
  "block_wait R clk env i g t q quota incoming dl =
     (case depth R g t q of
        Inl e \<Rightarrow> Some (Inl e, g)
      | Inr (p, infl, _) \<Rightarrow>
          if p + infl + incoming \<le> quota then Some (Inr (), g)
          else if clk i \<ge> dl
          then Some (Inl (BacklogQuotaExceeded t q (p + infl) quota incoming), g)
          else block_wait R clk env (Suc i) (env i g) t q quota incoming dl)"

declare block_wait.simps [code]

definition enforce_quota ::
  "'db rocksdb \<Rightarrow> (nat \<Rightarrow> u64) \<Rightarrow> (nat \<Rightarrow> 'db registry \<Rightarrow> 'db registry) \<Rightarrow> 'db registry
   \<Rightarrow> string \<Rightarrow> string \<Rightarrow> namespace_policy \<Rightarrow> nat \<Rightarrow> ('db registry, unit) outcome option" where
  "enforce_quota R clk env g t q policy incoming =
     (case np_backlog_quota policy of
        None \<Rightarrow> Some (Inr (), g)
      | Some quota \<Rightarrow>
          (case depth R g t q of
             Inl e \<Rightarrow> Some (Inl e, g)
           | Inr (pending, inflight, _) \<Rightarrow>
               let current = pending + inflight in
               (case np_backlog_policy policy of
                  Reject \<Rightarrow>
                    if current + incoming > quota
                    then Some (Inl (BacklogQuotaExceeded t q current quota incoming), g)
                    else Some (Inr (), g)
                | Block timeout \<Rightarrow>
                    block_wait R (\<lambda>i. clk (Suc i)) env 0 g t q quota incoming (clk 0 + timeout)
                | EvictOldest \<Rightarrow>
                    if current + incoming > quota
                    then Some (evict_oldest_pending R g t q (current + incoming - quota))
                    else Some (Inr (), g))))"

section \<open>Enqueue\<close>

fun enqueue_loop ::
  "task codec \<Rightarrow> string \<Rightarrow> string \<Rightarrow> u64 \<Rightarrow> (nat \<Rightarrow> string) \<Rightarrow> bytes list \<Rightarrow> u64 \<Rightarrow> write_op list \<Rightarrow> string list
   \<Rightarrow> (queue_error + write_op list \<times> string list) \<times> u64" where
  "enqueue_loop C cf q now uuid [] s batch ids = (Inr (batch, ids), s)"
| "enqueue_loop C cf q now uuid (p # ps) s batch ids =
     (let uid = uuid (length ids);
          t = \<lparr>task_id = uid, task_queue = q, payload = p, enqueued_at = now, attempts = 0, deadline = 0\<rparr>
      in case task_serialize C t of
           Inl e \<Rightarrow> (Inl e, s + 1)
         | Inr v \<Rightarrow> enqueue_loop C cf q now uuid ps (s + 1) (batch @ [PutCf cf (encode_key q s) v]) (ids @ [uid]))"

definition enqueue_batch_sync ::
  "'db rocksdb \<Rightarrow> task codec \<Rightarrow> (nat \<Rightarrow> u64) \<Rightarrow> (nat \<Rightarrow> 'db registry \<Rightarrow> 'db registry) \<Rightarrow> u64 \<Rightarrow> (nat \<Rightarrow> string)
   \<Rightarrow> 'db registry \<Rightarrow> string \<Rightarrow> string \<Rightarrow> bytes list \<Rightarrow> namespace_policy
   \<Rightarrow> ('db registry, string list) outcome option" where
  "enqueue_batch_sync R C clk env now uuid g t q payloads policy =
     map_option (\<lambda>r. bind_op r (\<lambda>_ g.
         bind_res (pending_cf R g t) g (\<lambda>pcf.
           case enqueue_loop C pcf q now uuid payloads (seq g) [] [] of
             (Inl e, s) \<Rightarrow> (Inl e, g\<lparr>seq := s\<rparr>)
           | (Inr (batch, ids), s) \<Rightarrow>
               bind_op (lift_db (write_opt R (db g) hot_write_opts batch) (g\<lparr>seq := s\<rparr>))
                 (\<lambda>_ g. (Inr ids, g)))))
       (enforce_quota R clk env (queue_lock g t q) t q policy (length payloads))"

definition enqueue ::
  "'db rocksdb \<Rightarrow> task codec \<Rightarrow> (nat \<Rightarrow> u64) \<Rightarrow> (nat \<Rightarrow> 'db registry \<Rightarrow> 'db registry) \<Rightarrow> u64 \<Rightarrow> (nat \<Rightarrow> string)
   \<Rightarrow> 'db registry \<Rightarrow> string \<Rightarrow> string \<Rightarrow> bytes \<Rightarrow> namespace_policy \<Rightarrow> ('db registry, string) outcome option" where
  "enqueue R C clk env now uuid g t q p policy =
     (case enqueue_batch_sync R C clk env now uuid g t q [p] policy of
        None \<Rightarrow> None
      | Some (Inl e, g') \<Rightarrow> Some (Inl e, g')
      | Some (Inr [], g') \<Rightarrow> None
      | Some (Inr (uid # _), g') \<Rightarrow> Some (Inr uid, g'))"

text \<open>The asynchronous entry point runs the synchronous one.\<close>

definition enqueue_batch ::
  "'db rocksdb \<Rightarrow> task codec \<Rightarrow> (nat \<Rightarrow> u64) \<Rightarrow> (nat \<Rightarrow> 'db registry \<Rightarrow> 'db registry) \<Rightarrow> u64 \<Rightarrow> (nat \<Rightarrow> string)
   \<Rightarrow> 'db registry \<Rightarrow> string \<Rightarrow> string \<Rightarrow> bytes list \<Rightarrow> namespace_policy
   \<Rightarrow> ('db registry, string list) outcome option" where
  "enqueue_batch R C clk env now uuid g t q payloads policy =
     enqueue_batch_sync R C clk env now uuid g t q payloads policy"

section \<open>Dequeue\<close>

fun dequeue_loop ::
  "task codec \<Rightarrow> string \<Rightarrow> string \<Rightarrow> string \<Rightarrow> string \<Rightarrow> (nat \<Rightarrow> u64) \<Rightarrow> u64 \<Rightarrow> nat
   \<Rightarrow> (string + bytes \<times> bytes) list \<Rightarrow> (bytes \<times> task) list \<Rightarrow> write_op list \<Rightarrow> nat
   \<Rightarrow> queue_error + (bytes \<times> task) list \<times> write_op list \<times> nat" where
  "dequeue_loop C pcf icf dcf q clk dl limit [] results batch poisoned = Inr (results, batch, poisoned)"
| "dequeue_loop C pcf icf dcf q clk dl limit (Inl e # items) results batch poisoned = Inl (RocksDB e)"
| "dequeue_loop C pcf icf dcf q clk dl limit (Inr (k, v) # items) results batch poisoned =
     (case task_deserialize C v of
        Inl e \<Rightarrow>
          (case task_serialize C (poison (clk (Suc poisoned)) q v) of
             Inl e' \<Rightarrow> Inl e'
           | Inr pv \<Rightarrow> dequeue_loop C pcf icf dcf q clk dl limit items results
                        (batch @ [DeleteCf pcf k, PutCf dcf k pv]) (Suc poisoned))
      | Inr t \<Rightarrow>
          (let t' = t\<lparr>attempts := attempts t + 1, deadline := dl\<rparr>
           in case task_serialize C t' of
             Inl e' \<Rightarrow> Inl e'
           | Inr v' \<Rightarrow>
               (let results' = results @ [(k, t')]; batch' = batch @ [DeleteCf pcf k, PutCf icf k v']
                in if length results' \<ge> limit then Inr (results', batch', poisoned)
                   else dequeue_loop C pcf icf dcf q clk dl limit items results' batch' poisoned)))"

definition dequeue_batch_unlocked ::
  "'db rocksdb \<Rightarrow> task codec \<Rightarrow> (nat \<Rightarrow> u64) \<Rightarrow> 'db registry \<Rightarrow> string \<Rightarrow> string \<Rightarrow> nat \<Rightarrow> u64
   \<Rightarrow> ('db registry, (bytes \<times> task) list) outcome" where
  "dequeue_batch_unlocked R C clk g t q limit timeout =
     (if limit = 0 then (Inr [], g)
      else bind_res (pending_cf R g t) g (\<lambda>pcf.
           bind_res (inflight_cf R g t) g (\<lambda>icf.
           bind_res (dlq_cf R g t) g (\<lambda>dcf.
           bind_res (dequeue_loop C pcf icf dcf q clk (saturating_add (clk 0) timeout) limit
                      (iterator_prefix R (db g) pcf (queue_prefix q)) [] [] 0) g
             (\<lambda>(results, batch, poisoned).
               if results \<noteq> [] \<or> poisoned > 0
               then bind_op (lift_db (write_opt R (db g) hot_write_opts batch) g) (\<lambda>_ g. (Inr results, g))
               else (Inr results, g))))))"

definition dequeue_batch ::
  "'db rocksdb \<Rightarrow> task codec \<Rightarrow> (nat \<Rightarrow> u64) \<Rightarrow> 'db registry \<Rightarrow> string \<Rightarrow> string \<Rightarrow> nat \<Rightarrow> u64
   \<Rightarrow> ('db registry, (bytes \<times> task) list) outcome" where
  "dequeue_batch R C clk g t q limit timeout =
     dequeue_batch_unlocked R C clk (queue_lock g t q) t q limit timeout"

definition dequeue ::
  "'db rocksdb \<Rightarrow> task codec \<Rightarrow> (nat \<Rightarrow> u64) \<Rightarrow> 'db registry \<Rightarrow> string \<Rightarrow> string \<Rightarrow> nat
   \<Rightarrow> ('db registry, (bytes \<times> task) list) outcome" where
  "dequeue R C clk g t q limit = dequeue_batch R C clk g t q limit DEFAULT_VISIBILITY_TIMEOUT_MS"

definition dequeue_with_max_inflight ::
  "'db rocksdb \<Rightarrow> task codec \<Rightarrow> (nat \<Rightarrow> u64) \<Rightarrow> 'db registry \<Rightarrow> string \<Rightarrow> string \<Rightarrow> nat \<Rightarrow> u64 \<Rightarrow> nat
   \<Rightarrow> ('db registry, (bytes \<times> task) list) outcome" where
  "dequeue_with_max_inflight R C clk g t q limit timeout max_inflight =
     (if max_inflight = 0 then (Inr [], g)
      else let g = queue_lock g t q in
        bind_res (inflight_cf R g t) g (\<lambda>icf.
        bind_res (count_prefix R g icf q) g (\<lambda>inflight.
          if inflight \<ge> max_inflight then (Inr [], g)
          else dequeue_batch_unlocked R C clk g t q (min limit (max_inflight - inflight)) timeout)))"

section \<open>Acknowledgement\<close>

definition key_queue :: "bytes \<Rightarrow> string" where
  "key_queue k = from_utf8_lossy (takeWhile (\<lambda>b. b \<noteq> 0) k)"

fun ack_loop ::
  "'db rocksdb \<Rightarrow> 'db \<Rightarrow> string \<Rightarrow> bytes list \<Rightarrow> bytes set \<Rightarrow> write_op list \<Rightarrow> nat \<Rightarrow> queue_error + write_op list \<times> nat" where
  "ack_loop R d cf [] seen batch count = Inr (batch, count)"
| "ack_loop R d cf (k # ks) seen batch count =
     (if k \<in> seen then ack_loop R d cf ks seen batch count
      else case get_cf R d cf k of
        Inl e \<Rightarrow> Inl (RocksDB e)
      | Inr None \<Rightarrow> ack_loop R d cf ks (insert k seen) batch count
      | Inr (Some v) \<Rightarrow> ack_loop R d cf ks (insert k seen) (batch @ [DeleteCf cf k]) (Suc count))"

definition ack_batch :: "'db rocksdb \<Rightarrow> 'db registry \<Rightarrow> string \<Rightarrow> bytes list \<Rightarrow> ('db registry, nat) outcome" where
  "ack_batch R g t keys =
     bind_res (inflight_cf R g t) g (\<lambda>icf.
       let queues = remdups_adj (sort (map key_queue keys));
           g = fold (\<lambda>q g. ack_lock g t q) queues g
       in bind_res (ack_loop R (db g) icf keys {} [] 0) g (\<lambda>(batch, count).
            if count > 0
            then bind_op (lift_db (write_opt R (db g) hot_write_opts batch) g) (\<lambda>_ g. (Inr count, g))
            else (Inr count, g)))"

definition ack :: "'db rocksdb \<Rightarrow> 'db registry \<Rightarrow> string \<Rightarrow> bytes \<Rightarrow> ('db registry, bool) outcome" where
  "ack R g t key = bind_op (ack_batch R g t [key]) (\<lambda>n g. (Inr (n = 1), g))"

definition max_attempts :: u32 where
  "max_attempts = 5"

text \<open>
  \<open>nack\<close> reads the inflight record, builds a write batch and writes it. The first two steps are
  \<open>nack_plan\<close>: \<open>None\<close> when the key is not in flight, else the batch; the sequence counter
  advances when the task is retried.
\<close>

definition nack_plan ::
  "'db rocksdb \<Rightarrow> task codec \<Rightarrow> u64 \<Rightarrow> 'db registry \<Rightarrow> string \<Rightarrow> bytes \<Rightarrow> ('db registry, write_op list option) outcome" where
  "nack_plan R C now g t key =
     bind_res (pending_cf R g t) g (\<lambda>pcf.
     bind_res (inflight_cf R g t) g (\<lambda>icf.
     bind_res (dlq_cf R g t) g (\<lambda>dcf.
     bind_res (rocks (get_cf R (db g) icf key)) g (\<lambda>r.
       case r of
         None \<Rightarrow> (Inr None, g)
       | Some value \<Rightarrow>
           (case task_deserialize C value of
              Inl e \<Rightarrow>
                bind_res (task_serialize C (poison now (key_queue key) value)) g (\<lambda>pv.
                  (Inr (Some [DeleteCf icf key, PutCf dcf key pv]), g))
            | Inr task \<Rightarrow>
                if attempts task \<ge> max_attempts
                then (Inr (Some [DeleteCf icf key, PutCf dcf key value]), g)
                else (case next_seq g of (s, g) \<Rightarrow>
                  bind_res (task_serialize C (task\<lparr>deadline := 0\<rparr>)) g (\<lambda>v.
                    (Inr (Some [DeleteCf icf key, PutCf pcf (encode_key (task_queue task) s) v]), g))))))))"

definition nack_write ::
  "'db rocksdb \<Rightarrow> 'db registry \<Rightarrow> write_op list option \<Rightarrow> ('db registry, unit) outcome" where
  "nack_write R g plan = (case plan of None \<Rightarrow> (Inr (), g)
     | Some batch \<Rightarrow> lift_db (write_opt R (db g) hot_write_opts batch) g)"

definition nack ::
  "'db rocksdb \<Rightarrow> task codec \<Rightarrow> u64 \<Rightarrow> 'db registry \<Rightarrow> string \<Rightarrow> bytes \<Rightarrow> ('db registry, unit) outcome" where
  "nack R C now g t key = bind_op (nack_plan R C now g t key) (\<lambda>plan g. nack_write R g plan)"

fun cumulative_ack_loop ::
  "string \<Rightarrow> u64 \<Rightarrow> (string + bytes \<times> bytes) list \<Rightarrow> write_op list \<Rightarrow> nat \<Rightarrow> queue_error + write_op list \<times> nat" where
  "cumulative_ack_loop cf up_to [] batch count = Inr (batch, count)"
| "cumulative_ack_loop cf up_to (Inl e # items) batch count = Inl (RocksDB e)"
| "cumulative_ack_loop cf up_to (Inr (k, v) # items) batch count =
     (case decode_key_seq k of
        None \<Rightarrow> cumulative_ack_loop cf up_to items batch count
      | Some s \<Rightarrow>
          if s > up_to then Inr (batch, count)
          else cumulative_ack_loop cf up_to items (batch @ [DeleteCf cf k]) (Suc count))"

definition cumulative_ack ::
  "'db rocksdb \<Rightarrow> 'db registry \<Rightarrow> string \<Rightarrow> string \<Rightarrow> u64 \<Rightarrow> ('db registry, nat) outcome" where
  "cumulative_ack R g t q up_to =
     bind_res (inflight_cf R g t) g (\<lambda>icf.
     bind_res (cumulative_ack_loop icf up_to (iterator_prefix R (db g) icf (queue_prefix q)) [] 0) g
       (\<lambda>(batch, count).
         if count > 0
         then bind_op (lift_db (write_opt R (db g) hot_write_opts batch) g) (\<lambda>_ g. (Inr count, g))
         else (Inr count, g)))"

section \<open>Dead letters\<close>

fun purge_loop ::
  "string \<Rightarrow> (string + bytes \<times> bytes) list \<Rightarrow> write_op list \<Rightarrow> nat \<Rightarrow> queue_error + write_op list \<times> nat" where
  "purge_loop cf [] batch count = Inr (batch, count)"
| "purge_loop cf (Inl e # items) batch count = Inl (RocksDB e)"
| "purge_loop cf (Inr (k, v) # items) batch count =
     purge_loop cf items (batch @ [DeleteCf cf k]) (Suc count)"

definition purge_dlq :: "'db rocksdb \<Rightarrow> 'db registry \<Rightarrow> string \<Rightarrow> ('db registry, nat) outcome" where
  "purge_dlq R g t =
     bind_res (dlq_cf R g t) g (\<lambda>dcf.
     bind_res (purge_loop dcf (iterator_from R (db g) dcf []) [] 0) g (\<lambda>(batch, count).
       if count > 0
       then bind_op (lift_db (write_opt R (db g) admin_write_opts batch) g) (\<lambda>_ g. (Inr count, g))
       else (Inr count, g)))"

fun replay_loop ::
  "task codec \<Rightarrow> string \<Rightarrow> string \<Rightarrow> (string + bytes \<times> bytes) list \<Rightarrow> u64 \<Rightarrow> write_op list \<Rightarrow> nat
   \<Rightarrow> (queue_error + write_op list \<times> nat) \<times> u64" where
  "replay_loop C pcf dcf [] s batch count = (Inr (batch, count), s)"
| "replay_loop C pcf dcf (Inl e # items) s batch count = (Inl (RocksDB e), s)"
| "replay_loop C pcf dcf (Inr (k, v) # items) s batch count =
     (case task_deserialize C v of
        Inl e \<Rightarrow> (Inl e, s)
      | Inr t \<Rightarrow>
          (case task_serialize C (t\<lparr>attempts := 0, deadline := 0\<rparr>) of
             Inl e \<Rightarrow> (Inl e, s + 1)
           | Inr v' \<Rightarrow> replay_loop C pcf dcf items (s + 1)
               (batch @ [PutCf pcf (encode_key (task_queue t) s) v', DeleteCf dcf k]) (Suc count)))"

definition replay_dlq :: "'db rocksdb \<Rightarrow> task codec \<Rightarrow> 'db registry \<Rightarrow> string \<Rightarrow> ('db registry, nat) outcome" where
  "replay_dlq R C g t =
     bind_res (pending_cf R g t) g (\<lambda>pcf.
     bind_res (dlq_cf R g t) g (\<lambda>dcf.
       case replay_loop C pcf dcf (iterator_from R (db g) dcf []) (seq g) [] 0 of
         (Inl e, s) \<Rightarrow> (Inl e, g\<lparr>seq := s\<rparr>)
       | (Inr (batch, count), s) \<Rightarrow>
           if count > 0
           then bind_op (lift_db (write_opt R (db g) admin_write_opts batch) (g\<lparr>seq := s\<rparr>)) (\<lambda>_ g. (Inr count, g))
           else (Inr count, g\<lparr>seq := s\<rparr>)))"

end
