(* ===== verification/Rq_Reaper.thy ===== *)
theory Rq_Reaper
  imports Rq_Queue
begin

text \<open>
  \<open>src/reaper.rs\<close>: the visibility-timeout reaper. \<open>reap_inflight\<close> sweeps one queue,
  \<open>reaper_tick\<close> is the body of the loop \<open>spawn_reaper\<close> runs at every tick.
\<close>

fun reap_loop ::
  "task codec \<Rightarrow> string \<Rightarrow> string \<Rightarrow> string \<Rightarrow> string \<Rightarrow> (nat \<Rightarrow> u64)
   \<Rightarrow> (string + bytes \<times> bytes) list \<Rightarrow> write_op list \<Rightarrow> nat \<Rightarrow> nat
   \<Rightarrow> queue_error + write_op list \<times> nat \<times> nat" where
  "reap_loop C pcf icf dcf q clk [] batch reclaimed poisoned = Inr (batch, reclaimed, poisoned)"
| "reap_loop C pcf icf dcf q clk (Inl e # items) batch reclaimed poisoned = Inl (RocksDB e)"
| "reap_loop C pcf icf dcf q clk (Inr (k, v) # items) batch reclaimed poisoned =
     (if \<not> prefix (queue_prefix q) k then Inr (batch, reclaimed, poisoned)
      else case task_deserialize C v of
        Inl e \<Rightarrow>
          (case task_serialize C (poison (clk (Suc poisoned)) q v) of
             Inl e' \<Rightarrow> Inl e'
           | Inr pv \<Rightarrow> reap_loop C pcf icf dcf q clk items
               (batch @ [DeleteCf icf k, PutCf dcf k pv]) reclaimed (Suc poisoned))
      | Inr t \<Rightarrow>
          if deadline t > 0 \<and> deadline t < clk 0
          then (case task_serialize C (t\<lparr>deadline := 0\<rparr>) of
             Inl e' \<Rightarrow> Inl e'
           | Inr v' \<Rightarrow> reap_loop C pcf icf dcf q clk items
               (batch @ [DeleteCf icf k, PutCf pcf k v']) (Suc reclaimed) poisoned)
          else reap_loop C pcf icf dcf q clk items batch reclaimed poisoned)"

definition reap_inflight ::
  "'db rocksdb \<Rightarrow> task codec \<Rightarrow> (nat \<Rightarrow> u64) \<Rightarrow> 'db registry \<Rightarrow> string \<Rightarrow> string \<Rightarrow> ('db registry, unit) outcome" where
  "reap_inflight R C clk g t q =
     bind_res (inflight_cf R g t) g (\<lambda>icf.
     bind_res (pending_cf R g t) g (\<lambda>pcf.
     bind_res (dlq_cf R g t) g (\<lambda>dcf.
     bind_res (reap_loop C pcf icf dcf q clk (iterator_from R (db g) icf (queue_prefix q)) [] 0 0) g
       (\<lambda>(batch, reclaimed, poisoned).
         if reclaimed > 0 \<or> poisoned > 0
         then lift_db (write_opt R (db g) \<lparr>wo_sync = False, wo_disable_wal = False\<rparr> batch) g
         else (Inr (), g)))))"

text \<open>An error of one sweep is logged and the next sweep runs.\<close>

definition reaper_tick ::
  "'db rocksdb \<Rightarrow> task codec \<Rightarrow> (nat \<Rightarrow> u64) \<Rightarrow> string list \<Rightarrow> string list \<Rightarrow> 'db registry \<Rightarrow> 'db registry" where
  "reaper_tick R C clk order queues g =
     fold (\<lambda>t g. fold (\<lambda>q g. snd (reap_inflight R C clk g t q)) queues g) (list_tenants order g) g"

end
