(* ===== verification/Rq_Queue_Facts.thy ===== *)
theory Rq_Queue_Facts
  imports Rq_Reaper
begin

text \<open>
  What the queue operations do, stated on the maps the column families of a tenant hold. The
  locale \<open>queue_env\<close> has a store that may fail at any call, \<open>reliable_env\<close> one that does not;
  both have a lawful serialisation of tasks. For each operation there are three facts: its loop
  on a complete scan, its loop on a scan that may break off with an error, and the operation
  itself.
\<close>

section \<open>Vocabulary\<close>

text \<open>The keys of a queue, its entries in ascending order, and how many there are.\<close>

definition in_queue :: "string \<Rightarrow> bytes set" where
  "in_queue q = {k. prefix (queue_prefix q) k}"

definition entries :: "kv \<Rightarrow> string \<Rightarrow> (bytes \<times> bytes) list" where
  "entries m q = kv_list (m |` in_queue q)"

definition qcount :: "kv \<Rightarrow> string \<Rightarrow> nat" where
  "qcount m q = card (dom m \<inter> in_queue q)"

text \<open>The three maps of a tenant.\<close>

definition tenant_at :: "(string \<Rightarrow> kv option) \<Rightarrow> string \<Rightarrow> kv \<Rightarrow> kv \<Rightarrow> kv \<Rightarrow> bool" where
  "tenant_at V t P I D \<longleftrightarrow>
     V (cf_pending t) = Some P \<and> V (cf_inflight t) = Some I \<and> V (cf_dlq t) = Some D"

text \<open>Everything outside the tenant is the same in two views.\<close>

definition same_elsewhere :: "string \<Rightarrow> (string \<Rightarrow> kv option) \<Rightarrow> (string \<Rightarrow> kv option) \<Rightarrow> bool" where
  "same_elsewhere t V V' \<longleftrightarrow>
     (\<forall>c. c \<noteq> cf_pending t \<longrightarrow> c \<noteq> cf_inflight t \<longrightarrow> c \<noteq> cf_dlq t \<longrightarrow> V' c = V c)"

lemma same_elsewhere_refl [simp]: "same_elsewhere t V V"
  by (simp add: same_elsewhere_def)

lemma same_elsewhere_trans:
  "same_elsewhere t V V' \<Longrightarrow> same_elsewhere t V' V'' \<Longrightarrow> same_elsewhere t V V''"
  by (simp add: same_elsewhere_def)

text \<open>Tenants do not see each other's column families.\<close>

lemma same_elsewhere_tenant:
  "same_elsewhere t V V' \<Longrightarrow> t' \<noteq> t \<Longrightarrow> tenant_at V' t' P I D \<longleftrightarrow> tenant_at V t' P I D"
  by (simp add: same_elsewhere_def tenant_at_def)

text \<open>The effect of a batch on the three maps, each seeing the operations that name it.\<close>

lemma tenant_batch:
  "tenant_at V t P I D \<Longrightarrow> tenant_at (apply_batch b V) t
     (kv_batch (filter (\<lambda>x. op_cf x = cf_pending t) b) P)
     (kv_batch (filter (\<lambda>x. op_cf x = cf_inflight t) b) I)
     (kv_batch (filter (\<lambda>x. op_cf x = cf_dlq t) b) D)"
  by (simp add: tenant_at_def apply_batch_cf)

lemma tenant_batch_elsewhere:
  "op_cf ` set b \<subseteq> {cf_pending t, cf_inflight t, cf_dlq t} \<Longrightarrow> same_elsewhere t V (apply_batch b V)"
  unfolding same_elsewhere_def by (intro allI impI apply_batch_other) blast

lemma filter_deletes [simp]:
  "filter (\<lambda>x. op_cf x = c) (map (DeleteCf c') ks) = (if c' = c then map (DeleteCf c') ks else [])"
  by (induction ks) auto

lemma filter_puts [simp]:
  "filter (\<lambda>x. op_cf x = c) (map (\<lambda>(k, v). PutCf c' k v) xs) =
   (if c' = c then map (\<lambda>(k, v). PutCf c' k v) xs else [])"
  by (induction xs) auto

lemma restrict_UNIV [simp]: "m |` UNIV = m"
  by (simp add: restrict_map_def)

lemma entries_empty [simp]: "entries Map.empty q = []"
  by (simp add: entries_def kv_list_def)

lemma length_entries: "length (entries m q) = qcount m q"
  by (simp add: entries_def qcount_def length_kv_list)

lemma restrict_eq_Some [simp]: "(m |` A) k = Some v \<longleftrightarrow> k \<in> A \<and> m k = Some v"
  by (simp add: restrict_map_def)

lemma set_entries: "finite (dom m) \<Longrightarrow> (k, v) \<in> set (entries m q) \<longleftrightarrow> k \<in> in_queue q \<and> m k = Some v"
  by (simp add: entries_def set_kv_list)

lemma fst_set_entries: "finite (dom m) \<Longrightarrow> fst ` set (entries m q) = dom m \<inter> in_queue q"
  using fst_kv_list [of "m |` in_queue q"] by (simp add: entries_def flip: set_map)

lemma sorted_entries: "sorted_wrt (<) (map fst (entries m q))"
  by (simp add: entries_def sorted_kv_list)

lemma distinct_entries: "distinct (map fst (entries m q))"
  by (simp add: entries_def distinct_kv_list)

lemma encode_key_in_queue [simp]: "encode_key q s \<in> in_queue q"
  by (simp add: in_queue_def)

text \<open>The keys of a queue are an interval that starts at its prefix.\<close>

lemma prefix_le: "prefix p k \<Longrightarrow> (p :: bytes) \<le> k"
proof (induction p arbitrary: k)
  case (Cons a p)
  then show ?case by (cases k) auto
qed simp

section \<open>Locales\<close>

locale queue_env = kv_store R view + bincode C
  for R :: "'db rocksdb" and view and C :: "task codec"

locale reliable_env = reliable_store R view + bincode C
  for R :: "'db rocksdb" and view and C :: "task codec"

sublocale reliable_env \<subseteq> env: queue_env R view C
  by unfold_locales

context queue_env
begin

lemma task_serialize_enc [simp]: "task_serialize C t = Inr (enc t)"
  by (simp add: task_serialize_def)

lemma task_deserialize_enc [simp]: "task_deserialize C (enc t) = Inr t"
  by (simp add: task_deserialize_def)

lemma tenant_handles:
  assumes "tenant_at (view (db g)) t P I D"
  shows "pending_cf R g t = Inr (cf_pending t)" "inflight_cf R g t = Inr (cf_inflight t)"
    "dlq_cf R g t = Inr (cf_dlq t)"
  using assms by (simp_all add: tenant_at_def pending_cf_def inflight_cf_def dlq_cf_def cf_handle_view)

lemma tenant_finite:
  assumes "tenant_at (view d) t P I D"
  shows "finite (dom P)" "finite (dom I)" "finite (dom D)"
  using assms view_finite by (auto simp: tenant_at_def)

lemma scan_entries:
  "view d c = Some m \<Longrightarrow> faithful_scan (iterator_prefix R d c (queue_prefix q)) (entries m q)"
  using prefix_view [of d c m "queue_prefix q"] by (simp add: entries_def in_queue_def)

end

context reliable_env
begin

lemma queue_env: "queue_env R view C"
  by unfold_locales

lemma scan_entries_eq:
  "view d c = Some m \<Longrightarrow> iterator_prefix R d c (queue_prefix q) = map Inr (entries m q)"
  by (simp add: prefix_eq entries_def in_queue_def)

end

section \<open>Depth\<close>

lemma count_items_total [simp]: "count_items (map Inr xs) n = Inr (n + length xs)"
  by (induction xs arbitrary: n) auto

lemma count_items_scan:
  "faithful_scan items xs \<Longrightarrow> count_items items n = Inr r \<Longrightarrow> r = n + length xs"
  by (induction items xs arbitrary: n rule: faithful_scan.induct) fastforce+

context queue_env
begin

lemma count_prefix_ok:
  "view (db g) c = Some m \<Longrightarrow> count_prefix R g c q = Inr n \<Longrightarrow> n = qcount m q"
  using count_items_scan [OF scan_entries, of "db g" c m q 0 n]
  by (simp add: count_prefix_def length_entries)

lemma depth_ok:
  assumes "tenant_at (view (db g)) t P I D" and "depth R g t q = Inr r"
  shows "r = (qcount P q, qcount I q, qcount D q)"
  using assms by (auto simp: depth_def tenant_handles tenant_at_def split: sum.splits dest!: count_prefix_ok)

end

context reliable_env
begin

lemma count_prefix_eq: "view (db g) c = Some m \<Longrightarrow> count_prefix R g c q = Inr (qcount m q)"
  by (simp add: count_prefix_def scan_entries_eq length_entries)

lemma depth_eq:
  assumes "tenant_at (view (db g)) t P I D"
  shows "depth R g t q = Inr (qcount P q, qcount I q, qcount D q)"
  using assms env.tenant_handles [OF assms] by (simp add: depth_def tenant_at_def count_prefix_eq)

end

section \<open>Dequeue\<close>

text \<open>
  The records a dequeue of at most \<open>n\<close> tasks consumes: the shortest initial part of the queue
  with \<open>n\<close> readable records, or the whole queue when it has fewer. Unreadable records met on
  the way are consumed too, and go to the dead letters.
\<close>

definition corrupt :: "task codec \<Rightarrow> bytes \<Rightarrow> bool" where
  "corrupt C v \<longleftrightarrow> isl (bc_deserialize C v)"

fun consumed :: "task codec \<Rightarrow> nat \<Rightarrow> (bytes \<times> bytes) list \<Rightarrow> (bytes \<times> bytes) list" where
  "consumed C n [] = []"
| "consumed C n ((k, v) # xs) = (if n = 0 then []
     else (k, v) # consumed C (if corrupt C v then n else n - 1) xs)"

definition delivered :: "task codec \<Rightarrow> u64 \<Rightarrow> (bytes \<times> bytes) list \<Rightarrow> (bytes \<times> task) list" where
  "delivered C dl xs =
     map (\<lambda>(k, v). let t = projr (bc_deserialize C v) in (k, t\<lparr>attempts := attempts t + 1, deadline := dl\<rparr>))
       (filter (\<lambda>(k, v). \<not> corrupt C v) xs)"

text \<open>The envelopes of the corrupt ones among \<open>xs\<close>, the \<open>i\<close>-th stamped with \<open>clk (Suc i)\<close>.\<close>

fun envelopes :: "task codec \<Rightarrow> string \<Rightarrow> (nat \<Rightarrow> u64) \<Rightarrow> nat \<Rightarrow> (bytes \<times> bytes) list \<Rightarrow> (bytes \<times> task) list" where
  "envelopes C q clk i [] = []"
| "envelopes C q clk i ((k, v) # xs) =
     (if corrupt C v then (k, poison (clk (Suc i)) q v) # envelopes C q clk (Suc i) xs
      else envelopes C q clk i xs)"

lemma delivered_simps [simp]:
  "delivered C dl [] = []"
  "delivered C dl ((k, v) # xs) = (if corrupt C v then delivered C dl xs
     else let t = projr (bc_deserialize C v)
          in (k, t\<lparr>attempts := attempts t + 1, deadline := dl\<rparr>) # delivered C dl xs)"
  by (simp_all add: delivered_def Let_def)

lemma consumed_0 [simp]: "consumed C 0 xs = []"
  by (cases xs) auto

lemma prefix_consumed: "prefix (consumed C n xs) xs"
  by (induction C n xs rule: consumed.induct) auto

lemma set_consumed: "set (consumed C n xs) \<subseteq> set xs"
  using prefix_consumed by (rule set_mono_prefix)

lemma length_delivered_consumed: "length (delivered C dl (consumed C n xs)) \<le> n"
  by (induction C n xs rule: consumed.induct) (auto simp: Let_def)

text \<open>Either the requested number is delivered, or every readable record of the queue is.\<close>

lemma delivered_consumed:
  "length (delivered C dl (consumed C n xs)) = n \<or> consumed C n xs = xs"
proof (induction C n xs rule: consumed.induct)
  case (2 C n k v xs)
  then show ?case by (cases n) (auto simp: Let_def)
qed simp

lemma fst_delivered: "map fst (delivered C dl xs) = map fst (filter (\<lambda>(k, v). \<not> corrupt C v) xs)"
  by (induction xs) (auto simp: Let_def)

lemma fst_envelopes: "map fst (envelopes C q clk i xs) = map fst (filter (\<lambda>(k, v). corrupt C v) xs)"
  by (induction C q clk i xs rule: envelopes.induct) auto

lemma in_envelopes:
  "(k, e) \<in> set (envelopes C q clk i xs) \<Longrightarrow> \<exists>v j. (k, v) \<in> set xs \<and> corrupt C v \<and> e = poison (clk j) q v"
  by (induction C q clk i xs rule: envelopes.induct) (auto split: if_splits)

lemma in_delivered:
  "(k, t) \<in> set (delivered C dl xs) \<Longrightarrow>
   \<exists>v t0. (k, v) \<in> set xs \<and> bc_deserialize C v = Inr t0 \<and> t = t0\<lparr>attempts := attempts t0 + 1, deadline := dl\<rparr>"
proof -
  assume "(k, t) \<in> set (delivered C dl xs)"
  then obtain v where v: "(k, v) \<in> set xs" "\<not> isl (bc_deserialize C v)"
    and t: "t = (projr (bc_deserialize C v))\<lparr>attempts := attempts (projr (bc_deserialize C v)) + 1, deadline := dl\<rparr>"
    by (auto simp: delivered_def corrupt_def Let_def)
  then show ?thesis by (cases "bc_deserialize C v") auto
qed

text \<open>The write batch of a dequeue.\<close>

fun dequeue_ops ::
  "task codec \<Rightarrow> (task \<Rightarrow> bytes) \<Rightarrow> string \<Rightarrow> string \<Rightarrow> (nat \<Rightarrow> u64) \<Rightarrow> u64 \<Rightarrow> nat \<Rightarrow> (bytes \<times> bytes) list \<Rightarrow> write_op list" where
  "dequeue_ops C e t q clk dl i [] = []"
| "dequeue_ops C e t q clk dl i ((k, v) # xs) =
     (case bc_deserialize C v of
        Inl _ \<Rightarrow> [DeleteCf (cf_pending t) k, PutCf (cf_dlq t) k (e (poison (clk (Suc i)) q v))]
                @ dequeue_ops C e t q clk dl (Suc i) xs
      | Inr x \<Rightarrow> [DeleteCf (cf_pending t) k,
                  PutCf (cf_inflight t) k (e (x\<lparr>attempts := attempts x + 1, deadline := dl\<rparr>))]
                @ dequeue_ops C e t q clk dl i xs)"

definition enc_all :: "(task \<Rightarrow> bytes) \<Rightarrow> (bytes \<times> task) list \<Rightarrow> (bytes \<times> bytes) list" where
  "enc_all e = map (\<lambda>(k, t). (k, e t))"

lemma dequeue_ops_pending:
  "filter (\<lambda>x. op_cf x = cf_pending t) (dequeue_ops C e t q clk dl i xs) = map (DeleteCf (cf_pending t)) (map fst xs)"
  by (induction C e t q clk dl i xs rule: dequeue_ops.induct) (auto split: sum.splits)

lemma dequeue_ops_inflight:
  "filter (\<lambda>x. op_cf x = cf_inflight t) (dequeue_ops C e t q clk dl i xs) =
   map (\<lambda>(k, v). PutCf (cf_inflight t) k v) (enc_all e (delivered C dl xs))"
  by (induction C e t q clk dl i xs rule: dequeue_ops.induct)
    (auto simp: corrupt_def enc_all_def Let_def split: sum.splits)

lemma dequeue_ops_dlq:
  "filter (\<lambda>x. op_cf x = cf_dlq t) (dequeue_ops C e t q clk dl i xs) =
   map (\<lambda>(k, v). PutCf (cf_dlq t) k v) (enc_all e (envelopes C q clk i xs))"
  by (induction C e t q clk dl i xs rule: dequeue_ops.induct)
    (auto simp: corrupt_def enc_all_def split: sum.splits)

lemma dequeue_ops_cfs:
  "op_cf ` set (dequeue_ops C e t q clk dl i xs) \<subseteq> {cf_pending t, cf_inflight t, cf_dlq t}"
  by (induction C e t q clk dl i xs rule: dequeue_ops.induct) (auto split: sum.splits)

text \<open>Putting entries with distinct keys: the order in the batch does not matter.\<close>

lemma map_of_rev_distinct: "distinct (map fst xs) \<Longrightarrow> map_of (rev xs) = map_of xs"
  by (metis distinct_rev map_of_inject_set rev_map set_rev)

lemma fst_enc_all [simp]: "map fst (enc_all e xs) = map fst xs"
  by (simp add: enc_all_def comp_def case_prod_beta)

lemma map_of_enc_all: "map_of (enc_all e xs) k = map_option e (map_of xs k)"
  by (induction xs) (auto simp: enc_all_def)

lemma distinct_map_prefix: "distinct (map f ys) \<Longrightarrow> prefix xs ys \<Longrightarrow> distinct (map f xs)"
  by (auto simp: prefix_def)

lemma distinct_filter_fst: "distinct (map fst xs) \<Longrightarrow> distinct (map fst (filter Q xs))"
  by (induction xs) auto

lemma kv_batch_enc_all:
  "distinct (map fst xs) \<Longrightarrow>
   kv_batch (map (\<lambda>(k, v). PutCf c k v) (enc_all e xs)) m = m ++ map_of (enc_all e xs)"
  by (simp add: kv_batch_puts map_of_rev_distinct)

context queue_env
begin

lemma dequeue_loop_total:
  "length results < limit \<Longrightarrow>
   dequeue_loop C (cf_pending t) (cf_inflight t) (cf_dlq t) q clk dl limit (map Inr xs) results batch i =
   (let ys = consumed C (limit - length results) xs
    in Inr (results @ delivered C dl ys, batch @ dequeue_ops C enc t q clk dl i ys,
            i + length (filter (\<lambda>(k, v). corrupt C v) ys)))"
proof (induction xs arbitrary: results batch i)
  case (Cons x xs)
  obtain k v where x: "x = (k, v)" by (cases x)
  show ?case
  proof (cases "bc_deserialize C v")
    case (Inl e)
    with Cons show ?thesis
      by (auto simp: x task_deserialize_def corrupt_def Let_def)
  next
    case (Inr u)
    then have ok: "\<not> corrupt C v" by (simp add: corrupt_def)
    show ?thesis
    proof (cases "limit = Suc (length results)")
      case True
      with Inr ok show ?thesis
        by (simp add: x task_deserialize_def Let_def)
    next
      case False
      with Cons.prems have "length (results @ [(k, u\<lparr>attempts := attempts u + 1, deadline := dl\<rparr>)]) < limit"
        and "limit - length results - 1 = limit - Suc (length results)"
        by simp_all
      with Inr ok Cons.prems show ?thesis
        by (simp add: x task_deserialize_def Cons.IH Let_def)
    qed
  qed
qed simp

lemma dequeue_loop_scan:
  "faithful_scan items xs \<Longrightarrow>
   dequeue_loop C pcf icf dcf q clk dl limit items results batch i = Inr r \<Longrightarrow>
   dequeue_loop C pcf icf dcf q clk dl limit (map Inr xs) results batch i = Inr r"
proof (induction items xs arbitrary: results batch i rule: faithful_scan.induct)
  case (4 y rest x xs)
  then show ?case
    by (cases x) (auto simp: Let_def split: sum.splits if_splits)
qed auto

text \<open>The effect of the batch on the three maps.\<close>

lemma dequeue_effect:
  assumes T: "tenant_at V t P I D" and dist: "distinct (map fst ys)"
  shows "tenant_at (apply_batch (dequeue_ops C enc t q clk dl 0 ys) V) t
      (P |` (- fst ` set ys)) (I ++ map_of (enc_all enc (delivered C dl ys)))
      (D ++ map_of (enc_all enc (envelopes C q clk 0 ys)))"
    and "same_elsewhere t V (apply_batch (dequeue_ops C enc t q clk dl 0 ys) V)"
proof -
  let ?b = "dequeue_ops C enc t q clk dl 0 ys"
  have del: "distinct (map fst (delivered C dl ys))"
    unfolding fst_delivered by (rule distinct_filter_fst [OF dist])
  have env: "distinct (map fst (envelopes C q clk 0 ys))"
    unfolding fst_envelopes by (rule distinct_filter_fst [OF dist])
  show "tenant_at (apply_batch ?b V) t
      (P |` (- fst ` set ys)) (I ++ map_of (enc_all enc (delivered C dl ys)))
      (D ++ map_of (enc_all enc (envelopes C q clk 0 ys)))"
    using tenant_batch [OF T, of ?b] kv_batch_deletes [of "cf_pending t" "map fst ys" P]
    by (simp add: dequeue_ops_pending dequeue_ops_inflight dequeue_ops_dlq
        kv_batch_enc_all [OF del] kv_batch_enc_all [OF env] del: map_map)
  show "same_elsewhere t V (apply_batch ?b V)"
    by (intro tenant_batch_elsewhere dequeue_ops_cfs)
qed

text \<open>
  The specification of a dequeue: which records are consumed, what is returned, and the maps
  afterwards.
\<close>

definition dequeue_post where
  "dequeue_post V V' t q clk timeout n P I D results \<longleftrightarrow>
     (let ys = consumed C n (entries P q); dl = saturating_add (clk 0) timeout in
      results = delivered C dl ys \<and> same_elsewhere t V V' \<and>
      tenant_at V' t (P |` (- fst ` set ys)) (I ++ map_of (enc_all enc (delivered C dl ys)))
        (D ++ map_of (enc_all enc (envelopes C q clk 0 ys))))"

lemma dequeue_post_idle:
  assumes T: "tenant_at V t P I D" and none: "consumed C n (entries P q) = []"
  shows "dequeue_post V V t q clk timeout n P I D []"
  using T by (simp add: dequeue_post_def none enc_all_def restrict_map_def)

lemma dequeue_unlocked_outcome:
  assumes T: "tenant_at (view (db g)) t P I D"
    and r: "dequeue_batch_unlocked R C clk g t q n timeout = (res, g')"
  shows "g' = g\<lparr>db := db g'\<rparr> \<and>
    (case res of Inl e \<Rightarrow> db g' = db g
     | Inr results \<Rightarrow> dequeue_post (view (db g)) (view (db g')) t q clk timeout n P I D results)"
proof (cases "n = 0")
  case True
  with r dequeue_post_idle [OF T] show ?thesis
    by (auto simp: dequeue_batch_unlocked_def)
next
  case False
  let ?dl = "saturating_add (clk 0) timeout"
  let ?ys = "consumed C n (entries P q)"
  let ?loop = "dequeue_loop C (cf_pending t) (cf_inflight t) (cf_dlq t) q clk ?dl n
    (iterator_prefix R (db g) (cf_pending t) (queue_prefix q)) [] [] 0"
  have dist: "distinct (map fst ?ys)"
    using distinct_entries prefix_consumed by (metis distinct_map_prefix)
  show ?thesis
  proof (cases ?loop)
    case (Inl e)
    with r False T show ?thesis
      by (auto simp: dequeue_batch_unlocked_def tenant_handles)
  next
    case (Inr out)
    have scan: "faithful_scan (iterator_prefix R (db g) (cf_pending t) (queue_prefix q)) (entries P q)"
      using T by (intro scan_entries) (simp add: tenant_at_def)
    have out: "out = (delivered C ?dl ?ys, dequeue_ops C enc t q clk ?dl 0 ?ys,
        length (filter (\<lambda>(k, v). corrupt C v) ?ys))"
      using dequeue_loop_scan [OF scan Inr] False by (simp add: dequeue_loop_total Let_def)
    show ?thesis
    proof (cases "delivered C ?dl ?ys \<noteq> [] \<or> length (filter (\<lambda>(k, v). corrupt C v) ?ys) > 0")
      case True
      with r False T Inr out dequeue_effect [OF T dist, of q clk ?dl] show ?thesis
        by (auto simp: dequeue_batch_unlocked_def tenant_handles lift_db_def write_view
            dequeue_post_def Let_def split: sum.splits)
    next
      case no: False
      then have "?ys = []"
        by (cases ?ys) (auto simp: Let_def split: if_splits)
      with r False T Inr out no dequeue_post_idle [OF T] show ?thesis
        by (auto simp: dequeue_batch_unlocked_def tenant_handles)
    qed
  qed
qed

end

context reliable_env
begin

lemma dequeue_unlocked_total:
  assumes T: "tenant_at (view (db g)) t P I D"
  shows "\<exists>results g'. dequeue_batch_unlocked R C clk g t q n timeout = (Inr results, g')"
proof (cases "n = 0")
  case False
  have P: "view (db g) (cf_pending t) = Some P"
    using T by (simp add: tenant_at_def)
  let ?b = "dequeue_ops C enc t q clk (saturating_add (clk 0) timeout) 0 (consumed C n (entries P q))"
  have "\<exists>d'. write_opt R (db g) hot_write_opts ?b = Inr d'"
    by (rule write_total) (use T dequeue_ops_cfs [of C enc t q clk _ 0] in \<open>force simp: tenant_at_def\<close>)
  then obtain d' where "write_opt R (db g) hot_write_opts ?b = Inr d'" ..
  then show ?thesis
    using False env.tenant_handles [OF T]
    by (simp add: dequeue_batch_unlocked_def scan_entries_eq [OF P] env.dequeue_loop_total Let_def)
qed (simp add: dequeue_batch_unlocked_def)

end

end
