(* ===== verification/Rq_Enqueue_Facts.thy ===== *)
theory Rq_Enqueue_Facts
  imports Rq_Queue_Facts
begin

text \<open>
  Producers: the backlog quota with its three policies, the wait of the \<open>Block\<close> policy and its
  termination, eviction of the oldest records, and the effect of an enqueue on the maps.
\<close>

section \<open>Counting\<close>

lemma qcount_restrict_le: "finite (dom m) \<Longrightarrow> qcount (m |` A) q \<le> qcount m q"
  by (auto simp: qcount_def intro!: card_mono)

lemma qcount_remove:
  assumes "finite (dom m)" and "K \<subseteq> dom m \<inter> in_queue q"
  shows "qcount (m |` (- K)) q = qcount m q - card K"
proof -
  have "dom (m |` (- K)) \<inter> in_queue q = dom m \<inter> in_queue q - K" by auto
  moreover have "finite K"
    using assms by (meson finite_Int finite_subset)
  ultimately show ?thesis
    using assms(2) by (simp add: qcount_def card_Diff_subset)
qed

lemma qcount_add_fresh:
  assumes "finite (dom m)" and "distinct (map fst xs)" and "fst ` set xs \<subseteq> in_queue q"
    and "fst ` set xs \<inter> dom m = {}"
  shows "qcount (m ++ map_of xs) q = qcount m q + length xs"
proof -
  have "dom (m ++ map_of xs) \<inter> in_queue q = (dom m \<inter> in_queue q) \<union> fst ` set xs"
    using assms(3) by (auto simp: dom_map_of_conv_image_fst)
  moreover have "(dom m \<inter> in_queue q) \<inter> fst ` set xs = {}"
    using assms(4) by auto
  moreover have "card (fst ` set xs) = length xs"
    using assms(2) distinct_card by fastforce
  ultimately show ?thesis
    using assms(1) by (simp add: qcount_def card_Un_disjoint)
qed

lemma qcount_add_le:
  assumes "finite (dom m)"
  shows "qcount (m ++ map_of xs) q \<le> qcount m q + length xs"
proof -
  have "dom (m ++ map_of xs) \<inter> in_queue q \<subseteq> (dom m \<inter> in_queue q) \<union> fst ` set xs"
    by (auto simp: dom_map_of_conv_image_fst)
  then have "qcount (m ++ map_of xs) q \<le> card ((dom m \<inter> in_queue q) \<union> fst ` set xs)"
    unfolding qcount_def using assms by (intro card_mono) auto
  also have "\<dots> \<le> card (dom m \<inter> in_queue q) + card (fst ` set xs)"
    by (rule card_Un_le)
  also have "card (fst ` set xs) \<le> length xs"
    by (metis card_length length_map list.set_map)
  finally show ?thesis by (simp add: qcount_def)
qed

section \<open>Eviction\<close>

lemma evict_loop_total:
  "evicted \<le> count \<Longrightarrow> evict_loop cf count (map Inr xs) batch evicted =
   Inr (batch @ map (DeleteCf cf) (map fst (take (count - evicted) xs)),
        evicted + length (take (count - evicted) xs))"
proof (induction xs arbitrary: batch evicted)
  case (Cons x xs)
  show ?case
  proof (cases "evicted < count")
    case True
    then have "count - evicted = Suc (count - Suc evicted)" by simp
    with True Cons show ?thesis by (cases x) (auto simp: min_def)
  next
    case False
    with Cons.prems show ?thesis by simp
  qed
qed simp

lemma evict_loop_scan:
  "faithful_scan items xs \<Longrightarrow> evict_loop cf count items batch evicted = Inr r \<Longrightarrow>
   evict_loop cf count (map Inr xs) batch evicted = Inr r"
proof (induction items xs arbitrary: batch evicted rule: faithful_scan.induct)
  case (2 e r xs)
  then show ?case by (cases xs) (auto split: if_splits)
next
  case (4 y r x xs)
  then show ?case by (cases x) (auto split: if_splits)
qed (auto split: if_splits)

context queue_env
begin

lemma delete_pending_effect:
  assumes "tenant_at V t P I D"
  shows "tenant_at (apply_batch (map (DeleteCf (cf_pending t)) ks) V) t (P |` (- set ks)) I D"
    and "same_elsewhere t V (apply_batch (map (DeleteCf (cf_pending t)) ks) V)"
  using tenant_batch [OF assms, of "map (DeleteCf (cf_pending t)) ks"]
  by (auto simp: kv_batch_deletes intro!: tenant_batch_elsewhere)

lemma evict_outcome:
  assumes T: "tenant_at (view (db g)) t P I D"
    and r: "evict_oldest_pending R g t q n = (res, g')"
  shows "g' = g\<lparr>db := db g'\<rparr> \<and>
    (case res of Inl e \<Rightarrow> db g' = db g
     | Inr _ \<Rightarrow> tenant_at (view (db g')) t (P |` (- fst ` set (take n (entries P q)))) I D
         \<and> same_elsewhere t (view (db g)) (view (db g')))"
proof (cases "evict_loop (cf_pending t) n (iterator_prefix R (db g) (cf_pending t) (queue_prefix q)) [] 0")
  case (Inl e)
  with r show ?thesis by (auto simp: evict_oldest_pending_def tenant_handles [OF T])
next
  case (Inr out)
  let ?ks = "map fst (take n (entries P q))"
  have "view (db g) (cf_pending t) = Some P"
    using T by (simp add: tenant_at_def)
  from evict_loop_scan [OF scan_entries [OF this] Inr]
  have out: "out = (map (DeleteCf (cf_pending t)) ?ks, length (take n (entries P q)))"
    by (simp add: evict_loop_total del: map_map)
  note eff = delete_pending_effect [OF T, of ?ks]
  show ?thesis
  proof (cases "take n (entries P q) = []")
    case True
    with r Inr out T show ?thesis
      by (auto simp: evict_oldest_pending_def tenant_handles [OF T] restrict_map_def)
  next
    case False
    with r Inr out eff show ?thesis
      by (auto simp: evict_oldest_pending_def tenant_handles [OF T] lift_db_def write_view
          simp del: map_map split: sum.splits)
  qed
qed

lemma qcount_evicted:
  assumes "finite (dom P)"
  shows "qcount (P |` (- fst ` set (take n (entries P q)))) q = qcount P q - n"
proof -
  let ?K = "fst ` set (take n (entries P q))"
  have sub: "?K \<subseteq> dom P \<inter> in_queue q"
    using fst_set_entries [OF assms] set_take_subset by (metis image_mono)
  have "distinct (map fst (take n (entries P q)))"
    using distinct_entries by (metis distinct_take take_map)
  then have "card ?K = min (length (entries P q)) n"
    using distinct_card [of "map fst (take n (entries P q))"] by simp
  then show ?thesis
    using qcount_remove [OF assms sub] by (simp add: length_entries min_def)
qed

end

section \<open>Waiting for space\<close>

text \<open>The wait ends: once the clock has reached the deadline the next poll returns.\<close>

lemma block_wait_returns:
  "i \<le> n \<Longrightarrow> dl \<le> clk n \<Longrightarrow> \<exists>r. block_wait R clk env i g t q quota incoming dl = Some r"
proof (induction "n - i" arbitrary: i g)
  case 0
  then have "dl \<le> clk i" by simp
  then show ?case
    by (subst block_wait.simps) (auto split: sum.splits prod.splits)
next
  case (Suc m)
  then have "\<exists>r. block_wait R clk env (Suc i) (env i g) t q quota incoming dl = Some r"
    by (intro Suc.hyps) auto
  then show ?case
    by (subst block_wait.simps) (auto split: sum.splits prod.splits)
qed

text \<open>A wait that succeeds has seen space on its last poll.\<close>

lemma block_wait_space:
  assumes "block_wait R clk env i g t q quota incoming dl = Some (Inr (), g')"
  shows "\<exists>p infl d. depth R g' t q = Inr (p, infl, d) \<and> p + infl + incoming \<le> quota"
proof -
  define Q where "Q = (\<lambda>(R :: 'a rocksdb) (clk :: nat \<Rightarrow> u64) (env :: nat \<Rightarrow> 'a registry \<Rightarrow> 'a registry)
      (i :: nat) (g :: 'a registry) t q quota incoming (dl :: u64) (r :: ('a registry, unit) outcome).
    fst r = Inr () \<longrightarrow>
      (\<exists>p infl d. depth R (snd r) t q = Inr (p, infl, d) \<and> p + infl + incoming \<le> quota))"
  have "Q R clk env i g t q quota incoming dl (Inr (), g')"
  proof (rule block_wait.raw_induct [OF _ assms], goal_cases)
    case (1 w R clk env i g t q quota incoming dl r)
    show ?case
    proof (cases "depth R g t q")
      case (Inl e)
      with 1(2) show ?thesis by (auto simp: Q_def)
    next
      case (Inr x)
      then obtain p f d where "depth R g t q = Inr (p, f, d)" by (cases x) auto
      with 1 show ?thesis by (cases "p + f + incoming \<le> quota"; cases "dl \<le> clk i") (auto simp: Q_def)
    qed
  qed
  then show ?thesis by (simp add: Q_def)
qed

section \<open>The quota\<close>

context queue_env
begin

lemma depth_tenant:
  assumes "depth R g t q = Inr (p, i, d)"
  obtains P I D where "tenant_at (view (db g)) t P I D" "p = qcount P q" "i = qcount I q" "d = qcount D q"
proof -
  have "view (db g) (cf_pending t) \<noteq> None \<and> view (db g) (cf_inflight t) \<noteq> None \<and> view (db g) (cf_dlq t) \<noteq> None"
    using assms unfolding depth_def pending_cf_def inflight_cf_def dlq_cf_def cf_handle_view
    by (simp split: sum.splits if_splits)
  then obtain P I D where T: "tenant_at (view (db g)) t P I D"
    by (auto simp: tenant_at_def)
  from that [OF T] depth_ok [OF T assms] show thesis by simp
qed

text \<open>
  After the quota check succeeded there is room for the batch: under \<open>Reject\<close> and \<open>Block\<close>
  within the quota, under \<open>EvictOldest\<close> as far as evicting pending records can make it.
\<close>

lemma enforce_quota_room:
  assumes ok: "enforce_quota R clk envr g t q policy incoming = Some (Inr (), g')"
    and quota: "np_backlog_quota policy = Some Q"
  shows "\<exists>P I D. tenant_at (view (db g')) t P I D \<and>
    qcount P q + qcount I q + incoming \<le>
      (if np_backlog_policy policy = EvictOldest then max Q (qcount I q + incoming) else Q)"
proof -
  obtain p i d where dep: "depth R g t q = Inr (p, i, d)"
    using ok quota by (cases "depth R g t q") (auto simp: enforce_quota_def)
  from dep obtain P I D where T: "tenant_at (view (db g)) t P I D" and pid: "p = qcount P q" "i = qcount I q"
    by (rule depth_tenant)
  show ?thesis
  proof (cases "np_backlog_policy policy")
    case Reject
    with ok quota dep have "g' = g" "p + i + incoming \<le> Q"
      by (auto simp: enforce_quota_def Let_def split: if_splits)
    with Reject T pid show ?thesis
      by (intro exI [of _ P] exI [of _ I] exI [of _ D]) simp
  next
    case (Block tmo)
    with ok quota dep obtain p' i' d' where "depth R g' t q = Inr (p', i', d')" "p' + i' + incoming \<le> Q"
      by (auto simp: enforce_quota_def Let_def dest!: block_wait_space)
    moreover from this(1) obtain P' I' D' where "tenant_at (view (db g')) t P' I' D'"
      "p' = qcount P' q" "i' = qcount I' q"
      by (rule depth_tenant)
    ultimately show ?thesis
      using Block by (intro exI [of _ P'] exI [of _ I'] exI [of _ D']) simp
  next
    case EvictOldest
    show ?thesis
    proof (cases "Q < p + i + incoming")
      case True
      let ?n = "p + i + incoming - Q"
      have "evict_oldest_pending R g t q ?n = (Inr (), g')"
        using ok quota dep EvictOldest True by (simp add: enforce_quota_def Let_def)
      from evict_outcome [OF T this] have "tenant_at (view (db g')) t (P |` (- fst ` set (take ?n (entries P q)))) I D"
        by simp
      moreover have "qcount (P |` (- fst ` set (take ?n (entries P q)))) q = p - ?n"
        using qcount_evicted tenant_finite [OF T] pid by simp
      ultimately show ?thesis
        using EvictOldest True pid
        by (intro exI [of _ "P |` (- fst ` set (take ?n (entries P q)))"] exI [of _ I] exI [of _ D]) simp
    next
      case False
      with ok quota dep EvictOldest have "g' = g"
        by (simp add: enforce_quota_def Let_def)
      with False EvictOldest T pid show ?thesis
        by (intro exI [of _ P] exI [of _ I] exI [of _ D]) simp
    qed
  qed
qed

end

section \<open>Enqueue\<close>

text \<open>The records an enqueue of the payloads \<open>ps\<close> writes when the counter stands at \<open>s\<close>.\<close>

definition new_task :: "string \<Rightarrow> u64 \<Rightarrow> string \<Rightarrow> bytes \<Rightarrow> task" where
  "new_task q now uid p =
     \<lparr>task_id = uid, task_queue = q, payload = p, enqueued_at = now, attempts = 0, deadline = 0\<rparr>"

fun new_records :: "string \<Rightarrow> u64 \<Rightarrow> (nat \<Rightarrow> string) \<Rightarrow> u64 \<Rightarrow> nat \<Rightarrow> bytes list \<Rightarrow> (bytes \<times> task) list" where
  "new_records q now uuid s i [] = []"
| "new_records q now uuid s i (p # ps) =
     (encode_key q s, new_task q now (uuid i) p) # new_records q now uuid (s + 1) (Suc i) ps"

lemma length_new_records [simp]: "length (new_records q now uuid s i ps) = length ps"
  by (induction ps arbitrary: s i) auto

lemma nth_new_records:
  "j < length ps \<Longrightarrow> new_records q now uuid s i ps ! j =
     (encode_key q (s + of_nat j), new_task q now (uuid (i + j)) (ps ! j))"
proof (induction ps arbitrary: s i j)
  case (Cons p ps)
  then show ?case by (cases j) (auto simp: add.assoc)
qed simp

lemma fst_new_records:
  "map fst (new_records q now uuid s i ps) = map (\<lambda>j. encode_key q (s + of_nat j)) [0..<length ps]"
  by (rule nth_equalityI) (simp_all add: nth_new_records)

lemma snd_new_records:
  "map snd (new_records q now uuid s i ps) = map (\<lambda>j. new_task q now (uuid (i + j)) (ps ! j)) [0..<length ps]"
  by (rule nth_equalityI) (simp_all add: nth_new_records)

text \<open>As long as the counter does not wrap, the new sequence numbers are above the old ones.\<close>

lemma seq_no_wrap: "unat s + n < 2 ^ 64 \<Longrightarrow> j \<le> n \<Longrightarrow> unat (s + of_nat j :: u64) = unat s + j"
  by (simp add: unat_word_ariths unat_of_nat)

lemma distinct_new_records:
  assumes "unat s + length ps < 2 ^ 64"
  shows "distinct (map fst (new_records q now uuid s i ps))"
proof -
  have "inj_on (\<lambda>j. encode_key q (s + of_nat j)) {0..<length ps}"
    by (rule inj_onI) (metis atLeastLessThan_iff add_left_cancel assms encode_key_eq less_imp_le seq_no_wrap)
  then show ?thesis by (simp add: fst_new_records distinct_map)
qed

context queue_env
begin

lemma enqueue_loop_total:
  "enqueue_loop C cf q now uuid ps s batch ids =
   (Inr (batch @ map (\<lambda>(k, v). PutCf cf k v) (enc_all enc (new_records q now uuid s (length ids) ps)),
         ids @ map uuid [length ids..<length ids + length ps]), s + of_nat (length ps))"
proof (induction ps arbitrary: s batch ids)
  case (Cons p ps)
  then show ?case
    by (simp add: Let_def enc_all_def new_task_def upt_conv_Cons add.assoc add.commute del: upt_Suc)
qed (simp add: enc_all_def)

text \<open>
  What an enqueue does once the quota check let it pass: the records are added to the pending
  map, the identifiers are returned, the counter advances by the number of payloads.
\<close>

definition enqueue_post where
  "enqueue_post g g' t q now uuid ps ids \<longleftrightarrow>
     ids = map uuid [0..<length ps] \<and> g' = g\<lparr>db := db g', seq := seq g + of_nat (length ps)\<rparr> \<and>
     same_elsewhere t (view (db g)) (view (db g')) \<and>
     (\<forall>P I D. tenant_at (view (db g)) t P I D \<longrightarrow>
        tenant_at (view (db g')) t
          (P ++ map_of (rev (enc_all enc (new_records q now uuid (seq g) 0 ps)))) I D)"

lemma put_pending_effect:
  "tenant_at V t P I D \<Longrightarrow>
     tenant_at (apply_batch (map (\<lambda>(k, v). PutCf (cf_pending t) k v) xs) V) t (P ++ map_of (rev xs)) I D"
  "same_elsewhere t V (apply_batch (map (\<lambda>(k, v). PutCf (cf_pending t) k v) xs) V)"
  using tenant_batch [of V t P I D "map (\<lambda>(k, v). PutCf (cf_pending t) k v) xs"]
  by (auto simp: kv_batch_puts intro!: tenant_batch_elsewhere)

lemma enqueue_outcome:
  assumes "enqueue_batch_sync R C clk envr now uuid g t q ps policy = Some (res, g')"
  obtains r0 g0 where "enforce_quota R clk envr (queue_lock g t q) t q policy (length ps) = Some (r0, g0)"
    and "case res of
       Inl e \<Rightarrow> r0 = Inl e \<and> g' = g0 \<or>
         r0 = Inr () \<and> db g' = db g0 \<and> (seq g' = seq g0 \<or> seq g' = seq g0 + of_nat (length ps))
     | Inr ids \<Rightarrow> r0 = Inr () \<and> enqueue_post g0 g' t q now uuid ps ids"
proof -
  obtain r0 g0 where q: "enforce_quota R clk envr (queue_lock g t q) t q policy (length ps) = Some (r0, g0)"
    using assms by (auto simp: enqueue_batch_sync_def)
  show thesis
  proof (cases r0)
    case (Inl e)
    with assms q that show thesis by (auto simp: enqueue_batch_sync_def)
  next
    case (Inr u)
    have "case res of Inl e \<Rightarrow> db g' = db g0 \<and> (seq g' = seq g0 \<or> seq g' = seq g0 + of_nat (length ps))
        | Inr ids \<Rightarrow> enqueue_post g0 g' t q now uuid ps ids"
      using assms q Inr put_pending_effect
      by (auto simp: enqueue_batch_sync_def enqueue_loop_total enqueue_post_def pending_cf_def bind_res_def
          lift_db_def write_view bind_op_def split: sum.splits if_splits)
    with q Inr show thesis by (intro that) (auto split: sum.splits)
  qed
qed

end

context reliable_env
begin

lemma enqueue_submits:
  assumes q: "enforce_quota R clk envr (queue_lock g t q) t q policy (length ps) = Some (Inr (), g0)"
    and T: "tenant_at (view (db g0)) t P I D"
  shows "\<exists>ids g'. enqueue_batch_sync R C clk envr now uuid g t q ps policy = Some (Inr ids, g')"
proof -
  let ?b = "map (\<lambda>(k, v). PutCf (cf_pending t) k v) (enc_all enc (new_records q now uuid (seq g0) 0 ps))"
  obtain d' where "write_opt R (db g0) hot_write_opts ?b = Inr d'"
    by (rule write_obtain [of ?b "db g0" hot_write_opts]) (use T in \<open>auto simp: tenant_at_def\<close>)
  then show ?thesis
    using q env.tenant_handles [OF T]
    by (auto simp: enqueue_batch_sync_def env.enqueue_loop_total)
qed

lemma enqueue_succeeds:
  assumes q: "enforce_quota R clk envr (queue_lock g t q) t q policy (length ps) = Some (Inr (), g0)"
    and T: "tenant_at (view (db g0)) t P I D"
  obtains ids g' where "enqueue_batch_sync R C clk envr now uuid g t q ps policy = Some (Inr ids, g')"
    and "env.enqueue_post g0 g' t q now uuid ps ids"
proof -
  obtain ids g' where r: "enqueue_batch_sync R C clk envr now uuid g t q ps policy = Some (Inr ids, g')"
    using enqueue_submits [OF assms] by blast
  from r show thesis
    by (rule env.enqueue_outcome) (use q r that in auto)
qed

text \<open>Evicting and checking the quota do not fail on a reliable store.\<close>

lemma evict_total:
  assumes T: "tenant_at (view (db g)) t P I D"
  shows "\<exists>g'. evict_oldest_pending R g t q n = (Inr (), g')"
proof -
  have P: "view (db g) (cf_pending t) = Some P"
    using T by (simp add: tenant_at_def)
  let ?b = "map (DeleteCf (cf_pending t)) (map fst (take n (entries P q)))"
  obtain d' where "write_opt R (db g) hot_write_opts ?b = Inr d'"
    by (rule write_obtain [of ?b "db g" hot_write_opts]) (use P in auto)
  then show ?thesis
    using env.tenant_handles [OF T]
    by (simp add: evict_oldest_pending_def scan_entries_eq [OF P] evict_loop_total del: map_map)
qed

lemma enforce_quota_unbounded:
  "np_backlog_quota policy = None \<Longrightarrow> enforce_quota R clk envr g t q policy n = Some (Inr (), g)"
  by (simp add: enforce_quota_def)

lemma enforce_quota_reject:
  assumes T: "tenant_at (view (db g)) t P I D"
    and "np_backlog_quota policy = Some Q" and "np_backlog_policy policy = Reject"
  shows "enforce_quota R clk envr g t q policy n =
    Some (if qcount P q + qcount I q + n > Q
          then Inl (BacklogQuotaExceeded t q (qcount P q + qcount I q) Q n) else Inr (), g)"
  using assms by (simp add: enforce_quota_def depth_eq Let_def)

lemma enforce_quota_evict:
  assumes T: "tenant_at (view (db g)) t P I D"
    and "np_backlog_quota policy = Some Q" and "np_backlog_policy policy = EvictOldest"
  obtains g' where "enforce_quota R clk envr g t q policy n = Some (Inr (), g')"
    and "g' = g\<lparr>db := db g'\<rparr>" and "same_elsewhere t (view (db g)) (view (db g'))"
    and "tenant_at (view (db g')) t
      (P |` (- fst ` set (take (qcount P q + qcount I q + n - Q) (entries P q)))) I D"
proof -
  let ?k = "qcount P q + qcount I q + n - Q"
  obtain g' where ev: "evict_oldest_pending R g t q ?k = (Inr (), g')"
    using evict_total [OF T] by blast
  note out = env.evict_outcome [OF T ev]
  show thesis
  proof (cases "Q < qcount P q + qcount I q + n")
    case True
    with assms ev have "enforce_quota R clk envr g t q policy n = Some (Inr (), g')"
      by (simp add: enforce_quota_def depth_eq Let_def)
    with out show thesis by (intro that) auto
  next
    case False
    with assms have "enforce_quota R clk envr g t q policy n = Some (Inr (), g)"
      by (simp add: enforce_quota_def depth_eq Let_def)
    with False T show thesis by (intro that) (auto simp: restrict_map_def)
  qed
qed

end

end
