(* ===== verification/Rq_Ack_Facts.thy ===== *)
theory Rq_Ack_Facts
  imports Rq_Queue_Facts
begin

text \<open>
  Consumers: acknowledging single records and whole ranges, negative acknowledgement with its
  three branches, and the two operations on dead letters.
\<close>

section \<open>Acknowledging keys\<close>

lemma fold_ack_lock:
  "fold (\<lambda>q g. ack_lock g t q) qs g = g\<lparr>ack_locks := lock_name t ` set qs \<union> ack_locks g\<rparr>"
  by (induction qs arbitrary: g) (auto simp: ack_lock_def)

text \<open>The keys an acknowledgement deletes: those in flight, each once, in the order given.\<close>

fun acked :: "kv \<Rightarrow> bytes set \<Rightarrow> bytes list \<Rightarrow> bytes list" where
  "acked m seen [] = []"
| "acked m seen (k # ks) =
     (if k \<in> seen then acked m seen ks
      else if m k = None then acked m (insert k seen) ks else k # acked m (insert k seen) ks)"

lemma set_acked: "set (acked m seen ks) = set ks \<inter> dom m - seen"
  by (induction ks arbitrary: seen) auto

lemma distinct_acked: "distinct (acked m seen ks)"
  by (induction ks arbitrary: seen) (auto simp: set_acked)

lemma length_acked: "length (acked m {} ks) = card (set ks \<inter> dom m)"
  using distinct_card [OF distinct_acked, of m "{}" ks] by (simp add: set_acked)

text \<open>Deleting keys of the inflight map.\<close>

lemma delete_inflight_effect:
  assumes "tenant_at V t P I D"
  shows "tenant_at (apply_batch (map (DeleteCf (cf_inflight t)) ks) V) t P (I |` (- set ks)) D"
    and "same_elsewhere t V (apply_batch (map (DeleteCf (cf_inflight t)) ks) V)"
  using tenant_batch [OF assms, of "map (DeleteCf (cf_inflight t)) ks"]
  by (auto simp: kv_batch_deletes intro!: tenant_batch_elsewhere)

lemma restrict_Compl_dom [simp]: "m |` (- A \<union> - dom m) = m |` (- A)"
  by (auto simp: restrict_map_def fun_eq_iff)

lemma restrict_disjoint: "A \<inter> dom m = {} \<Longrightarrow> m |` (- A) = m"
proof
  fix k
  assume "A \<inter> dom m = {}"
  then have "k \<in> A \<Longrightarrow> m k = None" by blast
  then show "(m |` (- A)) k = m k" by (cases "k \<in> A") auto
qed

context queue_env
begin

lemma ack_loop_ok:
  "view d cf = Some m \<Longrightarrow> ack_loop R d cf ks seen batch n = Inr r \<Longrightarrow>
   r = (batch @ map (DeleteCf cf) (acked m seen ks), n + length (acked m seen ks))"
proof (induction ks arbitrary: seen batch n)
  case (Cons k ks)
  show ?case
  proof (cases "k \<in> seen")
    case False
    with Cons.prems obtain x where x: "get_cf R d cf k = Inr x"
      by (auto split: sum.splits)
    from get_view [OF Cons.prems(1) x] x False Cons show ?thesis
      by (cases "m k") (auto dest: Cons.IH)
  qed (use Cons in simp)
qed simp

text \<open>
  An acknowledgement removes exactly the given keys from the inflight map and reports how many
  of them were in flight; an error leaves the database as it was.
\<close>

lemma ack_batch_outcome:
  assumes T: "tenant_at (view (db g)) t P I D"
    and r: "ack_batch R g t ks = (res, g')"
  shows "g' = g\<lparr>db := db g', ack_locks := ack_locks g'\<rparr> \<and>
    (case res of Inl e \<Rightarrow> db g' = db g
     | Inr n \<Rightarrow> n = card (set ks \<inter> dom I) \<and> tenant_at (view (db g')) t P (I |` (- set ks)) D
         \<and> same_elsewhere t (view (db g)) (view (db g')))"
proof (cases "ack_loop R (db g) (cf_inflight t) ks {} [] 0")
  case (Inl e)
  with r show ?thesis
    by (auto simp: ack_batch_def tenant_handles [OF T] fold_ack_lock)
next
  case (Inr out)
  have "view (db g) (cf_inflight t) = Some I"
    using T by (simp add: tenant_at_def)
  from ack_loop_ok [OF this Inr]
  have out: "out = (map (DeleteCf (cf_inflight t)) (acked I {} ks), card (set ks \<inter> dom I))"
    by (simp add: length_acked)
  have eff: "tenant_at (apply_batch (map (DeleteCf (cf_inflight t)) (acked I {} ks)) (view (db g))) t P (I |` (- set ks)) D"
    using delete_inflight_effect(1) [OF T, of "acked I {} ks"] by (simp add: set_acked)
  have fin: "finite (set ks \<inter> dom I)" by simp
  show ?thesis
  proof (cases "card (set ks \<inter> dom I) > 0")
    case True
    with r Inr out eff delete_inflight_effect(2) [OF T] show ?thesis
      by (auto simp: ack_batch_def tenant_handles [OF T] fold_ack_lock Let_def lift_db_def write_view split: sum.splits)
  next
    case False
    with fin have "set ks \<inter> dom I = {}" by (simp add: card_gt_0_iff)
    then have "I |` (- set ks) = I"
      by (rule restrict_disjoint)
    with False r Inr out T show ?thesis
      by (auto simp: ack_batch_def tenant_handles [OF T] fold_ack_lock Let_def)
  qed
qed

end

context reliable_env
begin

lemma ack_loop_total:
  "view d cf = Some m \<Longrightarrow>
   ack_loop R d cf ks seen batch n =
     Inr (batch @ map (DeleteCf cf) (acked m seen ks), n + length (acked m seen ks))"
proof (induction ks arbitrary: seen batch n)
  case (Cons k ks)
  then show ?case by (cases "m k") (auto simp: get_eq)
qed simp

lemma ack_batch_total:
  assumes T: "tenant_at (view (db g)) t P I D"
  shows "\<exists>n g'. ack_batch R g t ks = (Inr n, g')"
proof -
  have I: "view (db g) (cf_inflight t) = Some I"
    using T by (simp add: tenant_at_def)
  let ?b = "map (DeleteCf (cf_inflight t)) (acked I {} ks)"
  obtain d' where "write_opt R (db g) hot_write_opts ?b = Inr d'"
    by (rule write_obtain [of ?b "db g" hot_write_opts]) (use I in auto)
  then show ?thesis
    using env.tenant_handles [OF T]
    by (auto simp: ack_batch_def fold_ack_lock ack_loop_total [OF I] Let_def)
qed

end

section \<open>Cumulative acknowledgement\<close>

fun cum_acked :: "u64 \<Rightarrow> (bytes \<times> bytes) list \<Rightarrow> bytes list" where
  "cum_acked s [] = []"
| "cum_acked s ((k, v) # xs) =
     (case decode_key_seq k of None \<Rightarrow> cum_acked s xs
      | Some n \<Rightarrow> if n > s then [] else k # cum_acked s xs)"

lemma cumulative_ack_loop_total:
  "cumulative_ack_loop cf s (map Inr xs) batch n =
     Inr (batch @ map (DeleteCf cf) (cum_acked s xs), n + length (cum_acked s xs))"
proof (induction xs arbitrary: batch n)
  case (Cons x xs)
  then show ?case by (cases x) (auto split: option.splits)
qed simp

lemma cumulative_ack_loop_scan:
  "faithful_scan items xs \<Longrightarrow> cumulative_ack_loop cf s items batch n = Inr r \<Longrightarrow>
   cumulative_ack_loop cf s (map Inr xs) batch n = Inr r"
proof (induction items xs arbitrary: batch n rule: faithful_scan.induct)
  case (4 y rest x xs)
  then show ?case by (cases x) (auto split: option.splits if_splits)
qed auto

lemma cum_acked_subset: "set (cum_acked s xs) \<subseteq> fst ` set xs"
  by (induction s xs rule: cum_acked.induct) (auto split: option.splits)

lemma distinct_cum_acked: "distinct (map fst xs) \<Longrightarrow> distinct (cum_acked s xs)"
  by (induction s xs rule: cum_acked.induct) (use cum_acked_subset in \<open>auto split: option.splits\<close>)

text \<open>
  On a queue whose keys are all well formed, the scan in key order stops exactly where the
  sequence numbers exceed the bound.
\<close>

lemma cum_acked_sorted:
  assumes "sorted_wrt (<) (map fst xs)" and "\<And>k. k \<in> fst ` set xs \<Longrightarrow> \<exists>n. k = encode_key q n"
  shows "set (cum_acked s xs) = {k \<in> fst ` set xs. \<exists>n \<le> s. k = encode_key q n}"
  using assms
proof (induction xs)
  case (Cons x xs)
  obtain n where n: "fst x = encode_key q n" using Cons.prems(2) by auto
  show ?case
  proof (cases "n > s")
    case True
    have "\<not> m \<le> s" if "encode_key q m \<in> fst ` set (x # xs)" for m
    proof
      assume "m \<le> s"
      from that n Cons.prems(1) have "n \<le> m" by (force dest: less_imp_le)
      with \<open>m \<le> s\<close> True show False by simp
    qed
    with True n show ?thesis by (cases x) auto
  next
    case False
    have "set (cum_acked s xs) = {k \<in> fst ` set xs. \<exists>n \<le> s. k = encode_key q n}"
      using Cons by (intro Cons.IH) auto
    with False n show ?thesis by (cases x) auto
  qed
qed simp

context queue_env
begin

lemma cumulative_ack_outcome:
  assumes T: "tenant_at (view (db g)) t P I D"
    and r: "cumulative_ack R g t q s = (res, g')"
  shows "g' = g\<lparr>db := db g'\<rparr> \<and>
    (case res of Inl e \<Rightarrow> db g' = db g
     | Inr n \<Rightarrow> n = length (cum_acked s (entries I q))
         \<and> tenant_at (view (db g')) t P (I |` (- set (cum_acked s (entries I q)))) D
         \<and> same_elsewhere t (view (db g)) (view (db g')))"
proof (cases "cumulative_ack_loop (cf_inflight t) s (iterator_prefix R (db g) (cf_inflight t) (queue_prefix q)) [] 0")
  case (Inl e)
  with r show ?thesis by (auto simp: cumulative_ack_def tenant_handles [OF T])
next
  case (Inr out)
  let ?ks = "cum_acked s (entries I q)"
  have "view (db g) (cf_inflight t) = Some I"
    using T by (simp add: tenant_at_def)
  from cumulative_ack_loop_scan [OF scan_entries [OF this] Inr]
  have out: "out = (map (DeleteCf (cf_inflight t)) ?ks, length ?ks)"
    by (simp add: cumulative_ack_loop_total)
  note eff = delete_inflight_effect [OF T, of ?ks]
  show ?thesis
  proof (cases "?ks = []")
    case True
    with r Inr out T show ?thesis
      by (auto simp: cumulative_ack_def tenant_handles [OF T])
  next
    case False
    with r Inr out eff show ?thesis
      by (auto simp: cumulative_ack_def tenant_handles [OF T] lift_db_def write_view split: sum.splits)
  qed
qed

end

context reliable_env
begin

lemma cumulative_ack_total:
  assumes T: "tenant_at (view (db g)) t P I D"
  shows "\<exists>n g'. cumulative_ack R g t q s = (Inr n, g')"
proof -
  have I: "view (db g) (cf_inflight t) = Some I"
    using T by (simp add: tenant_at_def)
  let ?b = "map (DeleteCf (cf_inflight t)) (cum_acked s (entries I q))"
  obtain d' where "write_opt R (db g) hot_write_opts ?b = Inr d'"
    by (rule write_obtain [of ?b "db g" hot_write_opts]) (use I in auto)
  then show ?thesis
    using env.tenant_handles [OF T]
    by (simp add: cumulative_ack_def scan_entries_eq [OF I] cumulative_ack_loop_total)
qed

end

section \<open>Negative acknowledgement\<close>

text \<open>
  Where a task goes that is handed back: an unreadable record to the dead letters in an
  envelope, a task out of attempts to the dead letters unchanged, any other to the end of its
  queue under a fresh key.
\<close>

datatype nack_fate = NotInflight | ToDlq task | ToDlqRaw bytes | Retried task

definition nack_fate_of :: "task codec \<Rightarrow> u64 \<Rightarrow> kv \<Rightarrow> bytes \<Rightarrow> nack_fate" where
  "nack_fate_of C now I k =
     (case I k of None \<Rightarrow> NotInflight
      | Some v \<Rightarrow> (case bc_deserialize C v of
           Inl _ \<Rightarrow> ToDlq (poison now (key_queue k) v)
         | Inr x \<Rightarrow> if attempts x \<ge> max_attempts then ToDlqRaw v else Retried (x\<lparr>deadline := 0\<rparr>)))"

context queue_env
begin

definition nack_post where
  "nack_post g g' t k now P I D \<longleftrightarrow>
     same_elsewhere t (view (db g)) (view (db g')) \<and>
     (case nack_fate_of C now I k of
        NotInflight \<Rightarrow> g' = g
      | ToDlq e \<Rightarrow> g' = g\<lparr>db := db g'\<rparr> \<and> tenant_at (view (db g')) t P (I(k := None)) (D(k \<mapsto> enc e))
      | ToDlqRaw v \<Rightarrow> g' = g\<lparr>db := db g'\<rparr> \<and> tenant_at (view (db g')) t P (I(k := None)) (D(k \<mapsto> v))
      | Retried x \<Rightarrow> g' = g\<lparr>db := db g', seq := seq g + 1\<rparr> \<and>
          tenant_at (view (db g')) t (P(encode_key (task_queue x) (seq g) \<mapsto> enc x)) (I(k := None)) D)"

lemma nack_batch_effect:
  assumes "tenant_at V t P I D"
  shows "tenant_at (apply_batch [DeleteCf (cf_inflight t) k, PutCf (cf_dlq t) k v] V) t P (I(k := None)) (D(k \<mapsto> v))"
    and "tenant_at (apply_batch [DeleteCf (cf_inflight t) k, PutCf (cf_pending t) k' v] V) t (P(k' \<mapsto> v)) (I(k := None)) D"
    and "same_elsewhere t V (apply_batch [DeleteCf (cf_inflight t) k, PutCf (cf_dlq t) k v] V)"
    and "same_elsewhere t V (apply_batch [DeleteCf (cf_inflight t) k, PutCf (cf_pending t) k' v] V)"
  using tenant_batch [OF assms, of "[DeleteCf (cf_inflight t) k, PutCf (cf_dlq t) k v]"]
    tenant_batch [OF assms, of "[DeleteCf (cf_inflight t) k, PutCf (cf_pending t) k' v]"]
  by (auto simp del: apply_batch_Cons intro!: tenant_batch_elsewhere)

definition nack_batch where
  "nack_batch g t k fate = (case fate of
     NotInflight \<Rightarrow> None
   | ToDlq e \<Rightarrow> Some [DeleteCf (cf_inflight t) k, PutCf (cf_dlq t) k (enc e)]
   | ToDlqRaw v \<Rightarrow> Some [DeleteCf (cf_inflight t) k, PutCf (cf_dlq t) k v]
   | Retried x \<Rightarrow> Some [DeleteCf (cf_inflight t) k, PutCf (cf_pending t) (encode_key (task_queue x) (seq g)) (enc x)])"

definition nack_seq where
  "nack_seq g fate = (case fate of Retried x \<Rightarrow> g\<lparr>seq := seq g + 1\<rparr> | _ \<Rightarrow> g)"

lemma nack_plan_eq:
  assumes T: "tenant_at (view (db g)) t P I D" and get: "get_cf R (db g) (cf_inflight t) k = Inr (I k)"
  shows "nack_plan R C now g t k =
    (Inr (nack_batch g t k (nack_fate_of C now I k)), nack_seq g (nack_fate_of C now I k))"
proof (cases "I k")
  case None
  with get show ?thesis
    by (simp add: nack_plan_def tenant_handles [OF T] nack_fate_of_def nack_batch_def nack_seq_def)
next
  case (Some v)
  with get show ?thesis
    by (cases "bc_deserialize C v") (auto simp: nack_plan_def tenant_handles [OF T] nack_fate_of_def
        nack_batch_def nack_seq_def task_deserialize_def next_seq_def)
qed

lemma nack_outcome:
  assumes T: "tenant_at (view (db g)) t P I D"
    and r: "nack R C now g t k = (res, g')"
  shows "case res of Inl e \<Rightarrow> db g' = db g \<and> (seq g' = seq g \<or> seq g' = seq g + 1)
    | Inr _ \<Rightarrow> nack_post g g' t k now P I D"
proof (cases "get_cf R (db g) (cf_inflight t) k")
  case (Inl e)
  with r show ?thesis
    by (auto simp: nack_def nack_plan_def tenant_handles [OF T])
next
  case (Inr x)
  have "view (db g) (cf_inflight t) = Some I"
    using T by (simp add: tenant_at_def)
  from get_view [OF this Inr] Inr have "get_cf R (db g) (cf_inflight t) k = Inr (I k)" by simp
  note plan = nack_plan_eq [OF T this]
  show ?thesis
  proof (cases "nack_fate_of C now I k")
    case NotInflight
    with r plan show ?thesis
      by (auto simp: nack_def nack_write_def nack_batch_def nack_seq_def nack_post_def)
  qed (use r plan nack_batch_effect [OF T] in
      \<open>auto simp: nack_def nack_write_def nack_batch_def nack_seq_def nack_post_def lift_db_def write_view
        simp del: apply_batch_Cons split: sum.splits\<close>)
qed

end

context reliable_env
begin

lemma nack_total:
  assumes T: "tenant_at (view (db g)) t P I D"
  shows "\<exists>g'. nack R C now g t k = (Inr (), g')"
proof -
  have get: "get_cf R (db g) (cf_inflight t) k = Inr (I k)"
    using T get_eq by (simp add: tenant_at_def)
  let ?f = "nack_fate_of C now I k"
  have "\<exists>d'. write_opt R (db g) hot_write_opts b = Inr d'" if "env.nack_batch g t k ?f = Some b" for b
    by (rule write_total) (use T that in \<open>auto simp: env.nack_batch_def tenant_at_def split: nack_fate.splits\<close>)
  moreover have "db (env.nack_seq g ?f) = db g"
    by (simp add: env.nack_seq_def split: nack_fate.splits)
  ultimately show ?thesis
    using env.nack_plan_eq [OF T get]
    by (cases "env.nack_batch g t k ?f") (auto simp: nack_def nack_write_def)
qed

end

section \<open>Dead letters\<close>

lemma purge_loop_total:
  "purge_loop cf (map Inr xs) batch n = Inr (batch @ map (DeleteCf cf) (map fst xs), n + length xs)"
proof (induction xs arbitrary: batch n)
  case (Cons x xs)
  then show ?case by (cases x) auto
qed simp

lemma purge_loop_scan:
  "faithful_scan items xs \<Longrightarrow> purge_loop cf items batch n = Inr r \<Longrightarrow> purge_loop cf (map Inr xs) batch n = Inr r"
proof (induction items xs arbitrary: batch n rule: faithful_scan.induct)
  case (4 y rest x xs)
  then show ?case by (cases x) auto
qed auto

lemma restrict_Compl_self [simp]: "m |` (- dom m) = Map.empty"
  by (auto simp: restrict_map_def fun_eq_iff)

context queue_env
begin

lemma scan_all:
  "view d c = Some m \<Longrightarrow> faithful_scan (iterator_from R d c []) (kv_list m)"
  using from_view [of d c m "[]"] by simp

lemma purge_outcome:
  assumes T: "tenant_at (view (db g)) t P I D"
    and r: "purge_dlq R g t = (res, g')"
  shows "g' = g\<lparr>db := db g'\<rparr> \<and>
    (case res of Inl e \<Rightarrow> db g' = db g
     | Inr n \<Rightarrow> n = card (dom D) \<and> tenant_at (view (db g')) t P I Map.empty
         \<and> same_elsewhere t (view (db g)) (view (db g')))"
proof (cases "purge_loop (cf_dlq t) (iterator_from R (db g) (cf_dlq t) []) [] 0")
  case (Inl e)
  with r show ?thesis by (auto simp: purge_dlq_def tenant_handles [OF T])
next
  case (Inr out)
  let ?b = "map (DeleteCf (cf_dlq t)) (map fst (kv_list D))"
  have D: "view (db g) (cf_dlq t) = Some D" "finite (dom D)"
    using T tenant_finite [OF T] by (simp_all add: tenant_at_def)
  from purge_loop_scan [OF scan_all [OF D(1)] Inr]
  have out: "out = (?b, card (dom D))"
    by (simp add: purge_loop_total length_kv_list del: map_map)
  have eff: "tenant_at (apply_batch ?b (view (db g))) t P I Map.empty"
    using tenant_batch [OF T, of ?b] kv_batch_deletes [of "cf_dlq t" "map fst (kv_list D)" D]
    by (simp add: fst_kv_list D(2) del: map_map)
  have els: "same_elsewhere t (view (db g)) (apply_batch ?b (view (db g)))"
    by (rule tenant_batch_elsewhere) auto
  show ?thesis
  proof (cases "card (dom D) > 0")
    case True
    with r Inr out eff els show ?thesis
      by (auto simp: purge_dlq_def tenant_handles [OF T] lift_db_def write_view simp del: map_map split: sum.splits)
  next
    case False
    with D have "D = Map.empty" by (simp add: card_gt_0_iff)
    with False r Inr out T show ?thesis
      by (auto simp: purge_dlq_def tenant_handles [OF T])
  qed
qed

end

text \<open>
  The records a replay writes: every dead letter, in key order, with the counters reset, under
  fresh keys of the queue the task itself names.
\<close>

fun replayed :: "task codec \<Rightarrow> u64 \<Rightarrow> (bytes \<times> bytes) list \<Rightarrow> (bytes \<times> task) list" where
  "replayed C s [] = []"
| "replayed C s ((k, v) # xs) =
     (let x = projr (bc_deserialize C v)
      in (encode_key (task_queue x) s, x\<lparr>attempts := 0, deadline := 0\<rparr>) # replayed C (s + 1) xs)"

fun replay_ops :: "task codec \<Rightarrow> (task \<Rightarrow> bytes) \<Rightarrow> string \<Rightarrow> u64 \<Rightarrow> (bytes \<times> bytes) list \<Rightarrow> write_op list" where
  "replay_ops C e t s [] = []"
| "replay_ops C e t s ((k, v) # xs) =
     (let x = projr (bc_deserialize C v)
      in PutCf (cf_pending t) (encode_key (task_queue x) s) (e (x\<lparr>attempts := 0, deadline := 0\<rparr>))
         # DeleteCf (cf_dlq t) k # replay_ops C e t (s + 1) xs)"

lemma length_replayed [simp]: "length (replayed C s xs) = length xs"
  by (induction C s xs rule: replayed.induct) (auto simp: Let_def)

lemma replay_ops_pending:
  "filter (\<lambda>x. op_cf x = cf_pending t) (replay_ops C e t s xs) =
   map (\<lambda>(k, v). PutCf (cf_pending t) k v) (enc_all e (replayed C s xs))"
  by (induction C e t s xs rule: replay_ops.induct) (auto simp: Let_def enc_all_def)

lemma replay_ops_dlq:
  "filter (\<lambda>x. op_cf x = cf_dlq t) (replay_ops C e t s xs) = map (DeleteCf (cf_dlq t)) (map fst xs)"
  by (induction C e t s xs rule: replay_ops.induct) (auto simp: Let_def)

lemma replay_ops_inflight: "filter (\<lambda>x. op_cf x = cf_inflight t) (replay_ops C e t s xs) = []"
  by (induction C e t s xs rule: replay_ops.induct) (auto simp: Let_def)

lemma replay_ops_cfs: "op_cf ` set (replay_ops C e t s xs) \<subseteq> {cf_pending t, cf_inflight t, cf_dlq t}"
  by (induction C e t s xs rule: replay_ops.induct) (auto simp: Let_def)

lemma nth_replayed:
  "j < length xs \<Longrightarrow> replayed C s xs ! j =
     (let x = projr (bc_deserialize C (snd (xs ! j)))
      in (encode_key (task_queue x) (s + of_nat j), x\<lparr>attempts := 0, deadline := 0\<rparr>))"
proof (induction C s xs arbitrary: j rule: replayed.induct)
  case (2 C s k v xs)
  then show ?case by (cases j) (auto simp: Let_def add.assoc)
qed simp

context queue_env
begin

lemma replay_loop_total:
  "\<forall>(k, v) \<in> set xs. \<not> corrupt C v \<Longrightarrow>
   replay_loop C (cf_pending t) (cf_dlq t) (map Inr xs) s batch n =
     (Inr (batch @ replay_ops C enc t s xs, n + length xs), s + of_nat (length xs))"
proof (induction xs arbitrary: s batch n)
  case (Cons x xs)
  obtain k v where x: "x = (k, v)" by (cases x)
  with Cons.prems obtain u where "bc_deserialize C v = Inr u"
    by (cases "bc_deserialize C v") (auto simp: corrupt_def)
  with Cons x show ?case
    by (simp add: task_deserialize_def Let_def add.assoc)
qed simp

lemma replay_loop_scan:
  "faithful_scan items xs \<Longrightarrow> replay_loop C pcf dcf items s batch n = (Inr r, s') \<Longrightarrow>
   replay_loop C pcf dcf (map Inr xs) s batch n = (Inr r, s') \<and> (\<forall>(k, v) \<in> set xs. \<not> corrupt C v)"
proof (induction items xs arbitrary: s batch n rule: faithful_scan.induct)
  case (4 y rest x xs)
  then show ?case
    by (cases x) (auto simp: corrupt_def task_deserialize_def split: sum.splits)
qed auto

definition replay_post where
  "replay_post g g' t P I D n \<longleftrightarrow>
     n = card (dom D) \<and> g' = g\<lparr>db := db g', seq := seq g + of_nat n\<rparr> \<and>
     same_elsewhere t (view (db g)) (view (db g')) \<and>
     tenant_at (view (db g')) t (P ++ map_of (rev (enc_all enc (replayed C (seq g) (kv_list D))))) I Map.empty"

lemma replay_effect:
  assumes T: "tenant_at V t P I D" and "finite (dom D)"
  shows "tenant_at (apply_batch (replay_ops C enc t s (kv_list D)) V) t
      (P ++ map_of (rev (enc_all enc (replayed C s (kv_list D))))) I Map.empty"
    and "same_elsewhere t V (apply_batch (replay_ops C enc t s (kv_list D)) V)"
  using tenant_batch [OF T, of "replay_ops C enc t s (kv_list D)"] assms(2)
    kv_batch_deletes [of "cf_dlq t" "map fst (kv_list D)" D]
  by (auto simp: replay_ops_pending replay_ops_inflight replay_ops_dlq kv_batch_puts fst_kv_list
      simp del: map_map intro!: tenant_batch_elsewhere replay_ops_cfs)

lemma replay_loop_seq:
  "\<exists>j \<le> length items. snd (replay_loop C pcf dcf items s batch n) = s + of_nat j"
proof (induction items arbitrary: s batch n)
  case (Cons x items)
  show ?case
  proof (cases x)
    case (Inr y)
    obtain k v where y: "y = (k, v)" by (cases y)
    show ?thesis
    proof (cases "task_deserialize C v")
      case (Inl e)
      with Inr y show ?thesis by (auto intro!: exI [of _ 0])
    next
      case (Inr u)
      obtain j where "j \<le> length items" "snd (replay_loop C pcf dcf items (s + 1)
          (batch @ [PutCf pcf (encode_key (task_queue u) s) (enc (u\<lparr>attempts := 0, deadline := 0\<rparr>)), DeleteCf dcf k])
          (Suc n)) = s + 1 + of_nat j"
        using Cons.IH by blast
      with \<open>x = Inr y\<close> y Inr show ?thesis by (auto intro!: exI [of _ "Suc j"])
    qed
  qed (auto intro!: exI [of _ 0])
qed simp

lemma replay_seq:
  assumes T: "tenant_at (view (db g)) t P I D" and r: "replay_dlq R C g t = (res, g')"
  shows "\<exists>j \<le> length (iterator_from R (db g) (cf_dlq t) []). seq g' = seq g + of_nat j"
  using r replay_loop_seq [of "iterator_from R (db g) (cf_dlq t) []" "cf_pending t" "cf_dlq t" "seq g" "[]" 0]
  by (auto simp: replay_dlq_def tenant_handles [OF T] lift_db_def bind_op_def split: sum.splits prod.splits if_splits)

lemma replay_outcome:
  assumes T: "tenant_at (view (db g)) t P I D"
    and r: "replay_dlq R C g t = (res, g')"
  shows "case res of Inl e \<Rightarrow> db g' = db g | Inr n \<Rightarrow> replay_post g g' t P I D n"
proof (cases "fst (replay_loop C (cf_pending t) (cf_dlq t) (iterator_from R (db g) (cf_dlq t) []) (seq g) [] 0)")
  case (Inl e)
  with r show ?thesis
    by (auto simp: replay_dlq_def tenant_handles [OF T] split: prod.splits)
next
  case (Inr out)
  then obtain s' where loop: "replay_loop C (cf_pending t) (cf_dlq t)
      (iterator_from R (db g) (cf_dlq t) []) (seq g) [] 0 = (Inr out, s')"
    by (metis prod.collapse)
  have D: "view (db g) (cf_dlq t) = Some D" "finite (dom D)"
    using T tenant_finite [OF T] by (simp_all add: tenant_at_def)
  note sc = replay_loop_scan [OF scan_all [OF D(1)] loop]
  then have out: "out = (replay_ops C enc t (seq g) (kv_list D), card (dom D))"
    and s': "s' = seq g + of_nat (card (dom D))"
    using replay_loop_total [of "kv_list D" t "seq g" "[]" 0] by (simp_all add: length_kv_list)
  note eff = replay_effect [OF T D(2), of "seq g"]
  show ?thesis
  proof (cases "card (dom D) > 0")
    case True
    with r loop out s' eff show ?thesis
      by (auto simp: replay_dlq_def tenant_handles [OF T] lift_db_def write_view replay_post_def split: sum.splits)
  next
    case False
    with D have "D = Map.empty" by (simp add: card_gt_0_iff)
    with False r loop out s' T show ?thesis
      by (auto simp: replay_dlq_def tenant_handles [OF T] replay_post_def kv_list_def enc_all_def)
  qed
qed

end

context reliable_env
begin

lemma purge_total:
  assumes T: "tenant_at (view (db g)) t P I D"
  shows "\<exists>n g'. purge_dlq R g t = (Inr n, g')"
proof -
  have D: "view (db g) (cf_dlq t) = Some D"
    using T by (simp add: tenant_at_def)
  let ?b = "map (DeleteCf (cf_dlq t)) (map fst (kv_list D))"
  obtain d' where "write_opt R (db g) admin_write_opts ?b = Inr d'"
    by (rule write_obtain [of ?b "db g" admin_write_opts]) (use D in auto)
  then show ?thesis
    using env.tenant_handles [OF T] from_eq [OF D, of "[]"]
    by (simp add: purge_dlq_def purge_loop_total del: map_map)
qed

lemma replay_total:
  assumes T: "tenant_at (view (db g)) t P I D" and ok: "\<And>k v. D k = Some v \<Longrightarrow> \<not> corrupt C v"
  shows "\<exists>n g'. replay_dlq R C g t = (Inr n, g')"
proof -
  have D: "view (db g) (cf_dlq t) = Some D" "finite (dom D)"
    using T env.tenant_finite [OF T] by (simp_all add: tenant_at_def)
  have all: "\<forall>(k, v) \<in> set (kv_list D). \<not> corrupt C v"
    using ok D(2) by (auto simp: set_kv_list)
  let ?b = "replay_ops C enc t (seq g) (kv_list D)"
  have "\<exists>d'. write_opt R (db g) admin_write_opts ?b = Inr d'"
    by (rule write_total) (use T replay_ops_cfs [of C enc t "seq g" "kv_list D"] in \<open>force simp: tenant_at_def\<close>)
  then show ?thesis
    using env.tenant_handles [OF T] from_eq [OF D(1), of "[]"] env.replay_loop_total [OF all]
    by (auto simp: replay_dlq_def)
qed

end

end
