(* ===== verification/Rq_Reaper_Facts.thy ===== *)
theory Rq_Reaper_Facts
  imports Rq_Queue_Facts
begin

text \<open>
  The reaper: a sweep of one queue returns exactly the tasks whose visibility deadline has
  passed to the pending map, under the key they had, and moves unreadable records to the dead
  letters. The sweep scans without an upper bound and stops at the first key of another queue;
  that this is the same as scanning the queue rests on the order of the keys.
\<close>

section \<open>The keys with a prefix are an interval\<close>

lemma prefix_interval: "(p :: bytes) \<le> k \<Longrightarrow> k \<le> k' \<Longrightarrow> prefix p k' \<Longrightarrow> prefix p k"
proof (induction p arbitrary: k k')
  case (Cons a p)
  then obtain b ks where k: "k = b # ks" by (cases k) auto
  from Cons.prems obtain ks' where k': "k' = a # ks'" "prefix p ks'" by (cases k') auto
  from Cons.prems(1,2) k k' have "b = a" by auto
  with Cons k k' show ?case by auto
qed simp

lemma takeWhile_prefix:
  "sorted_wrt (<) (map fst xs) \<Longrightarrow> \<forall>k \<in> fst ` set xs. (p :: bytes) \<le> k \<Longrightarrow>
   takeWhile (\<lambda>(k, v). prefix p k) xs = filter (\<lambda>(k, v). prefix p k) xs"
proof (induction xs)
  case (Cons x xs)
  obtain k v where x: "x = (k, v)" by (cases x)
  show ?case
  proof (cases "prefix p k")
    case False
    have "\<not> prefix p k'" if "(k', v') \<in> set xs" for k' v'
    proof
      assume "prefix p k'"
      moreover have "k < k'" using Cons.prems(1) that x by force
      ultimately show False
        using prefix_interval [of p k k'] False Cons.prems(2) x less_imp_le by auto
    qed
    then have "filter (\<lambda>(k, v). prefix p k) xs = []"
      by (auto simp: filter_empty_conv)
    with False x show ?thesis by simp
  qed (use Cons x in auto)
qed simp

lemma filter_kv_list: "finite (dom m) \<Longrightarrow> filter (\<lambda>(k, v). Q k) (kv_list m) = kv_list (m |` {k. Q k})"
proof -
  assume fin: "finite (dom m)"
  let ?ys = "filter (\<lambda>(k, v). Q k) (kv_list m)"
  have "sorted_wrt (<) (map fst ?ys)"
    by (intro sorted_map_filter sorted_kv_list)
  then show ?thesis
    using kv_list_map_of [of ?ys] fin by (simp add: map_of_filter_key map_of_kv_list)
qed

lemma takeWhile_entries:
  assumes fin: "finite (dom m)"
  shows "takeWhile (\<lambda>(k, v). prefix (queue_prefix q) k) (kv_list (m |` {k. queue_prefix q \<le> k})) = entries m q"
proof -
  let ?p = "queue_prefix q"
  let ?xs = "kv_list (m |` {k. ?p \<le> k})"
  have fin': "finite (dom (m |` {k. ?p \<le> k}))" using fin by simp
  have "fst ` set ?xs = dom m \<inter> {k. ?p \<le> k}"
    using fst_kv_list [of "m |` {k. ?p \<le> k}"] fin' by (simp flip: set_map)
  then have "takeWhile (\<lambda>(k, v). prefix ?p k) ?xs = filter (\<lambda>(k, v). prefix ?p k) ?xs"
    by (intro takeWhile_prefix sorted_kv_list) auto
  also have "\<dots> = kv_list (m |` {k. ?p \<le> k} |` {k. prefix ?p k})"
    by (rule filter_kv_list [OF fin'])
  also have "m |` {k. ?p \<le> k} |` {k. prefix ?p k} = m |` in_queue q"
    using prefix_le by (auto simp: in_queue_def restrict_map_def fun_eq_iff)
  finally show ?thesis by (simp add: entries_def)
qed

section \<open>A sweep\<close>

definition expired :: "task codec \<Rightarrow> u64 \<Rightarrow> bytes \<Rightarrow> bool" where
  "expired C now v \<longleftrightarrow>
     (case bc_deserialize C v of Inl _ \<Rightarrow> False | Inr x \<Rightarrow> deadline x > 0 \<and> deadline x < now)"

definition reclaimed :: "task codec \<Rightarrow> u64 \<Rightarrow> (bytes \<times> bytes) list \<Rightarrow> (bytes \<times> task) list" where
  "reclaimed C now xs =
     map (\<lambda>(k, v). (k, (projr (bc_deserialize C v))\<lparr>deadline := 0\<rparr>)) (filter (\<lambda>(k, v). expired C now v) xs)"

text \<open>The keys a sweep takes out of the inflight map.\<close>

definition swept :: "task codec \<Rightarrow> u64 \<Rightarrow> (bytes \<times> bytes) list \<Rightarrow> (bytes \<times> bytes) list" where
  "swept C now xs = filter (\<lambda>(k, v). corrupt C v \<or> expired C now v) xs"

fun reap_ops ::
  "task codec \<Rightarrow> (task \<Rightarrow> bytes) \<Rightarrow> string \<Rightarrow> string \<Rightarrow> (nat \<Rightarrow> u64) \<Rightarrow> nat \<Rightarrow> (bytes \<times> bytes) list \<Rightarrow> write_op list" where
  "reap_ops C e t q clk i [] = []"
| "reap_ops C e t q clk i ((k, v) # xs) =
     (case bc_deserialize C v of
        Inl _ \<Rightarrow> [DeleteCf (cf_inflight t) k, PutCf (cf_dlq t) k (e (poison (clk (Suc i)) q v))]
                @ reap_ops C e t q clk (Suc i) xs
      | Inr x \<Rightarrow> if deadline x > 0 \<and> deadline x < clk 0
          then [DeleteCf (cf_inflight t) k, PutCf (cf_pending t) k (e (x\<lparr>deadline := 0\<rparr>))]
               @ reap_ops C e t q clk i xs
          else reap_ops C e t q clk i xs)"

lemma corrupt_not_expired: "corrupt C v \<Longrightarrow> \<not> expired C now v"
  by (auto simp: corrupt_def expired_def split: sum.splits)

lemma fst_reclaimed: "map fst (reclaimed C now xs) = map fst (filter (\<lambda>(k, v). expired C now v) xs)"
  by (induction xs) (auto simp: reclaimed_def)

lemma reap_ops_inflight:
  "filter (\<lambda>x. op_cf x = cf_inflight t) (reap_ops C e t q clk i xs) =
   map (DeleteCf (cf_inflight t)) (map fst (swept C (clk 0) xs))"
  by (induction C e t q clk i xs rule: reap_ops.induct)
    (auto simp: swept_def corrupt_def expired_def split: sum.splits)

lemma reap_ops_pending:
  "filter (\<lambda>x. op_cf x = cf_pending t) (reap_ops C e t q clk i xs) =
   map (\<lambda>(k, v). PutCf (cf_pending t) k v) (enc_all e (reclaimed C (clk 0) xs))"
  by (induction C e t q clk i xs rule: reap_ops.induct)
    (auto simp: reclaimed_def expired_def enc_all_def split: sum.splits)

lemma reap_ops_dlq:
  "filter (\<lambda>x. op_cf x = cf_dlq t) (reap_ops C e t q clk i xs) =
   map (\<lambda>(k, v). PutCf (cf_dlq t) k v) (enc_all e (envelopes C q clk i xs))"
  by (induction C e t q clk i xs rule: reap_ops.induct)
    (auto simp: corrupt_def enc_all_def split: sum.splits)

lemma reap_ops_cfs: "op_cf ` set (reap_ops C e t q clk i xs) \<subseteq> {cf_pending t, cf_inflight t, cf_dlq t}"
  by (induction C e t q clk i xs rule: reap_ops.induct) (auto split: sum.splits if_splits)

lemma reap_ops_Nil: "reap_ops C e t q clk i xs = [] \<longleftrightarrow> swept C (clk 0) xs = []"
  by (induction C e t q clk i xs rule: reap_ops.induct)
    (auto simp: swept_def corrupt_def expired_def split: sum.splits)

context queue_env
begin

lemma reap_loop_total:
  "reap_loop C (cf_pending t) (cf_inflight t) (cf_dlq t) q clk (map Inr xs) batch n i =
   (let ys = takeWhile (\<lambda>(k, v). prefix (queue_prefix q) k) xs
    in Inr (batch @ reap_ops C enc t q clk i ys, n + length (reclaimed C (clk 0) ys),
            i + length (filter (\<lambda>(k, v). corrupt C v) ys)))"
proof (induction xs arbitrary: batch n i)
  case (Cons x xs)
  obtain k v where x: "x = (k, v)" by (cases x)
  show ?case
    by (cases "bc_deserialize C v")
      (auto simp: x Cons.IH Let_def task_deserialize_def corrupt_def expired_def reclaimed_def)
qed (simp add: reclaimed_def)

lemma reap_loop_scan:
  "faithful_scan items xs \<Longrightarrow> reap_loop C pcf icf dcf q clk items batch n i = Inr r \<Longrightarrow>
   reap_loop C pcf icf dcf q clk (map Inr xs) batch n i = Inr r"
proof (induction items xs arbitrary: batch n i rule: faithful_scan.induct)
  case (4 y rest x xs)
  then show ?case
    by (cases x) (auto split: sum.splits if_splits)
qed auto

definition reap_post where
  "reap_post V V' t q clk P I D \<longleftrightarrow>
     (let xs = entries I q in
      same_elsewhere t V V' \<and>
      tenant_at V' t (P ++ map_of (enc_all enc (reclaimed C (clk 0) xs)))
        (I |` (- fst ` set (swept C (clk 0) xs)))
        (D ++ map_of (enc_all enc (envelopes C q clk 0 xs))))"

lemma reap_effect:
  assumes T: "tenant_at V t P I D"
  shows "reap_post V (apply_batch (reap_ops C enc t q clk 0 (entries I q)) V) t q clk P I D"
proof -
  let ?xs = "entries I q"
  let ?b = "reap_ops C enc t q clk 0 ?xs"
  have d1: "distinct (map fst (reclaimed C (clk 0) ?xs))"
    unfolding fst_reclaimed by (rule distinct_filter_fst [OF distinct_entries])
  have d2: "distinct (map fst (envelopes C q clk 0 ?xs))"
    unfolding fst_envelopes by (rule distinct_filter_fst [OF distinct_entries])
  show ?thesis
    unfolding reap_post_def Let_def
    using tenant_batch [OF T, of ?b] kv_batch_deletes [of "cf_inflight t" "map fst (swept C (clk 0) ?xs)" I]
    by (simp add: reap_ops_pending reap_ops_inflight reap_ops_dlq kv_batch_enc_all [OF d1]
        kv_batch_enc_all [OF d2] tenant_batch_elsewhere [OF reap_ops_cfs] del: map_map)
qed

lemma length_reap_counts:
  "length (reclaimed C now xs) = 0 \<and> length (filter (\<lambda>(k, v). corrupt C v) xs) = 0 \<longleftrightarrow> swept C now xs = []"
  by (induction xs) (auto simp: reclaimed_def swept_def)

lemma reap_outcome:
  assumes T: "tenant_at (view (db g)) t P I D"
    and r: "reap_inflight R C clk g t q = (res, g')"
  shows "g' = g\<lparr>db := db g'\<rparr> \<and>
    (case res of Inl e \<Rightarrow> db g' = db g
     | Inr _ \<Rightarrow> reap_post (view (db g)) (view (db g')) t q clk P I D)"
proof (cases "reap_loop C (cf_pending t) (cf_inflight t) (cf_dlq t) q clk
    (iterator_from R (db g) (cf_inflight t) (queue_prefix q)) [] 0 0")
  case (Inl e)
  with r show ?thesis by (auto simp: reap_inflight_def tenant_handles [OF T])
next
  case (Inr out)
  let ?xs = "entries I q"
  have I: "view (db g) (cf_inflight t) = Some I" "finite (dom I)"
    using T tenant_finite [OF T] by (simp_all add: tenant_at_def)
  from reap_loop_scan [OF from_view [OF I(1)] Inr]
  have out: "out = (reap_ops C enc t q clk 0 ?xs, length (reclaimed C (clk 0) ?xs),
      length (filter (\<lambda>(k, v). corrupt C v) ?xs))"
    by (simp add: reap_loop_total takeWhile_entries [OF I(2)] Let_def)
  note eff = reap_effect [OF T, of q clk]
  show ?thesis
  proof (cases "swept C (clk 0) ?xs = []")
    case True
    then have "reap_ops C enc t q clk 0 ?xs = []" by (simp add: reap_ops_Nil)
    with True r Inr out eff length_reap_counts [of "clk 0" ?xs] show ?thesis
      by (auto simp: reap_inflight_def tenant_handles [OF T])
  next
    case False
    then have "length (reclaimed C (clk 0) ?xs) > 0 \<or> length (filter (\<lambda>(k, v). corrupt C v) ?xs) > 0"
      using length_reap_counts [of "clk 0" ?xs] by auto
    with r Inr out eff show ?thesis
      by (auto simp: reap_inflight_def tenant_handles [OF T] lift_db_def write_view split: sum.splits)
  qed
qed

end

context reliable_env
begin

lemma reap_total:
  assumes T: "tenant_at (view (db g)) t P I D"
  shows "\<exists>g'. reap_inflight R C clk g t q = (Inr (), g')"
proof -
  have I: "view (db g) (cf_inflight t) = Some I"
    using T by (simp add: tenant_at_def)
  have "\<exists>d'. write_opt R (db g) wo (reap_ops C enc t q clk 0 xs) = Inr d'" for wo xs
    by (rule write_total) (use T reap_ops_cfs [of C enc t q clk 0 xs] in \<open>force simp: tenant_at_def\<close>)
  then have "\<exists>g'. lift_db (write_opt R (db g) wo (reap_ops C enc t q clk 0 xs)) g = (Inr (), g')" for wo xs
    by (metis lift_db_simps(2))
  then show ?thesis
    using env.tenant_handles [OF T]
    by (simp add: reap_inflight_def from_eq [OF I] env.reap_loop_total Let_def)
qed

end

end
