(* ===== verification/Rq_Invariant.thy ===== *)
theory Rq_Invariant
  imports Rq_Enqueue_Facts Rq_Ack_Facts Rq_Reaper_Facts
begin

text \<open>
  What holds of a tenant's three column families at all times: a key is in at most one of them,
  every key is a queue name, a NUL byte and a sequence number the counter has already passed,
  a readable record is filed under the queue it names, waiting tasks carry no deadline, and
  every dead letter can be read. The sections after the definition show that each operation
  keeps this, as facts about the maps the preceding theories derive for the operations.
\<close>

section \<open>The invariant\<close>

definition name_ok :: "string \<Rightarrow> bool" where
  "name_ok q \<longleftrightarrow> nul_free q \<and> utf8_valid (as_bytes q)"

definition key_ok :: "nat \<Rightarrow> bytes \<Rightarrow> bool" where
  "key_ok n k \<longleftrightarrow> name_ok (key_queue k) \<and>
     (case decode_key_seq k of None \<Rightarrow> False | Some s \<Rightarrow> k = encode_key (key_queue k) s \<and> unat s < n)"

definition filed :: "task codec \<Rightarrow> bytes \<Rightarrow> bytes \<Rightarrow> bool" where
  "filed C k v \<longleftrightarrow> (case bc_deserialize C v of Inl _ \<Rightarrow> True | Inr x \<Rightarrow> task_queue x = key_queue k)"

definition waiting :: "task codec \<Rightarrow> bytes \<Rightarrow> bool" where
  "waiting C v \<longleftrightarrow> (case bc_deserialize C v of Inl _ \<Rightarrow> True | Inr x \<Rightarrow> deadline x = 0)"

definition all_kv :: "(bytes \<Rightarrow> bytes \<Rightarrow> bool) \<Rightarrow> kv \<Rightarrow> bool" where
  "all_kv Q m \<longleftrightarrow> (\<forall>k v. m k = Some v \<longrightarrow> Q k v)"

definition disjoint3 :: "kv \<Rightarrow> kv \<Rightarrow> kv \<Rightarrow> bool" where
  "disjoint3 P I D \<longleftrightarrow> dom P \<inter> dom I = {} \<and> dom P \<inter> dom D = {} \<and> dom I \<inter> dom D = {}"

definition pending_ok :: "task codec \<Rightarrow> nat \<Rightarrow> bytes \<Rightarrow> bytes \<Rightarrow> bool" where
  "pending_ok C n k v \<longleftrightarrow> key_ok n k \<and> filed C k v \<and> waiting C v"

definition inflight_ok :: "task codec \<Rightarrow> nat \<Rightarrow> bytes \<Rightarrow> bytes \<Rightarrow> bool" where
  "inflight_ok C n k v \<longleftrightarrow> key_ok n k \<and> filed C k v"

definition letter_ok :: "task codec \<Rightarrow> nat \<Rightarrow> bytes \<Rightarrow> bytes \<Rightarrow> bool" where
  "letter_ok C n k v \<longleftrightarrow> key_ok n k \<and> filed C k v \<and> \<not> corrupt C v"

definition tenant_inv :: "task codec \<Rightarrow> nat \<Rightarrow> kv \<Rightarrow> kv \<Rightarrow> kv \<Rightarrow> bool" where
  "tenant_inv C n P I D \<longleftrightarrow> disjoint3 P I D \<and>
     all_kv (pending_ok C n) P \<and> all_kv (inflight_ok C n) I \<and> all_kv (letter_ok C n) D"

lemma all_kvD: "all_kv Q m \<Longrightarrow> m k = Some v \<Longrightarrow> Q k v"
  by (simp add: all_kv_def)

lemma all_kv_empty [simp]: "all_kv Q Map.empty"
  by (simp add: all_kv_def)

lemma all_kv_mono: "all_kv Q m \<Longrightarrow> (\<And>k v. Q k v \<Longrightarrow> Q' k v) \<Longrightarrow> all_kv Q' m"
  by (simp add: all_kv_def)

lemma all_kv_submap: "all_kv Q m \<Longrightarrow> m' \<subseteq>\<^sub>m m \<Longrightarrow> all_kv Q m'"
  unfolding all_kv_def map_le_def by (metis domI)

lemma all_kv_add: "all_kv Q m \<Longrightarrow> (\<And>k v. (k, v) \<in> set xs \<Longrightarrow> Q k v) \<Longrightarrow> all_kv Q (m ++ map_of xs)"
  unfolding all_kv_def by (auto dest: map_of_SomeD)

lemma all_kv_upd: "all_kv Q m \<Longrightarrow> Q k v \<Longrightarrow> all_kv Q (m(k \<mapsto> v))"
  by (simp add: all_kv_def)

lemma restrict_le [simp]: "m |` A \<subseteq>\<^sub>m m"
  by (simp add: map_le_def)

lemma delete_le [simp]: "m(k := None) \<subseteq>\<^sub>m m"
  by (simp add: map_le_def)

lemma takeWhile_nul: "0 \<notin> set b \<Longrightarrow> takeWhile (\<lambda>b. b \<noteq> 0) (b @ 0 # r) = b"
  by (induction b) auto

lemma key_queue_encode_key [simp]: "name_ok q \<Longrightarrow> key_queue (encode_key q s) = q"
  by (simp add: key_queue_def encode_key_def from_utf8_lossy_as_bytes name_ok_def nul_free_def takeWhile_nul)

lemma key_ok_encode [simp]: "name_ok q \<Longrightarrow> key_ok n (encode_key q s) \<longleftrightarrow> unat s < n"
  by (simp add: key_ok_def)

lemma key_okE:
  assumes "key_ok n k"
  obtains s where "name_ok (key_queue k)" "k = encode_key (key_queue k) s" "unat s < n"
  using assms by (auto simp: key_ok_def split: option.splits)

lemma key_ok_mono: "key_ok n k \<Longrightarrow> n \<le> n' \<Longrightarrow> key_ok n' k"
  by (auto simp: key_ok_def split: option.splits)

lemma key_ok_in_queue:
  assumes "key_ok n k" and "k \<in> in_queue q" and "name_ok q"
  shows "key_queue k = q"
proof -
  obtain s where "name_ok (key_queue k)" "k = encode_key (key_queue k) s"
    using assms(1) by (rule key_okE)
  with assms(2,3) show ?thesis
    using queue_prefix_other_key [of q "key_queue k" s] by (simp add: in_queue_def name_ok_def)
qed

lemma in_queue_key_queue:
  assumes "name_ok q" and "key_ok n k"
  shows "k \<in> in_queue q \<longleftrightarrow> key_queue k = q"
proof
  assume "key_queue k = q"
  moreover obtain s where "k = encode_key (key_queue k) s"
    using assms(2) by (rule key_okE)
  ultimately show "k \<in> in_queue q" by (metis encode_key_in_queue)
qed (rule key_ok_in_queue [OF assms(2) _ assms(1)])

lemma tenant_inv_empty [simp]: "tenant_inv C n Map.empty Map.empty Map.empty"
  by (simp add: tenant_inv_def disjoint3_def)

lemma tenant_inv_mono: "tenant_inv C n P I D \<Longrightarrow> n \<le> n' \<Longrightarrow> tenant_inv C n' P I D"
  unfolding tenant_inv_def
  by (auto simp: pending_ok_def inflight_ok_def letter_ok_def elim!: all_kv_mono intro: key_ok_mono)

text \<open>Removing records keeps the invariant.\<close>

lemma disjoint3_submap:
  "disjoint3 P I D \<Longrightarrow> P' \<subseteq>\<^sub>m P \<Longrightarrow> I' \<subseteq>\<^sub>m I \<Longrightarrow> D' \<subseteq>\<^sub>m D \<Longrightarrow> disjoint3 P' I' D'"
  using map_le_implies_dom_le [of P' P] map_le_implies_dom_le [of I' I] map_le_implies_dom_le [of D' D]
  unfolding disjoint3_def by blast

lemma tenant_inv_submap:
  "tenant_inv C n P I D \<Longrightarrow> P' \<subseteq>\<^sub>m P \<Longrightarrow> I' \<subseteq>\<^sub>m I \<Longrightarrow> D' \<subseteq>\<^sub>m D \<Longrightarrow> tenant_inv C n P' I' D'"
  unfolding tenant_inv_def by (blast intro: disjoint3_submap all_kv_submap)

text \<open>Nothing is stored under a key of a sequence number still to come.\<close>

lemma key_ok_fresh: "name_ok q \<Longrightarrow> n \<le> unat s \<Longrightarrow> \<not> key_ok n (encode_key q s)"
  by simp

lemma tenant_inv_keys:
  "tenant_inv C n P I D \<Longrightarrow> k \<in> dom P \<union> dom I \<union> dom D \<Longrightarrow> key_ok n k"
  by (auto simp: tenant_inv_def pending_ok_def inflight_ok_def letter_ok_def dest: all_kvD)

lemma tenant_inv_fresh:
  assumes "tenant_inv C n P I D" and "n \<le> unat s" and "name_ok q"
  shows "encode_key q s \<notin> dom P \<union> dom I \<union> dom D"
  using tenant_inv_keys [OF assms(1)] key_ok_fresh [OF assms(3,2)] by blast

section \<open>Preservation\<close>

lemma enc_all_iff: "(k, v) \<in> set (enc_all e xs) \<longleftrightarrow> (\<exists>x. (k, x) \<in> set xs \<and> v = e x)"
  by (auto simp: enc_all_def)

lemma dom_enc_all [simp]: "dom (map_of (enc_all e xs)) = fst ` set xs"
  by (force simp: dom_map_of_conv_image_fst enc_all_def)

lemma dom_rev_enc_all [simp]: "dom (map_of (rev (enc_all e xs))) = fst ` set xs"
  by (force simp: dom_map_of_conv_image_fst enc_all_def)

context queue_env
begin

lemma filed_enc [simp]: "filed C k (enc x) \<longleftrightarrow> task_queue x = key_queue k"
  by (simp add: filed_def)

lemma waiting_enc [simp]: "waiting C (enc x) \<longleftrightarrow> deadline x = 0"
  by (simp add: waiting_def)

lemma corrupt_enc [simp]: "\<not> corrupt C (enc x)"
  by (simp add: corrupt_def)

text \<open>Adding records under fresh keys.\<close>

lemma tenant_inv_add_pending:
  assumes inv: "tenant_inv C n P I D" and "n \<le> n'"
    and new: "\<And>k x. (k, x) \<in> set xs \<Longrightarrow>
      key_ok n' k \<and> \<not> key_ok n k \<and> task_queue x = key_queue k \<and> deadline x = 0"
  shows "tenant_inv C n' (P ++ map_of (rev (enc_all enc xs))) I D"
proof -
  have inv': "tenant_inv C n' P I D" using inv assms(2) by (rule tenant_inv_mono)
  have "all_kv (pending_ok C n') (P ++ map_of (rev (enc_all enc xs)))"
    using inv' new by (intro all_kv_add) (auto simp: tenant_inv_def pending_ok_def enc_all_iff)
  moreover have "fst ` set xs \<inter> (dom I \<union> dom D) = {}"
    using new tenant_inv_keys [OF inv] by fastforce
  then have "disjoint3 (P ++ map_of (rev (enc_all enc xs))) I D"
    using inv' by (auto simp: tenant_inv_def disjoint3_def)
  ultimately show ?thesis using inv' by (simp add: tenant_inv_def)
qed

lemma new_records_ok:
  assumes "(k, x) \<in> set (new_records q now uuid s i ps)" and "unat s + length ps < 2 ^ 64" and "name_ok q"
  shows "key_ok (unat s + length ps) k \<and> \<not> key_ok (unat s) k \<and> task_queue x = key_queue k \<and> deadline x = 0"
proof -
  obtain j where j: "j < length ps" "(k, x) = new_records q now uuid s i ps ! j"
    using assms(1) by (metis in_set_conv_nth length_new_records)
  then have "unat (s + of_nat j) = unat s + j"
    using seq_no_wrap [OF assms(2)] by simp
  with j assms(3) show ?thesis by (simp add: nth_new_records new_task_def)
qed

lemma inv_enqueue:
  assumes "tenant_inv C (unat s) P I D" and "unat s + length ps < 2 ^ 64" and "name_ok q"
  shows "tenant_inv C (unat s + length ps)
    (P ++ map_of (rev (enc_all enc (new_records q now uuid s 0 ps)))) I D"
  using assms by (intro tenant_inv_add_pending [OF assms(1)] new_records_ok) auto

lemma replayed_ok:
  assumes inv: "tenant_inv C (unat s) P I D" and fin: "finite (dom D)" and "unat s + card (dom D) < 2 ^ 64"
    and mem: "(k, x) \<in> set (replayed C s (kv_list D))"
  shows "key_ok (unat s + card (dom D)) k \<and> \<not> key_ok (unat s) k \<and> task_queue x = key_queue k \<and> deadline x = 0"
proof -
  obtain j where j: "j < length (kv_list D)" "(k, x) = replayed C s (kv_list D) ! j"
    using mem by (metis in_set_conv_nth length_replayed)
  obtain k0 v0 where kv: "kv_list D ! j = (k0, v0)" by (cases "kv_list D ! j")
  then have "D k0 = Some v0" using j(1) fin by (metis nth_mem set_kv_list)
  with inv have l: "letter_ok C (unat s) k0 v0" by (auto simp: tenant_inv_def dest: all_kvD)
  then obtain u where u: "bc_deserialize C v0 = Inr u" "task_queue u = key_queue k0" "name_ok (key_queue k0)"
    by (cases "bc_deserialize C v0") (auto simp: letter_ok_def corrupt_def filed_def key_ok_def)
  have "unat (s + of_nat j) = unat s + j"
    using seq_no_wrap [OF assms(3)] j(1) by (simp add: length_kv_list)
  with j u kv show ?thesis
    by (simp add: nth_replayed Let_def length_kv_list)
qed

lemma inv_replay:
  assumes "tenant_inv C (unat s) P I D" and "finite (dom D)" and "unat s + card (dom D) < 2 ^ 64"
  shows "tenant_inv C (unat s + card (dom D))
    (P ++ map_of (rev (enc_all enc (replayed C s (kv_list D))))) I Map.empty"
proof -
  have "tenant_inv C (unat s) P I Map.empty"
    using assms(1) by (rule tenant_inv_submap) auto
  then show ?thesis
    by (rule tenant_inv_add_pending) (use replayed_ok [OF assms] in auto)
qed

text \<open>Moving records out of one map into the two others, keeping their keys.\<close>

lemma disjoint_move_sets:
  "a \<inter> b = {} \<Longrightarrow> a \<inter> d = {} \<Longrightarrow> b \<inter> d = {} \<Longrightarrow> x \<subseteq> K \<Longrightarrow> e \<subseteq> K \<Longrightarrow> K \<subseteq> a \<Longrightarrow> x \<inter> e = {} \<Longrightarrow>
   a \<inter> - K \<inter> (x \<union> b) = {} \<and> a \<inter> - K \<inter> (e \<union> d) = {} \<and> (x \<union> b) \<inter> (e \<union> d) = {}"
  by blast

lemma disjoint3_move:
  assumes "disjoint3 A B D" and "fst ` set xs \<subseteq> K" and "fst ` set es \<subseteq> K" and "K \<subseteq> dom A"
    and "fst ` set xs \<inter> fst ` set es = {}"
  shows "disjoint3 (A |` (- K)) (B ++ map_of (enc_all enc xs)) (D ++ map_of (enc_all enc es))"
  using assms disjoint_move_sets [of "dom A" "dom B" "dom D" "fst ` set xs" K "fst ` set es"]
  by (simp add: disjoint3_def)

lemma disjoint3_swap: "disjoint3 P I D \<longleftrightarrow> disjoint3 I P D"
  by (auto simp: disjoint3_def)

lemma envelopes_ok:
  assumes "all_kv Q m" and "\<And>k v. Q k v \<Longrightarrow> key_ok n k"
    and fin: "finite (dom m)" and q: "name_ok q" and sub: "set ys \<subseteq> set (entries m q)"
    and mem: "(k, v) \<in> set (enc_all enc (envelopes C q clk i ys))"
  shows "letter_ok C n k v"
proof -
  obtain e where e: "(k, e) \<in> set (envelopes C q clk i ys)" "v = enc e"
    using mem by (auto simp: enc_all_iff)
  then obtain v0 j where v0: "(k, v0) \<in> set ys" "e = poison (clk j) q v0"
    by (blast dest: in_envelopes)
  with sub have "k \<in> in_queue q" "m k = Some v0"
    using set_entries [OF fin] by blast+
  with assms(1,2) have "key_ok n k" "key_queue k = q"
    by (auto dest: all_kvD key_ok_in_queue [OF _ _ q])
  with e v0 show ?thesis by (simp add: letter_ok_def poison_def)
qed

lemma fst_subset: "map fst xs = map fst (filter Q ys) \<Longrightarrow> fst ` set xs \<subseteq> fst ` set ys"
  by (metis filter_is_subset image_mono list.set_map)

lemma delivered_envelopes_disjoint:
  assumes "distinct (map fst ys)"
  shows "fst ` set (delivered C dl ys) \<inter> fst ` set (envelopes C q clk i ys) = {}"
proof -
  have "fst ` set (delivered C dl ys) = fst ` set (filter (\<lambda>(k, v). \<not> corrupt C v) ys)"
    using fst_delivered by (metis list.set_map)
  moreover have "fst ` set (envelopes C q clk i ys) = fst ` set (filter (\<lambda>(k, v). corrupt C v) ys)"
    using fst_envelopes by (metis list.set_map)
  ultimately show ?thesis
    using assms by (auto dest: eq_key_imp_eq_value)
qed

text \<open>Consuming records of a queue, whichever they are.\<close>

lemma inv_consume:
  assumes inv: "tenant_inv C n P I D" and fin: "finite (dom P)" and q: "name_ok q"
    and sub: "set ys \<subseteq> set (entries P q)" and dist: "distinct (map fst ys)"
  shows "tenant_inv C n (P |` (- fst ` set ys)) (I ++ map_of (enc_all enc (delivered C dl ys)))
    (D ++ map_of (enc_all enc (envelopes C q clk 0 ys)))"
proof -
  have P: "all_kv (pending_ok C n) P" using inv by (simp add: tenant_inv_def)
  have "fst ` set ys \<subseteq> fst ` set (entries P q)"
    using sub by (rule image_mono)
  then have "fst ` set ys \<subseteq> dom P"
    using fst_set_entries [OF fin, of q] by simp
  then have "disjoint3 (P |` (- fst ` set ys)) (I ++ map_of (enc_all enc (delivered C dl ys)))
      (D ++ map_of (enc_all enc (envelopes C q clk 0 ys)))"
    using inv delivered_envelopes_disjoint [OF dist]
    by (intro disjoint3_move fst_subset [OF fst_delivered] fst_subset [OF fst_envelopes])
      (simp_all add: tenant_inv_def)
  moreover have "inflight_ok C n k v" if mem: "(k, v) \<in> set (enc_all enc (delivered C dl ys))" for k v
  proof -
    obtain x where x: "(k, x) \<in> set (delivered C dl ys)" "v = enc x"
      using mem by (auto simp: enc_all_iff)
    from in_delivered [OF this(1)] obtain v0 x0 where v0: "(k, v0) \<in> set ys" "bc_deserialize C v0 = Inr x0"
      "x = x0\<lparr>attempts := attempts x0 + 1, deadline := dl\<rparr>"
      by blast
    with sub have "P k = Some v0" using set_entries [OF fin] by blast
    from all_kvD [OF P this] v0 x show ?thesis
      by (simp add: inflight_ok_def pending_ok_def filed_def)
  qed
  moreover have "letter_ok C n k v" if "(k, v) \<in> set (enc_all enc (envelopes C q clk 0 ys))" for k v
    by (rule envelopes_ok [OF P _ fin q sub that]) (simp add: pending_ok_def)
  ultimately show ?thesis
    using inv unfolding tenant_inv_def
    by (simp add: all_kv_submap [OF P] all_kv_add)
qed

lemma inv_dequeue:
  assumes "tenant_inv C n P I D" and "finite (dom P)" and "name_ok q" and ys: "prefix ys (entries P q)"
  shows "tenant_inv C n (P |` (- fst ` set ys)) (I ++ map_of (enc_all enc (delivered C dl ys)))
    (D ++ map_of (enc_all enc (envelopes C q clk 0 ys)))"
  by (rule inv_consume [OF assms(1-3) set_mono_prefix [OF ys] distinct_map_prefix [OF distinct_entries ys]])

lemma swept_keys:
  "fst ` set (reclaimed C now xs) \<subseteq> fst ` set (swept C now xs)"
  "fst ` set (envelopes C q clk i xs) \<subseteq> fst ` set (swept C now xs)"
proof -
  have "fst ` set (reclaimed C now xs) = fst ` set (filter (\<lambda>(k, v). expired C now v) xs)"
    using fst_reclaimed by (metis list.set_map)
  then show "fst ` set (reclaimed C now xs) \<subseteq> fst ` set (swept C now xs)"
    by (auto simp: swept_def)
  have "fst ` set (envelopes C q clk i xs) = fst ` set (filter (\<lambda>(k, v). corrupt C v) xs)"
    using fst_envelopes by (metis list.set_map)
  then show "fst ` set (envelopes C q clk i xs) \<subseteq> fst ` set (swept C now xs)"
    by (auto simp: swept_def)
qed

lemma reclaimed_envelopes_disjoint:
  assumes "distinct (map fst xs)"
  shows "fst ` set (reclaimed C now xs) \<inter> fst ` set (envelopes C q clk i xs) = {}"
proof -
  have "fst ` set (reclaimed C now xs) = fst ` set (filter (\<lambda>(k, v). expired C now v) xs)"
    using fst_reclaimed by (metis list.set_map)
  moreover have "fst ` set (envelopes C q clk i xs) = fst ` set (filter (\<lambda>(k, v). corrupt C v) xs)"
    using fst_envelopes by (metis list.set_map)
  ultimately show ?thesis
    using assms corrupt_not_expired by (auto dest: eq_key_imp_eq_value)
qed

lemma inv_reap:
  assumes inv: "tenant_inv C n P I D" and fin: "finite (dom I)" and q: "name_ok q"
  shows "tenant_inv C n (P ++ map_of (enc_all enc (reclaimed C now (entries I q))))
    (I |` (- fst ` set (swept C now (entries I q))))
    (D ++ map_of (enc_all enc (envelopes C q clk 0 (entries I q))))"
proof -
  let ?xs = "entries I q"
  have I: "all_kv (inflight_ok C n) I" using inv by (simp add: tenant_inv_def)
  have "fst ` set (swept C now ?xs) \<subseteq> fst ` set ?xs"
    by (auto simp: swept_def)
  then have "fst ` set (swept C now ?xs) \<subseteq> dom I"
    using fst_set_entries [OF fin, of q] by blast
  then have "disjoint3 (P ++ map_of (enc_all enc (reclaimed C now ?xs)))
      (I |` (- fst ` set (swept C now ?xs))) (D ++ map_of (enc_all enc (envelopes C q clk 0 ?xs)))"
    using inv reclaimed_envelopes_disjoint [OF distinct_entries]
    by (subst disjoint3_swap, intro disjoint3_move swept_keys) (simp_all add: tenant_inv_def disjoint3_swap)
  moreover have "pending_ok C n k v" if mem: "(k, v) \<in> set (enc_all enc (reclaimed C now ?xs))" for k v
  proof -
    obtain v0 where v0: "(k, v0) \<in> set ?xs" "expired C now v0"
      "v = enc ((projr (bc_deserialize C v0))\<lparr>deadline := 0\<rparr>)"
      using mem by (auto simp: enc_all_iff reclaimed_def)
    then have "I k = Some v0" using set_entries [OF fin] by blast
    from all_kvD [OF I this] v0 show ?thesis
      by (auto simp: inflight_ok_def pending_ok_def filed_def expired_def split: sum.splits)
  qed
  moreover have "letter_ok C n k v" if "(k, v) \<in> set (enc_all enc (envelopes C q clk 0 ?xs))" for k v
    by (rule envelopes_ok [OF I _ fin q subset_refl that]) (simp add: inflight_ok_def)
  ultimately show ?thesis
    using inv unfolding tenant_inv_def
    by (simp add: all_kv_submap [OF I] all_kv_add)
qed

lemma key_queue_name: "key_ok n k \<Longrightarrow> name_ok (key_queue k)"
  by (simp add: key_ok_def)

lemma inv_to_dlq:
  assumes inv: "tenant_inv C n P I D" and k: "I k \<noteq> None" and v: "filed C k v" "\<not> corrupt C v"
  shows "tenant_inv C n P (I(k := None)) (D(k \<mapsto> v))"
proof -
  have "key_ok n k" using tenant_inv_keys [OF inv] k by blast
  then have "all_kv (letter_ok C n) (D(k \<mapsto> v))"
    using inv v by (intro all_kv_upd) (simp_all add: tenant_inv_def letter_ok_def)
  moreover have "k \<notin> dom P" using inv k by (auto simp: tenant_inv_def disjoint3_def)
  then have "disjoint3 P (I(k := None)) (D(k \<mapsto> v))"
    using inv by (auto simp: tenant_inv_def disjoint3_def)
  ultimately show ?thesis
    using inv all_kv_submap [of "inflight_ok C n" I "I(k := None)"] by (simp add: tenant_inv_def)
qed

text \<open>What a negative acknowledgement leaves behind, for each fate of the task.\<close>

lemma inv_nack:
  assumes inv: "tenant_inv C (unat s) P I D" and wrap: "unat s + 1 < 2 ^ 64"
  shows "case nack_fate_of C now I k of
      NotInflight \<Rightarrow> True
    | ToDlq e \<Rightarrow> tenant_inv C (unat s) P (I(k := None)) (D(k \<mapsto> enc e))
    | ToDlqRaw v \<Rightarrow> tenant_inv C (unat s) P (I(k := None)) (D(k \<mapsto> v))
    | Retried x \<Rightarrow> tenant_inv C (unat s + 1) (P(encode_key (task_queue x) s \<mapsto> enc x)) (I(k := None)) D"
proof (cases "I k")
  case None
  then show ?thesis by (simp add: nack_fate_of_def)
next
  case (Some v)
  with inv have ok: "key_ok (unat s) k" "filed C k v"
    by (auto simp: tenant_inv_def inflight_ok_def dest: all_kvD)
  show ?thesis
  proof (cases "bc_deserialize C v")
    case (Inl e)
    with Some show ?thesis
      using inv_to_dlq [OF inv, of k "enc (poison now (key_queue k) v)"]
      by (simp add: nack_fate_of_def poison_def)
  next
    case (Inr x)
    show ?thesis
    proof (cases "attempts x \<ge> max_attempts")
      case True
      with Some Inr ok show ?thesis
        using inv_to_dlq [OF inv, of k v] by (simp add: nack_fate_of_def corrupt_def)
    next
      case False
      let ?x = "x\<lparr>deadline := 0\<rparr>"
      have q: "task_queue x = key_queue k" "name_ok (key_queue k)"
        using ok Inr key_queue_name by (simp_all add: filed_def)
      have "tenant_inv C (unat s) P (I(k := None)) D"
        using inv by (rule tenant_inv_submap) auto
      from tenant_inv_add_pending [OF this, of "unat s + 1" "[(encode_key (task_queue x) s, ?x)]"] q
      have "tenant_inv C (unat s + 1) (P(encode_key (task_queue x) s \<mapsto> enc ?x)) (I(k := None)) D"
        by (simp add: enc_all_def)
      with False Some Inr show ?thesis by (simp add: nack_fate_of_def)
    qed
  qed
qed

end

end
