(* ===== verification/Rq_System.thy ===== *)
theory Rq_System
  imports Rq_Invariant
begin

text \<open>
  The registry as a state machine. A step is one operation of the registry, from a call by the
  control plane, a worker or a background loop; its result may be an error. The invariant of
  \<open>Rq_Invariant\<close> holds for every tenant in every state reachable from one where it holds.
\<close>

section \<open>The invariant of the registry\<close>

definition cf_map :: "(string \<Rightarrow> kv option) \<Rightarrow> string \<Rightarrow> kv" where
  "cf_map V c = (case V c of None \<Rightarrow> Map.empty | Some m \<Rightarrow> m)"

definition system_inv :: "task codec \<Rightarrow> nat \<Rightarrow> (string \<Rightarrow> kv option) \<Rightarrow> bool" where
  "system_inv C n V \<longleftrightarrow>
     (\<forall>t. tenant_inv C n (cf_map V (cf_pending t)) (cf_map V (cf_inflight t)) (cf_map V (cf_dlq t)))"

definition registry_inv :: "task codec \<Rightarrow> ('db \<Rightarrow> string \<Rightarrow> kv option) \<Rightarrow> 'db registry \<Rightarrow> bool" where
  "registry_inv C view g \<longleftrightarrow> system_inv C (unat (seq g)) (view (db g))"

lemma system_inv_tenant: "system_inv C n V \<Longrightarrow> tenant_at V t P I D \<Longrightarrow> tenant_inv C n P I D"
  unfolding system_inv_def tenant_at_def by (metis cf_map_def option.simps(5))

lemma system_inv_mono: "system_inv C n V \<Longrightarrow> n \<le> n' \<Longrightarrow> system_inv C n' V"
  unfolding system_inv_def by (blast intro: tenant_inv_mono)

lemma system_inv_update:
  assumes inv: "system_inv C n V" and "n \<le> n'" and els: "same_elsewhere t V V'"
    and T: "tenant_at V' t P I D" and new: "tenant_inv C n' P I D"
  shows "system_inv C n' V'"
  unfolding system_inv_def
proof
  fix u
  show "tenant_inv C n' (cf_map V' (cf_pending u)) (cf_map V' (cf_inflight u)) (cf_map V' (cf_dlq u))"
  proof (cases "u = t")
    case True
    with T new show ?thesis by (simp add: cf_map_def tenant_at_def)
  next
    case False
    then have "cf_map V' (cf_pending u) = cf_map V (cf_pending u)"
      "cf_map V' (cf_inflight u) = cf_map V (cf_inflight u)" "cf_map V' (cf_dlq u) = cf_map V (cf_dlq u)"
      using els by (simp_all add: same_elsewhere_def cf_map_def)
    with inv assms(2) show ?thesis
      by (metis system_inv_def tenant_inv_mono)
  qed
qed

text \<open>Column families that lose entries, disappear or appear empty keep the invariant.\<close>

lemma system_inv_shrink:
  "system_inv C n V \<Longrightarrow> (\<And>c. c \<noteq> CF_SYSTEM \<Longrightarrow> cf_map V' c \<subseteq>\<^sub>m cf_map V c) \<Longrightarrow> system_inv C n V'"
  unfolding system_inv_def
proof (intro allI)
  fix t
  assume a: "\<forall>t. tenant_inv C n (cf_map V (cf_pending t)) (cf_map V (cf_inflight t)) (cf_map V (cf_dlq t))"
    and b: "\<And>c. c \<noteq> CF_SYSTEM \<Longrightarrow> cf_map V' c \<subseteq>\<^sub>m cf_map V c"
  show "tenant_inv C n (cf_map V' (cf_pending t)) (cf_map V' (cf_inflight t)) (cf_map V' (cf_dlq t))"
    by (rule tenant_inv_submap [OF spec [OF a, of t]]; rule b; rule cf_names_neq)
qed

section \<open>Steps\<close>

definition provisioned :: "'db rocksdb \<Rightarrow> 'db registry \<Rightarrow> string \<Rightarrow> bool" where
  "provisioned R g t \<longleftrightarrow> cf_handle R (db g) (cf_pending t) \<and> cf_handle R (db g) (cf_inflight t)
     \<and> cf_handle R (db g) (cf_dlq t)"

text \<open>
  Queue operations name a queue without NUL and a tenant whose three column families exist, and
  the sequence counter does not wrap. A blocked producer lets other operations run while it
  sleeps.
\<close>

inductive reg_step ::
  "'db rocksdb \<Rightarrow> task codec \<Rightarrow> namespace_policy codec \<Rightarrow> 'db registry \<Rightarrow> 'db registry \<Rightarrow> bool"
  for R C PC where
  step_enqueue:
    "provisioned R g t \<Longrightarrow> name_ok q \<Longrightarrow>
     (\<And>i h. (reg_step R C PC)\<^sup>*\<^sup>* h (envr i h)) \<Longrightarrow>
     enforce_quota R clk envr (queue_lock g t q) t q policy (length ps) = Some (r0, g0) \<Longrightarrow>
     provisioned R g0 t \<Longrightarrow> unat (seq g0) + length ps < 2 ^ 64 \<Longrightarrow>
     enqueue_batch_sync R C clk envr now uuid g t q ps policy = Some (r, g') \<Longrightarrow> reg_step R C PC g g'"
| step_dequeue:
    "provisioned R g t \<Longrightarrow> name_ok q \<Longrightarrow>
     dequeue_batch R C clk g t q n timeout = (rd, g') \<Longrightarrow> reg_step R C PC g g'"
| step_dequeue_capped:
    "provisioned R g t \<Longrightarrow> name_ok q \<Longrightarrow>
     dequeue_with_max_inflight R C clk g t q n timeout m = (rd, g') \<Longrightarrow> reg_step R C PC g g'"
| step_ack:
    "provisioned R g t \<Longrightarrow> ack_batch R g t ks = (ra, g') \<Longrightarrow> reg_step R C PC g g'"
| step_nack:
    "provisioned R g t \<Longrightarrow> unat (seq g) + 1 < 2 ^ 64 \<Longrightarrow>
     nack R C now g t k = (ru, g') \<Longrightarrow> reg_step R C PC g g'"
| step_cumulative_ack:
    "provisioned R g t \<Longrightarrow> cumulative_ack R g t q s = (ra, g') \<Longrightarrow> reg_step R C PC g g'"
| step_reap:
    "provisioned R g t \<Longrightarrow> name_ok q \<Longrightarrow> reap_inflight R C clk g t q = (ru, g') \<Longrightarrow> reg_step R C PC g g'"
| step_purge:
    "provisioned R g t \<Longrightarrow> purge_dlq R g t = (ra, g') \<Longrightarrow> reg_step R C PC g g'"
| step_replay:
    "provisioned R g t \<Longrightarrow> unat (seq g) + length (iterator_from R (db g) (cf_dlq t) []) < 2 ^ 64 \<Longrightarrow>
     replay_dlq R C g t = (ra, g') \<Longrightarrow> reg_step R C PC g g'"
| step_compact:
    "compact_tenant R C clk g t = (ru, g') \<Longrightarrow> reg_step R C PC g g'"
| step_provision:
    "provision_tenant R PC g t policy = (ru, g') \<Longrightarrow> reg_step R C PC g g'"
| step_drop:
    "drop_tenant R g t = (ru, g') \<Longrightarrow> reg_step R C PC g g'"
| step_policy:
    "update_namespace_policy R PC g t policy = (ru, g') \<Longrightarrow> reg_step R C PC g g'"

inductive_cases reg_stepE: "reg_step R C PC g g'"

section \<open>Preservation\<close>

lemma queue_lock_simps [simp]:
  "db (queue_lock g t q) = db g" "seq (queue_lock g t q) = seq g" "policies (queue_lock g t q) = policies g"
  by (simp_all add: queue_lock_def)

lemma seq_update:
  "g' = g\<lparr>db := d\<rparr> \<Longrightarrow> seq g' = seq g" "g' = g\<lparr>db := d, ack_locks := a\<rparr> \<Longrightarrow> seq g' = seq g"
  "g' = g\<lparr>db := d, seq := n\<rparr> \<Longrightarrow> seq g' = n"
  by simp_all

text \<open>What a blocked producer sees when it goes on was produced by its environment.\<close>

lemma block_wait_invariant:
  assumes "block_wait R clk envr i g t q quota incoming dl = Some r"
    and "\<And>i h. Q h \<Longrightarrow> Q (envr i h)" and "Q g"
  shows "Q (snd r)"
proof -
  define S where "S = (\<lambda>(R :: 'a rocksdb) (clk :: nat \<Rightarrow> u64) (env :: nat \<Rightarrow> 'a registry \<Rightarrow> 'a registry)
      (i :: nat) (g :: 'a registry) (t :: string) (q :: string) (quota :: nat) (incoming :: nat) (dl :: u64)
      (r :: ('a registry, unit) outcome). (\<forall>i h. Q h \<longrightarrow> Q (env i h)) \<longrightarrow> Q g \<longrightarrow> Q (snd r))"
  have "S R clk envr i g t q quota incoming dl r"
  proof (rule block_wait.raw_induct [OF _ assms(1)], goal_cases)
    case (1 w R clk env i g t q quota incoming dl r)
    show ?case
    proof (cases "depth R g t q")
      case (Inl e)
      with 1(2) show ?thesis by (auto simp: S_def)
    next
      case (Inr x)
      then obtain p f d where "depth R g t q = Inr (p, f, d)" by (cases x) auto
      with 1 show ?thesis by (cases "p + f + incoming \<le> quota"; cases "dl \<le> clk i") (auto simp: S_def)
    qed
  qed
  with assms(2,3) show ?thesis by (simp add: S_def)
qed

context queue_env
begin

lemma provisioned_tenant:
  assumes "provisioned R g t"
  obtains P I D where "tenant_at (view (db g)) t P I D"
  using assms by (auto simp: provisioned_def cf_handle_view tenant_at_def)

lemma registry_inv_tenant:
  "registry_inv C view g \<Longrightarrow> tenant_at (view (db g)) t P I D \<Longrightarrow> tenant_inv C (unat (seq g)) P I D"
  unfolding registry_inv_def by (rule system_inv_tenant)

lemma registry_inv_update:
  assumes "registry_inv C view g" and "unat (seq g) \<le> unat (seq g')"
    and "same_elsewhere t (view (db g)) (view (db g'))" and "tenant_at (view (db g')) t P I D"
    and "tenant_inv C (unat (seq g')) P I D"
  shows "registry_inv C view g'"
  using assms system_inv_update unfolding registry_inv_def by blast

lemma registry_inv_same:
  "registry_inv C view g \<Longrightarrow> db g' = db g \<Longrightarrow> unat (seq g) \<le> unat (seq g') \<Longrightarrow> registry_inv C view g'"
  unfolding registry_inv_def by (simp add: system_inv_mono)

lemma evict_inv:
  assumes inv: "registry_inv C view g" and T: "tenant_at (view (db g)) t P I D"
    and r: "evict_oldest_pending R g t q n = (res, g')"
  shows "registry_inv C view g'"
proof -
  note out = evict_outcome [OF T r]
  note s = seq_update(1) [OF conjunct1 [OF out]]
  have "tenant_inv C (unat (seq g)) (P |` (- fst ` set (take n (entries P q)))) I D"
    by (rule tenant_inv_submap [OF registry_inv_tenant [OF inv T]]) auto
  with out s inv show ?thesis
    by (cases res) (auto intro: registry_inv_update registry_inv_same)
qed

lemma enforce_quota_inv:
  assumes inv: "registry_inv C view g" and T: "tenant_at (view (db g)) t P I D"
    and envr: "\<And>i h. registry_inv C view h \<Longrightarrow> registry_inv C view (envr i h)"
    and r: "enforce_quota R clk envr g t q policy n = Some (res, g')"
  shows "registry_inv C view g'"
proof (cases "np_backlog_quota policy")
  case None
  with r inv show ?thesis by (simp add: enforce_quota_def)
next
  case (Some Q)
  show ?thesis
  proof (cases "depth R g t q")
    case (Inl e)
    with r Some inv show ?thesis by (simp add: enforce_quota_def)
  next
    case (Inr x)
    then obtain p i d where d: "depth R g t q = Inr (p, i, d)" by (cases x) auto
    show ?thesis
    proof (cases "np_backlog_policy policy")
      case Reject
      with r Some d inv show ?thesis by (auto simp: enforce_quota_def Let_def split: if_splits)
    next
      case (Block ms)
      with r Some d have "block_wait R (\<lambda>i. clk (Suc i)) envr 0 g t q Q n (clk 0 + ms) = Some (res, g')"
        by (simp add: enforce_quota_def Let_def)
      from block_wait_invariant [where Q = "registry_inv C view", OF this envr inv] show ?thesis by simp
    next
      case EvictOldest
      with r Some d inv evict_inv [OF inv T] show ?thesis
        by (auto simp: enforce_quota_def Let_def split: if_splits)
    qed
  qed
qed

lemma enqueue_inv:
  assumes inv: "registry_inv C view g" and T: "tenant_at (view (db g)) t P I D" and q: "name_ok q"
    and envr: "\<And>i h. registry_inv C view h \<Longrightarrow> registry_inv C view (envr i h)"
    and quota: "enforce_quota R clk envr (queue_lock g t q) t q policy (length ps) = Some (r0, g0)"
    and T0: "tenant_at (view (db g0)) t P0 I0 D0" and wrap: "unat (seq g0) + length ps < 2 ^ 64"
    and r: "enqueue_batch_sync R C clk envr now uuid g t q ps policy = Some (res, g')"
  shows "registry_inv C view g'"
proof -
  have "registry_inv C view (queue_lock g t q)" using inv by (rule registry_inv_same) auto
  then have inv0: "registry_inv C view g0"
    by (rule enforce_quota_inv [OF _ _ envr quota]) (use T in auto)
  have s: "unat (seq g0 + of_nat (length ps)) = unat (seq g0) + length ps"
    using seq_no_wrap [OF wrap] by simp
  obtain r1 g1 where q1: "enforce_quota R clk envr (queue_lock g t q) t q policy (length ps) = Some (r1, g1)"
    and out: "case res of
       Inl e \<Rightarrow> r1 = Inl e \<and> g' = g1 \<or>
         r1 = Inr () \<and> db g' = db g1 \<and> (seq g' = seq g1 \<or> seq g' = seq g1 + of_nat (length ps))
     | Inr ids \<Rightarrow> r1 = Inr () \<and> enqueue_post g1 g' t q now uuid ps ids"
    using enqueue_outcome [OF r] by blast
  from q1 quota have g1: "g1 = g0" by simp
  show ?thesis
  proof (cases res)
    case (Inl e)
    with out g1 inv0 s show ?thesis by (auto intro: registry_inv_same)
  next
    case (Inr ids)
    with out g1 have post: "enqueue_post g0 g' t q now uuid ps ids" by simp
    note p = post [unfolded enqueue_post_def, THEN conjunct2]
    note s' = seq_update(3) [OF p [THEN conjunct1]]
    show ?thesis
      by (rule registry_inv_update [OF inv0 _ p [THEN conjunct2, THEN conjunct1]
            p [THEN conjunct2, THEN conjunct2, rule_format, OF T0]])
        (simp_all add: s' s inv_enqueue [OF registry_inv_tenant [OF inv0 T0] wrap q])
  qed
qed

lemma dequeue_unlocked_inv:
  assumes inv: "registry_inv C view g" and T: "tenant_at (view (db g)) t P I D" and q: "name_ok q"
    and r: "dequeue_batch_unlocked R C clk g t q n timeout = (res, g')"
  shows "registry_inv C view g'"
proof -
  note out = dequeue_unlocked_outcome [OF T r]
  note s = seq_update(1) [OF conjunct1 [OF out]]
  show ?thesis
  proof (cases res)
    case (Inl e)
    with out s inv show ?thesis by (auto intro: registry_inv_same)
  next
    case (Inr results)
    note new = inv_dequeue [OF registry_inv_tenant [OF inv T] tenant_finite(1) [OF T] q prefix_consumed]
    from Inr out have "dequeue_post (view (db g)) (view (db g')) t q clk timeout n P I D results" by simp
    note p = this [unfolded dequeue_post_def Let_def, THEN conjunct2]
    show ?thesis
      by (rule registry_inv_update [OF inv _ p [THEN conjunct1] p [THEN conjunct2]]) (simp_all add: s new)
  qed
qed

lemma dequeue_capped_inv:
  assumes inv: "registry_inv C view g" and T: "tenant_at (view (db g)) t P I D" and q: "name_ok q"
    and r: "dequeue_with_max_inflight R C clk g t q n timeout m = (res, g')"
  shows "registry_inv C view g'"
proof -
  have l: "registry_inv C view (queue_lock g t q)" using inv by (rule registry_inv_same) auto
  have "tenant_at (view (db (queue_lock g t q))) t P I D" using T by simp
  from dequeue_unlocked_inv [OF l this q] l inv r show ?thesis
    by (auto simp: dequeue_with_max_inflight_def Let_def bind_res_def split: if_splits sum.splits)
qed

lemma ack_inv:
  assumes inv: "registry_inv C view g" and T: "tenant_at (view (db g)) t P I D"
    and r: "ack_batch R g t ks = (res, g')"
  shows "registry_inv C view g'"
proof -
  note out = ack_batch_outcome [OF T r]
  note s = seq_update(2) [OF conjunct1 [OF out]]
  have "tenant_inv C (unat (seq g)) P (I |` (- set ks)) D"
    by (rule tenant_inv_submap [OF registry_inv_tenant [OF inv T]]) auto
  with out s inv show ?thesis
    by (cases res) (auto intro: registry_inv_update registry_inv_same)
qed

lemma cumulative_ack_inv:
  assumes inv: "registry_inv C view g" and T: "tenant_at (view (db g)) t P I D"
    and r: "cumulative_ack R g t q n = (res, g')"
  shows "registry_inv C view g'"
proof -
  note out = cumulative_ack_outcome [OF T r]
  note s = seq_update(1) [OF conjunct1 [OF out]]
  have "tenant_inv C (unat (seq g)) P (I |` (- set (cum_acked n (entries I q)))) D"
    by (rule tenant_inv_submap [OF registry_inv_tenant [OF inv T]]) auto
  with out s inv show ?thesis
    by (cases res) (auto intro: registry_inv_update registry_inv_same)
qed

lemma purge_inv:
  assumes inv: "registry_inv C view g" and T: "tenant_at (view (db g)) t P I D"
    and r: "purge_dlq R g t = (res, g')"
  shows "registry_inv C view g'"
proof -
  note out = purge_outcome [OF T r]
  note s = seq_update(1) [OF conjunct1 [OF out]]
  have "tenant_inv C (unat (seq g)) P I Map.empty"
    by (rule tenant_inv_submap [OF registry_inv_tenant [OF inv T]]) auto
  with out s inv show ?thesis
    by (cases res) (auto intro: registry_inv_update registry_inv_same)
qed

lemma reap_inv:
  assumes inv: "registry_inv C view g" and T: "tenant_at (view (db g)) t P I D" and q: "name_ok q"
    and r: "reap_inflight R C clk g t q = (res, g')"
  shows "registry_inv C view g'"
proof -
  note out = reap_outcome [OF T r]
  note s = seq_update(1) [OF conjunct1 [OF out]]
  note new = inv_reap [OF registry_inv_tenant [OF inv T] tenant_finite(2) [OF T] q]
  show ?thesis
  proof (cases res)
    case (Inl e)
    with out s inv show ?thesis by (auto intro: registry_inv_same)
  next
    case (Inr u)
    with out have "reap_post (view (db g)) (view (db g')) t q clk P I D" by simp
    note p = this [unfolded reap_post_def Let_def]
    show ?thesis
      by (rule registry_inv_update [OF inv _ p [THEN conjunct1] p [THEN conjunct2]]) (simp_all add: s new)
  qed
qed

lemma seq_suc: "unat (s :: u64) + 1 < 2 ^ 64 \<Longrightarrow> unat (s + 1) = unat s + 1"
  using seq_no_wrap [of s 1 1] by simp

lemma nack_inv:
  assumes inv: "registry_inv C view g" and T: "tenant_at (view (db g)) t P I D"
    and wrap: "unat (seq g) + 1 < 2 ^ 64" and r: "nack R C now g t k = (res, g')"
  shows "registry_inv C view g'"
proof (cases res)
  case (Inl e)
  with nack_outcome [OF T r] have "db g' = db g" "seq g' = seq g \<or> seq g' = seq g + 1" by simp_all
  with inv seq_suc [OF wrap] show ?thesis by (auto intro: registry_inv_same)
next
  case (Inr u)
  with nack_outcome [OF T r] have post: "nack_post g g' t k now P I D" by simp
  note els = post [unfolded nack_post_def, THEN conjunct1]
  note p = post [unfolded nack_post_def, THEN conjunct2]
  note new = inv_nack [OF registry_inv_tenant [OF inv T] wrap, where now = now and k = k]
  show ?thesis
  proof (cases "nack_fate_of C now I k")
    case NotInflight
    with p inv show ?thesis by simp
  next
    case (ToDlq e)
    with p have p': "g' = g\<lparr>db := db g'\<rparr>" "tenant_at (view (db g')) t P (I(k := None)) (D(k \<mapsto> enc e))" by simp_all
    from ToDlq new seq_update(1) [OF p'(1)] show ?thesis
      by (intro registry_inv_update [OF inv _ els p'(2)]) simp_all
  next
    case (ToDlqRaw v)
    with p have p': "g' = g\<lparr>db := db g'\<rparr>" "tenant_at (view (db g')) t P (I(k := None)) (D(k \<mapsto> v))" by simp_all
    from ToDlqRaw new seq_update(1) [OF p'(1)] show ?thesis
      by (intro registry_inv_update [OF inv _ els p'(2)]) simp_all
  next
    case (Retried x)
    with p have p': "g' = g\<lparr>db := db g', seq := seq g + 1\<rparr>"
      "tenant_at (view (db g')) t (P(encode_key (task_queue x) (seq g) \<mapsto> enc x)) (I(k := None)) D" by simp_all
    from Retried new seq_update(3) [OF p'(1)] seq_suc [OF wrap] show ?thesis
      by (intro registry_inv_update [OF inv _ els p'(2)]) simp_all
  qed
qed

lemma faithful_scan_length: "faithful_scan items xs \<Longrightarrow> \<forall>x \<in> set items. \<not> isl x \<Longrightarrow> length items = length xs"
  by (induction items xs rule: faithful_scan.induct) auto

lemma replay_items:
  "replay_loop C pcf dcf items s batch n = (Inr r, s') \<Longrightarrow> \<forall>x \<in> set items. \<not> isl x"
  by (induction items arbitrary: s batch n)
    (auto split: sum.splits elim!: replay_loop.elims)

lemma replay_length:
  assumes T: "tenant_at (view (db g)) t P I D" and r: "replay_dlq R C g t = (Inr n, g')"
  shows "length (iterator_from R (db g) (cf_dlq t) []) = card (dom D)"
proof -
  let ?items = "iterator_from R (db g) (cf_dlq t) []"
  have "\<exists>out s'. replay_loop C (cf_pending t) (cf_dlq t) ?items (seq g) [] 0 = (Inr out, s')"
    using r by (auto simp: replay_dlq_def tenant_handles [OF T] split: sum.splits prod.splits)
  then have "\<forall>x \<in> set ?items. \<not> isl x" using replay_items by blast
  moreover have "view (db g) (cf_dlq t) = Some D" using T by (simp add: tenant_at_def)
  ultimately show ?thesis
    using faithful_scan_length [OF scan_all] by (simp add: length_kv_list)
qed

lemma replay_inv:
  assumes inv: "registry_inv C view g" and T: "tenant_at (view (db g)) t P I D"
    and wrap: "unat (seq g) + length (iterator_from R (db g) (cf_dlq t) []) < 2 ^ 64"
    and r: "replay_dlq R C g t = (res, g')"
  shows "registry_inv C view g'"
proof (cases res)
  case (Inl e)
  with replay_outcome [OF T r] have d: "db g' = db g" by simp
  obtain j where j: "j \<le> length (iterator_from R (db g) (cf_dlq t) [])" "seq g' = seq g + of_nat j"
    using replay_seq [OF T r] by blast
  then have "unat (seq g') = unat (seq g) + j" using seq_no_wrap [OF wrap] by simp
  with d inv show ?thesis by (auto intro: registry_inv_same)
next
  case (Inr n)
  with replay_outcome [OF T r] have post: "replay_post g g' t P I D n" by simp
  note p = post [unfolded replay_post_def]
  note n = p [THEN conjunct1]
  note s = seq_update(3) [OF p [THEN conjunct2, THEN conjunct1]]
  from r Inr replay_length [OF T] wrap have w: "unat (seq g) + card (dom D) < 2 ^ 64" by simp
  have s': "unat (seq g') = unat (seq g) + card (dom D)"
    using seq_no_wrap [OF w] s n by simp
  have fin: "finite (dom D)" using tenant_finite [OF T] by simp
  show ?thesis
    by (rule registry_inv_update [OF inv _ p [THEN conjunct2, THEN conjunct2, THEN conjunct1]
          p [THEN conjunct2, THEN conjunct2, THEN conjunct2]])
      (simp_all add: s' inv_replay [OF registry_inv_tenant [OF inv T] fin w])
qed

text \<open>The operations on tenants change the column families of queues only by dropping entries.\<close>

definition shrinks where
  "shrinks g g' \<longleftrightarrow> seq g' = seq g \<and>
     (\<forall>c. c \<noteq> CF_SYSTEM \<longrightarrow> cf_map (view (db g')) c \<subseteq>\<^sub>m cf_map (view (db g)) c)"

lemma shrinks_refl [simp]: "shrinks g g"
  by (simp add: shrinks_def)

lemma shrinks_trans: "shrinks g g' \<Longrightarrow> shrinks g' g'' \<Longrightarrow> shrinks g g''"
  unfolding shrinks_def by (metis map_le_trans)

lemma shrinks_inv: "registry_inv C view g \<Longrightarrow> shrinks g g' \<Longrightarrow> registry_inv C view g'"
  unfolding registry_inv_def shrinks_def by (metis system_inv_shrink)

lemma shrinks_bind_op:
  assumes "shrinks g (snd r)" and "\<And>a. shrinks (snd r) (snd (f a (snd r)))"
  shows "shrinks g (snd (bind_op r f))"
proof (cases "fst r")
  case (Inl e)
  with assms(1) show ?thesis by (cases r) (simp add: bind_op_def)
next
  case (Inr a)
  with shrinks_trans [OF assms(1) assms(2) [of a]] show ?thesis by (cases r) (simp add: bind_op_def)
qed

lemma shrinks_if:
  "(b \<Longrightarrow> shrinks g (snd x)) \<Longrightarrow> (\<not> b \<Longrightarrow> shrinks g (snd y)) \<Longrightarrow> shrinks g (snd (if b then x else y))"
  by simp

lemma shrinks_tables [simp]:
  "shrinks g (g\<lparr>policies := p\<rparr>)" "shrinks g (g\<lparr>policies := p, queue_locks := a, ack_locks := b\<rparr>)"
  by (simp_all add: shrinks_def)

lemma shrinks_create: "shrinks g (snd (lift_db (create_cf R (db g) c opts) g))"
  by (auto simp: lift_db_def shrinks_def cf_map_def dest!: create_view split: sum.splits)

lemma shrinks_drop: "shrinks g (snd (lift_db (drop_cf R (db g) c) g))"
  by (auto simp: lift_db_def shrinks_def cf_map_def dest!: drop_view split: sum.splits)

lemma shrinks_put: "shrinks g (snd (lift_db (put_cf_opt R (db g) wo CF_SYSTEM k v) g))"
  by (auto simp: lift_db_def shrinks_def cf_map_def dest!: put_view split: sum.splits)

lemma shrinks_delete: "shrinks g (snd (lift_db (delete_cf_opt R (db g) wo CF_SYSTEM k) g))"
  by (auto simp: lift_db_def shrinks_def cf_map_def dest!: delete_view split: sum.splits)

lemma shrinks_put_meta: "shrinks g (snd (put_meta R PC g t p))"
  by (simp add: put_meta_def bind_res_def shrinks_put split: sum.splits)

lemma shrinks_provision: "shrinks g (snd (provision_tenant R PC g t p))"
  unfolding provision_tenant_def Let_def
  by (intro shrinks_bind_op shrinks_create shrinks_put_meta) simp

lemma shrinks_drop_tenant: "shrinks g (snd (drop_tenant R g t))"
  unfolding drop_tenant_def
  by (intro shrinks_bind_op shrinks_drop shrinks_delete shrinks_if) simp_all

lemma shrinks_policy: "shrinks g (snd (update_namespace_policy R PC g t p))"
  unfolding update_namespace_policy_def
  by (intro shrinks_if shrinks_bind_op shrinks_put_meta) simp_all

lemma compact_shrinks:
  "cf_map (view (fst (compact_range_cf R C clk c dn))) c' \<subseteq>\<^sub>m cf_map (view (fst dn)) c'"
proof (cases dn)
  case (Pair d n)
  show ?thesis
  proof (cases "c' = c")
    case True
    then show ?thesis
      using compact_subset [of d c _ C clk n] compact_defined [of C clk c d n c]
      by (cases "view d c") (auto simp: Pair cf_map_def)
  next
    case False
    then show ?thesis by (simp add: Pair cf_map_def compact_other)
  qed
qed

lemma shrinks_compact: "shrinks g (snd (compact_tenant R C clk g t))"
proof -
  let ?d1 = "compact_range_cf R C clk (cf_pending t) (db g, counters g)"
  let ?d2 = "compact_range_cf R C clk (cf_inflight t) ?d1"
  let ?d3 = "compact_range_cf R C clk (cf_dlq t) ?d2"
  have "cf_map (view (fst ?d3)) c \<subseteq>\<^sub>m cf_map (view (fst (db g, counters g))) c" for c
    by (rule map_le_trans [OF compact_shrinks], rule map_le_trans [OF compact_shrinks]) (rule compact_shrinks)
  then show ?thesis
    by (auto simp: compact_tenant_def shrinks_def split: prod.splits)
qed

section \<open>Reachable states\<close>

lemma env_inv:
  assumes "(\<lambda>x y. reg_step R C PC x y \<and> (registry_inv C view x \<longrightarrow> registry_inv C view y))\<^sup>*\<^sup>* h h'"
    and "registry_inv C view h"
  shows "registry_inv C view h'"
  using assms by (induction rule: rtranclp_induct) auto

lemma reg_step_inv: "reg_step R C PC g g' \<Longrightarrow> registry_inv C view g \<Longrightarrow> registry_inv C view g'"
proof (induction rule: reg_step.induct)
  case (step_enqueue g t q envr clk policy ps r0 g0 now uuid r g')
  obtain P I D where T: "tenant_at (view (db g)) t P I D"
    using step_enqueue.hyps(1) by (rule provisioned_tenant)
  obtain P0 I0 D0 where T0: "tenant_at (view (db g0)) t P0 I0 D0"
    using step_enqueue.hyps(4) by (rule provisioned_tenant)
  show ?case
    by (rule enqueue_inv [OF step_enqueue.prems T step_enqueue.hyps(2) _ step_enqueue.hyps(3) T0 step_enqueue.hyps(5,6)])
      (rule env_inv [OF step_enqueue.IH])
next
  case (step_dequeue g t q clk n timeout rd g')
  obtain P I D where T: "tenant_at (view (db g)) t P I D"
    using step_dequeue(1) by (rule provisioned_tenant)
  have "registry_inv C view (queue_lock g t q)"
    using step_dequeue.prems by (rule registry_inv_same) auto
  then show ?case
    by (rule dequeue_unlocked_inv [OF _ _ step_dequeue(2)])
      (use T step_dequeue(3) in \<open>simp_all add: dequeue_batch_def\<close>)
next
  case (step_dequeue_capped g t q clk n timeout m rd g')
  from step_dequeue_capped(1) obtain P I D where "tenant_at (view (db g)) t P I D" by (rule provisioned_tenant)
  from dequeue_capped_inv [OF step_dequeue_capped.prems this step_dequeue_capped(2,3)] show ?case .
next
  case (step_ack g t ks ra g')
  from step_ack(1) obtain P I D where "tenant_at (view (db g)) t P I D" by (rule provisioned_tenant)
  from ack_inv [OF step_ack.prems this step_ack(2)] show ?case .
next
  case (step_nack g t now k ru g')
  from step_nack(1) obtain P I D where "tenant_at (view (db g)) t P I D" by (rule provisioned_tenant)
  from nack_inv [OF step_nack.prems this step_nack(2,3)] show ?case .
next
  case (step_cumulative_ack g t q s ra g')
  from step_cumulative_ack(1) obtain P I D where "tenant_at (view (db g)) t P I D" by (rule provisioned_tenant)
  from cumulative_ack_inv [OF step_cumulative_ack.prems this step_cumulative_ack(2)] show ?case .
next
  case (step_reap g t q clk ru g')
  from step_reap(1) obtain P I D where "tenant_at (view (db g)) t P I D" by (rule provisioned_tenant)
  from reap_inv [OF step_reap.prems this step_reap(2,3)] show ?case .
next
  case (step_purge g t ra g')
  from step_purge(1) obtain P I D where "tenant_at (view (db g)) t P I D" by (rule provisioned_tenant)
  from purge_inv [OF step_purge.prems this step_purge(2)] show ?case .
next
  case (step_replay g t ra g')
  from step_replay(1) obtain P I D where "tenant_at (view (db g)) t P I D" by (rule provisioned_tenant)
  from replay_inv [OF step_replay.prems this step_replay(2,3)] show ?case .
next
  case (step_compact clk g t ru g')
  then show ?case using shrinks_inv shrinks_compact by (metis snd_conv)
next
  case (step_provision g t policy ru g')
  then show ?case using shrinks_inv shrinks_provision by (metis snd_conv)
next
  case (step_drop g t ru g')
  then show ?case using shrinks_inv shrinks_drop_tenant by (metis snd_conv)
next
  case (step_policy g t policy ru g')
  then show ?case using shrinks_inv shrinks_policy by (metis snd_conv)
qed

lemma reg_steps_inv: "(reg_step R C PC)\<^sup>*\<^sup>* g g' \<Longrightarrow> registry_inv C view g \<Longrightarrow> registry_inv C view g'"
  by (induction rule: rtranclp_induct) (auto intro: reg_step_inv)

end

end
