(* ===== verification/Rq_Conservation.thy ===== *)
theory Rq_Conservation
  imports Rq_System "HOL-Library.Multiset"
begin

text \<open>
  No payload is lost and none is duplicated. The content of a record is its payload, or the raw
  bytes when it cannot be read; wrapping unreadable bytes in an envelope keeps the content. The
  contents of a tenant are a multiset over its three column families: handing tasks out,
  handing them back, reaping and replaying leave it as it is, an enqueue adds the payloads.
\<close>

section \<open>Contents\<close>

definition content :: "task codec \<Rightarrow> bytes \<Rightarrow> bytes" where
  "content C v = (case bc_deserialize C v of Inl _ \<Rightarrow> v | Inr x \<Rightarrow> payload x)"

definition contents :: "task codec \<Rightarrow> kv \<Rightarrow> bytes multiset" where
  "contents C m = image_mset (\<lambda>k. content C (the (m k))) (mset_set (dom m))"

definition tenant_contents :: "task codec \<Rightarrow> kv \<Rightarrow> kv \<Rightarrow> kv \<Rightarrow> bytes multiset" where
  "tenant_contents C P I D = contents C P + contents C I + contents C D"

definition listed :: "task codec \<Rightarrow> (bytes \<times> bytes) list \<Rightarrow> bytes multiset" where
  "listed C xs = mset (map (\<lambda>(k, v). content C v) xs)"

lemma contents_empty [simp]: "contents C Map.empty = {#}"
  by (simp add: contents_def)

lemma listed_simps [simp]:
  "listed C [] = {#}" "listed C ((k, v) # xs) = add_mset (content C v) (listed C xs)"
  by (simp_all add: listed_def)

lemma disjoint_sub: "A \<subseteq> B \<Longrightarrow> B \<inter> E = {} \<Longrightarrow> A \<inter> E = {}"
  by blast

lemma contents_upd:
  assumes "finite (dom m)" and "k \<notin> dom m"
  shows "contents C (m(k \<mapsto> v)) = add_mset (content C v) (contents C m)"
proof -
  have "image_mset (\<lambda>x. content C (the ((m(k \<mapsto> v)) x))) (mset_set (dom m)) = contents C m"
    unfolding contents_def using assms by (intro image_mset_cong) (auto simp: domD)
  with assms show ?thesis by (simp add: contents_def del: fun_upd_apply) simp
qed

lemma contents_add:
  assumes "finite (dom m)" and "distinct (map fst xs)" and "fst ` set xs \<inter> dom m = {}"
  shows "contents C (m ++ map_of xs) = contents C m + listed C xs"
  using assms
proof (induction xs)
  case (Cons x xs)
  obtain k v where x: "x = (k, v)" by (cases x)
  have fin: "finite (dom (m ++ map_of xs))" using Cons.prems(1) by (simp add: finite_dom_map_of)
  have "k \<notin> dom (m ++ map_of xs)"
    using Cons.prems x by (auto simp: dom_map_of_conv_image_fst)
  from contents_upd [OF fin this, of C v] Cons x show ?case
    by (simp del: fun_upd_apply)
qed simp

lemma contents_remove:
  assumes fin: "finite (dom m)" and "distinct (map fst xs)" and "\<And>k v. (k, v) \<in> set xs \<Longrightarrow> m k = Some v"
  shows "contents C m = contents C (m |` (- fst ` set xs)) + listed C xs"
proof -
  have "m = (m |` (- fst ` set xs)) ++ map_of xs"
  proof
    fix k
    show "m k = ((m |` (- fst ` set xs)) ++ map_of xs) k"
    proof (cases "map_of xs k")
      case None
      moreover from this have "k \<notin> fst ` set xs" by (simp add: map_of_eq_None_iff)
      ultimately show ?thesis by (simp add: map_add_def)
    next
      case (Some v)
      then show ?thesis using assms(3) by (simp add: map_add_def map_of_SomeD)
    qed
  qed
  then have "contents C m = contents C ((m |` (- fst ` set xs)) ++ map_of xs)" by simp
  also have "\<dots> = contents C (m |` (- fst ` set xs)) + listed C xs"
    using assms by (intro contents_add) auto
  finally show ?thesis .
qed

context queue_env
begin

lemma content_enc [simp]: "content C (enc x) = payload x"
  by (simp add: content_def)

lemma content_corrupt: "corrupt C v \<Longrightarrow> content C v = v"
  by (auto simp: corrupt_def content_def split: sum.splits)

lemma listed_dequeue:
  "listed C (enc_all enc (delivered C dl ys)) + listed C (enc_all enc (envelopes C q clk i ys)) = listed C ys"
proof (induction ys arbitrary: i)
  case (Cons x ys)
  obtain k v where x: "x = (k, v)" by (cases x)
  show ?case
  proof (cases "corrupt C v")
    case True
    with Cons x show ?thesis
      by (simp add: enc_all_def poison_def content_corrupt)
  next
    case False
    then have "payload (projr (bc_deserialize C v)) = content C v"
      by (auto simp: corrupt_def content_def split: sum.splits)
    with False Cons x show ?thesis
      by (simp add: enc_all_def Let_def)
  qed
qed (simp add: enc_all_def)

lemma listed_reap:
  "listed C (enc_all enc (reclaimed C now xs)) + listed C (enc_all enc (envelopes C q clk i xs)) =
   listed C (swept C now xs)"
proof (induction xs arbitrary: i)
  case (Cons x xs)
  obtain k v where x: "x = (k, v)" by (cases x)
  show ?case
  proof (cases "corrupt C v")
    case True
    with Cons x corrupt_not_expired [OF True, of now] show ?thesis
      by (simp add: enc_all_def reclaimed_def swept_def poison_def content_corrupt)
  next
    case False
    have "expired C now v \<Longrightarrow> payload (projr (bc_deserialize C v)) = content C v"
      by (auto simp: expired_def content_def split: sum.splits)
    with False Cons x show ?thesis
      by (simp add: enc_all_def reclaimed_def swept_def)
  qed
qed (simp add: enc_all_def reclaimed_def swept_def)

lemma listed_replay:
  "\<forall>(k, v) \<in> set xs. \<not> corrupt C v \<Longrightarrow> listed C (enc_all enc (replayed C s xs)) = listed C xs"
proof (induction xs arbitrary: s)
  case (Cons x xs)
  obtain k v where x: "x = (k, v)" by (cases x)
  with Cons.prems have "payload (projr (bc_deserialize C v)) = content C v"
    by (auto simp: corrupt_def content_def split: sum.splits)
  with Cons x show ?case by (simp add: enc_all_def Let_def)
qed (simp add: enc_all_def)

lemma listed_new: "listed C (enc_all enc (new_records q now uuid s i ps)) = mset ps"
  by (induction ps arbitrary: s i) (simp_all add: enc_all_def new_task_def)

lemma listed_rev [simp]: "listed C (rev xs) = listed C xs"
  by (simp add: listed_def rev_map)

section \<open>Conservation\<close>

lemma contents_enqueue:
  assumes inv: "tenant_inv C (unat s) P I D" and fin: "finite (dom P)"
    and wrap: "unat s + length ps < 2 ^ 64" and q: "name_ok q"
  shows "contents C (P ++ map_of (rev (enc_all enc (new_records q now uuid s 0 ps)))) = contents C P + mset ps"
proof -
  have "fst ` set (new_records q now uuid s 0 ps) \<inter> dom P = {}"
    using new_records_ok [OF _ wrap q] tenant_inv_keys [OF inv] by fastforce
  then have "fst ` set (rev (enc_all enc (new_records q now uuid s 0 ps))) \<inter> dom P = {}"
    using fst_enc_all [of enc "new_records q now uuid s 0 ps"] by (metis list.set_map set_rev)
  then show ?thesis
    using contents_add [OF fin, of "rev (enc_all enc (new_records q now uuid s 0 ps))"]
      distinct_new_records [OF wrap] by (simp add: listed_new rev_map [symmetric])
qed

lemma contents_dequeue:
  assumes inv: "tenant_inv C n P I D" and fin: "finite (dom P)" "finite (dom I)" "finite (dom D)"
    and ys: "prefix ys (entries P q)"
  shows "tenant_contents C (P |` (- fst ` set ys)) (I ++ map_of (enc_all enc (delivered C dl ys)))
      (D ++ map_of (enc_all enc (envelopes C q clk 0 ys))) = tenant_contents C P I D"
proof -
  have mem: "P k = Some v" if "(k, v) \<in> set ys" for k v
    using set_mono_prefix [OF ys] that set_entries [OF fin(1)] by blast
  have dist: "distinct (map fst ys)" by (rule distinct_map_prefix [OF distinct_entries ys])
  have keys: "fst ` set ys \<subseteq> dom P" using mem by fastforce
  have dj: "fst ` set ys \<inter> dom I = {}" "fst ` set ys \<inter> dom D = {}"
    using inv by (simp_all add: disjoint_sub [OF keys] tenant_inv_def disjoint3_def)
  have "contents C P = contents C (P |` (- fst ` set ys)) + listed C ys"
    by (rule contents_remove [OF fin(1) dist mem])
  moreover have "contents C (I ++ map_of (enc_all enc (delivered C dl ys))) =
      contents C I + listed C (enc_all enc (delivered C dl ys))"
    using fst_subset [OF fst_delivered, of C dl ys] dj(1)
    by (intro contents_add fin) (auto simp: fst_delivered distinct_filter_fst [OF dist] dom_enc_all [symmetric]
        simp flip: dom_map_of_conv_image_fst)
  moreover have "contents C (D ++ map_of (enc_all enc (envelopes C q clk 0 ys))) =
      contents C D + listed C (enc_all enc (envelopes C q clk 0 ys))"
    using fst_subset [OF fst_envelopes, of C q clk 0 ys] dj(2)
    by (intro contents_add fin) (auto simp: fst_envelopes distinct_filter_fst [OF dist] dom_enc_all [symmetric]
        simp flip: dom_map_of_conv_image_fst)
  ultimately show ?thesis
    using listed_dequeue [of dl ys q clk 0] by (simp add: tenant_contents_def ac_simps)
qed

lemma contents_reap:
  assumes inv: "tenant_inv C n P I D" and fin: "finite (dom P)" "finite (dom I)" "finite (dom D)"
  shows "tenant_contents C (P ++ map_of (enc_all enc (reclaimed C now (entries I q))))
      (I |` (- fst ` set (swept C now (entries I q))))
      (D ++ map_of (enc_all enc (envelopes C q clk 0 (entries I q)))) = tenant_contents C P I D"
proof -
  let ?xs = "entries I q"
  have mem: "I k = Some v" if "(k, v) \<in> set (swept C now ?xs)" for k v
    using that set_entries [OF fin(2)] by (auto simp: swept_def)
  have dist: "distinct (map fst (swept C now ?xs))"
    unfolding swept_def by (rule distinct_filter_fst [OF distinct_entries])
  have keys: "fst ` set (swept C now ?xs) \<subseteq> dom I" using mem by fastforce
  have "dom I \<inter> dom P = {}" "dom I \<inter> dom D = {}"
    using inv by (simp_all add: tenant_inv_def disjoint3_def Int_commute)
  note dj = disjoint_sub [OF keys this(1)] disjoint_sub [OF keys this(2)]
  have "contents C I = contents C (I |` (- fst ` set (swept C now ?xs))) + listed C (swept C now ?xs)"
    by (rule contents_remove [OF fin(2) dist mem])
  moreover have "contents C (P ++ map_of (enc_all enc (reclaimed C now ?xs))) =
      contents C P + listed C (enc_all enc (reclaimed C now ?xs))"
    using disjoint_sub [OF swept_keys(1) dj(1)]
    by (intro contents_add fin) (auto simp: fst_reclaimed distinct_filter_fst [OF distinct_entries] dom_enc_all [symmetric]
        simp flip: dom_map_of_conv_image_fst)
  moreover have "contents C (D ++ map_of (enc_all enc (envelopes C q clk 0 ?xs))) =
      contents C D + listed C (enc_all enc (envelopes C q clk 0 ?xs))"
    using disjoint_sub [OF swept_keys(2) dj(2)]
    by (intro contents_add fin) (auto simp: fst_envelopes distinct_filter_fst [OF distinct_entries] dom_enc_all [symmetric]
        simp flip: dom_map_of_conv_image_fst)
  ultimately show ?thesis
    using listed_reap [of now ?xs q clk 0] by (simp add: tenant_contents_def ac_simps)
qed

lemma contents_remove1:
  "finite (dom m) \<Longrightarrow> m k = Some v \<Longrightarrow> contents C m = add_mset (content C v) (contents C (m(k := None)))"
  using contents_upd [of "m(k := None)" k C v] by (simp add: map_upd_triv)

text \<open>Handing a task back: whatever becomes of it, its content stays with the tenant.\<close>

lemma contents_nack:
  assumes inv: "tenant_inv C (unat s) P I D" and fin: "finite (dom P)" "finite (dom I)" "finite (dom D)"
  shows "case nack_fate_of C now I k of
      NotInflight \<Rightarrow> I k = None
    | ToDlq e \<Rightarrow> tenant_contents C P (I(k := None)) (D(k \<mapsto> enc e)) = tenant_contents C P I D
    | ToDlqRaw v \<Rightarrow> tenant_contents C P (I(k := None)) (D(k \<mapsto> v)) = tenant_contents C P I D
    | Retried x \<Rightarrow> tenant_contents C (P(encode_key (task_queue x) s \<mapsto> enc x)) (I(k := None)) D
        = tenant_contents C P I D"
proof (cases "I k")
  case None
  then show ?thesis by (simp add: nack_fate_of_def)
next
  case (Some v)
  note rm = contents_remove1 [OF fin(2) Some]
  have "k \<notin> dom D" using inv Some by (auto simp: tenant_inv_def disjoint3_def)
  note upd = contents_upd [OF fin(3) this, of C]
  have ok: "key_ok (unat s) k" "filed C k v"
    using inv Some by (auto simp: tenant_inv_def inflight_ok_def dest: all_kvD)
  show ?thesis
  proof (cases "bc_deserialize C v")
    case (Inl e)
    with Some rm upd show ?thesis
      by (simp add: nack_fate_of_def tenant_contents_def poison_def content_def)
  next
    case (Inr x)
    then have "task_queue x = key_queue k" "name_ok (key_queue k)"
      using ok key_queue_name by (simp_all add: filed_def)
    then have "encode_key (task_queue x) s \<notin> dom P"
      using tenant_inv_fresh [OF inv, of s "task_queue x"] by simp
    from contents_upd [OF fin(1) this, of C] rm upd Some Inr show ?thesis
      by (auto simp: nack_fate_of_def tenant_contents_def content_def)
  qed
qed

lemma listed_kv_list: "finite (dom m) \<Longrightarrow> listed C (kv_list m) = contents C m"
  using contents_add [of Map.empty "kv_list m" C] by (simp add: distinct_kv_list map_of_kv_list)

lemma contents_replay:
  assumes inv: "tenant_inv C (unat s) P I D" and fin: "finite (dom P)" "finite (dom D)"
    and wrap: "unat s + card (dom D) < 2 ^ 64"
  shows "tenant_contents C (P ++ map_of (rev (enc_all enc (replayed C s (kv_list D))))) I Map.empty
    = tenant_contents C P I D"
proof -
  let ?xs = "replayed C s (kv_list D)"
  have "fst ` set ?xs \<inter> dom P = {}"
    using replayed_ok [OF inv fin(2) wrap] tenant_inv_keys [OF inv] by fastforce
  then have dj: "fst ` set (rev (enc_all enc ?xs)) \<inter> dom P = {}"
    using fst_enc_all [of enc ?xs] by (metis list.set_map set_rev)
  have "inj_on (\<lambda>j. fst (?xs ! j)) {..<length ?xs}"
  proof (rule inj_onI)
    fix i j
    assume ij: "i \<in> {..<length ?xs}" "j \<in> {..<length ?xs}" "fst (?xs ! i) = fst (?xs ! j)"
    then have "s + of_nat i = s + of_nat j" by (simp add: nth_replayed Let_def)
    moreover have "unat (s + of_nat i) = unat s + i" "unat (s + of_nat j) = unat s + j"
      using ij seq_no_wrap [OF wrap] by (simp_all add: length_kv_list)
    ultimately show "i = j" by (metis add_left_cancel)
  qed
  then have "distinct (map fst ?xs)"
    by (auto simp: distinct_conv_nth inj_on_def)
  then have "contents C (P ++ map_of (rev (enc_all enc ?xs))) = contents C P + listed C (enc_all enc ?xs)"
    using contents_add [OF fin(1) _ dj] by (simp add: rev_map [symmetric])
  moreover have "\<forall>(k, v) \<in> set (kv_list D). \<not> corrupt C v"
    using inv fin(2) by (auto simp: set_kv_list tenant_inv_def letter_ok_def dest: all_kvD)
  ultimately show ?thesis
    by (simp add: tenant_contents_def listed_replay listed_kv_list [OF fin(2)] ac_simps)
qed

end

end
