(* ===== verification/Rq_Lifecycle.thy ===== *)
theory Rq_Lifecycle
  imports Rq_Reaper_Facts
begin

text \<open>
  Tenants over time: what provisioning, dropping and changing a policy do, and that opening a
  database again brings back the tenants and policies it was closed with.
\<close>

section \<open>Keys of persisted policies\<close>

lemma meta_key_inj [simp]: "meta_key t = meta_key u \<longleftrightarrow> t = u"
  by (simp add: meta_key_def)

lemma prefix_meta_key [simp]: "prefix TENANT_META_PREFIX (meta_key t)"
  by (simp add: meta_key_def)

lemma drop_meta_key [simp]: "drop (length TENANT_META_PREFIX) (meta_key t) = as_bytes t"
  by (simp add: meta_key_def)

locale registry_env = kv_store R view + bincode PC
  for R :: "'db rocksdb" and view and PC :: "namespace_policy codec"

locale reliable_registry = reliable_store R view + bincode PC
  for R :: "'db rocksdb" and view and PC :: "namespace_policy codec"

sublocale reliable_registry \<subseteq> renv: registry_env R view PC
  by unfold_locales

section \<open>Effects\<close>

lemma only_db_trans:
  "g1 = g\<lparr>db := db g1\<rparr> \<Longrightarrow> g2 = g1\<lparr>db := db g2\<rparr> \<Longrightarrow> g2 = g\<lparr>db := db g2\<rparr>"
  by (cases g, cases g1, cases g2) simp

lemma only_db_rest: "g' = g\<lparr>db := d\<rparr> \<Longrightarrow> policies g' = policies g \<and> seq g' = seq g"
  by simp

context registry_env
begin

text \<open>Column families of a view after a tenant came or went, and the record of its policy.\<close>

definition with_tenant where
  "with_tenant V t = V(cf_pending t \<mapsto> Map.empty, cf_inflight t \<mapsto> Map.empty, cf_dlq t \<mapsto> Map.empty)"

definition without_tenant where
  "without_tenant V t = V(cf_pending t := None, cf_inflight t := None, cf_dlq t := None)"

definition with_meta :: "(string \<Rightarrow> kv option) \<Rightarrow> string \<Rightarrow> bytes option \<Rightarrow> (string \<Rightarrow> kv option)" where
  "with_meta V t v = V(CF_SYSTEM := map_option (\<lambda>m. m(meta_key t := v)) (V CF_SYSTEM))"

lemma put_meta_outcome:
  assumes "put_meta R PC g t p = (Inr u, g')"
  shows "g' = g\<lparr>db := db g'\<rparr> \<and> view (db g) CF_SYSTEM \<noteq> None \<and>
    view (db g') = with_meta (view (db g)) t (Some (enc p)) \<and>
    registered_filter R (db g') = registered_filter R (db g)"
  using assms put_view [of "db g"] filter_put [of "db g"]
  by (auto simp: put_meta_def with_meta_def cf_handle_view lift_db_def
      split: if_splits sum.splits)

lemma lift_db_Inr: "lift_db r g = (Inr u, g') \<longleftrightarrow> r = Inr (db g') \<and> g' = g\<lparr>db := db g'\<rparr>"
  by (auto simp: lift_db_def split: sum.splits)

lemma bind_op_Inr: "bind_op r f = (Inr x, g') \<longleftrightarrow> (\<exists>a g1. r = (Inr a, g1) \<and> f a g1 = (Inr x, g'))"
  by (cases r) (auto simp: bind_op_def split: sum.splits)

lemma provision_outcome:
  assumes "provision_tenant R PC g t p = (Inr u, g')"
  shows "view (db g) (cf_pending t) = None \<and> view (db g) (cf_inflight t) = None \<and> view (db g) (cf_dlq t) = None \<and>
    view (db g) CF_SYSTEM \<noteq> None \<and>
    g' = g\<lparr>db := db g', policies := (policies g)(t \<mapsto> p)\<rparr> \<and>
    view (db g') = with_meta (with_tenant (view (db g)) t) t (Some (enc p)) \<and>
    registered_filter R (db g') = (registered_filter R (db g))
      (cf_pending t \<mapsto> PendingFilter (pending_retention_secs (np_retention p)),
       cf_inflight t \<mapsto> InflightFilter (inflight_stale_secs (np_retention p)),
       cf_dlq t \<mapsto> DlqFilter (dlq_retention_secs (np_retention p)))"
proof -
  let ?o = "\<lambda>f. f (block_cache g) (write_buffer_bytes g) (max_write_buffers g) (np_retention p)"
  obtain g1 g2 g3 g4 where
    1: "create_cf R (db g) (cf_pending t) (?o pending_opts) = Inr (db g1)" "g1 = g\<lparr>db := db g1\<rparr>" and
    2: "create_cf R (db g1) (cf_inflight t) (?o inflight_opts) = Inr (db g2)" "g2 = g1\<lparr>db := db g2\<rparr>" and
    3: "create_cf R (db g2) (cf_dlq t) (?o dlq_opts) = Inr (db g3)" "g3 = g2\<lparr>db := db g3\<rparr>" and
    4: "put_meta R PC g3 t p = (Inr (), g4)" and
    5: "g' = g4\<lparr>policies := (policies g4)(t \<mapsto> p)\<rparr>"
    using assms by (auto simp: provision_tenant_def Let_def bind_op_Inr lift_db_Inr)
  note v = create_view [OF 1(1)] create_view [OF 2(1)] create_view [OF 3(1)] put_meta_outcome [OF 4]
  have f: "registered_filter R (db g4) = (registered_filter R (db g))
      (cf_pending t \<mapsto> PendingFilter (pending_retention_secs (np_retention p)),
       cf_inflight t \<mapsto> InflightFilter (inflight_stale_secs (np_retention p)),
       cf_dlq t \<mapsto> DlqFilter (dlq_retention_secs (np_retention p)))"
    using v(4) filter_create [OF 1(1)] filter_create [OF 2(1)] filter_create [OF 3(1)]
    by (simp add: pending_opts_def inflight_opts_def dlq_opts_def cf_options_with_filter_def)
  have "g4 = g\<lparr>db := db g4\<rparr>"
    using only_db_trans [OF only_db_trans [OF only_db_trans [OF 1(2) 2(2)] 3(2)] conjunct1 [OF v(4)]] .
  then have "g' = g\<lparr>db := db g', policies := (policies g)(t \<mapsto> p)\<rparr>"
    using 5 by (cases g, cases g4) simp
  with v f 5 show ?thesis
    by (auto simp: with_meta_def with_tenant_def)
qed

lemma drop_outcome:
  assumes "drop_tenant R g t = (Inr u, g')"
  shows "view (db g) (cf_pending t) \<noteq> None \<and> view (db g) (cf_inflight t) \<noteq> None \<and> view (db g) (cf_dlq t) \<noteq> None \<and>
    view (db g) CF_SYSTEM \<noteq> None \<and> policies g' = (policies g)(t := None) \<and> seq g' = seq g \<and>
    view (db g') = with_meta (without_tenant (view (db g)) t) t None"
proof -
  obtain g1 g2 g3 g4 where
    1: "drop_cf R (db g) (cf_pending t) = Inr (db g1)" "g1 = g\<lparr>db := db g1\<rparr>" and
    2: "drop_cf R (db g1) (cf_inflight t) = Inr (db g2)" "g2 = g1\<lparr>db := db g2\<rparr>" and
    3: "drop_cf R (db g2) (cf_dlq t) = Inr (db g3)" "g3 = g2\<lparr>db := db g3\<rparr>" and
    4: "cf_handle R (db g3) CF_SYSTEM" and
    5: "delete_cf_opt R (db g3) admin_write_opts CF_SYSTEM (meta_key t) = Inr (db g4)" "g4 = g3\<lparr>db := db g4\<rparr>" and
    6: "db g' = db g4" "policies g' = (policies g4)(t := None)" "seq g' = seq g4"
    using assms by (auto simp: drop_tenant_def bind_op_Inr lift_db_Inr split: if_splits)
  have "policies g4 = policies g \<and> seq g4 = seq g"
    by (rule only_db_rest [OF only_db_trans [OF only_db_trans [OF only_db_trans [OF 1(2) 2(2)] 3(2)] 5(2)]])
  with drop_view [OF 1(1)] drop_view [OF 2(1)] drop_view [OF 3(1)] delete_view [OF 5(1)] 4 6 show ?thesis
    by (auto simp: cf_handle_view with_meta_def without_tenant_def)
qed

end

section \<open>Persistence\<close>

text \<open>
  The database on disk agrees with the table of policies: it has exactly the column families of
  the listed tenants, and below the key prefix of policies exactly their records.
\<close>

definition tenant_cfs :: "(string \<rightharpoonup> namespace_policy) \<Rightarrow> string set" where
  "tenant_cfs M = (\<Union>t \<in> dom M. {cf_pending t, cf_inflight t, cf_dlq t})"

context registry_env
begin

definition meta_of where
  "meta_of M S \<longleftrightarrow>
     (\<forall>k v. prefix TENANT_META_PREFIX k \<longrightarrow> S k = Some v \<longrightarrow> (\<exists>t p. k = meta_key t \<and> M t = Some p \<and> v = enc p)) \<and>
     (\<forall>t p. M t = Some p \<longrightarrow> S (meta_key t) = Some (enc p) \<and> utf8_valid (as_bytes t))"

definition persisted where
  "persisted V M \<longleftrightarrow> dom V = {''default'', CF_SYSTEM} \<union> tenant_cfs M \<and>
     (\<exists>S. V CF_SYSTEM = Some S \<and> meta_of M S)"

lemma meta_of_insert: "meta_of M S \<Longrightarrow> utf8_valid (as_bytes t) \<Longrightarrow> meta_of (M(t \<mapsto> p)) (S(meta_key t \<mapsto> enc p))"
  unfolding meta_of_def by (auto split: if_splits) fastforce

lemma meta_of_delete: "meta_of M S \<Longrightarrow> meta_of (M(t := None)) (S(meta_key t := None))"
  unfolding meta_of_def by (auto split: if_splits) fastforce+

lemma tenant_cfs_upd [simp]: "tenant_cfs (M(t \<mapsto> p)) = {cf_pending t, cf_inflight t, cf_dlq t} \<union> tenant_cfs M"
  by (auto simp: tenant_cfs_def)

lemma tenant_cfs_del: "tenant_cfs (M(t := None)) = tenant_cfs M - {cf_pending t, cf_inflight t, cf_dlq t}"
  by (auto simp: tenant_cfs_def)

lemma dom_with_meta [simp]: "dom (with_meta V t v) = dom V"
  by (auto simp: with_meta_def dom_def)

lemma dom_with_tenant [simp]: "dom (with_tenant V t) = {cf_pending t, cf_inflight t, cf_dlq t} \<union> dom V"
  by (auto simp: with_tenant_def dom_def)

lemma dom_without_tenant [simp]: "dom (without_tenant V t) = dom V - {cf_pending t, cf_inflight t, cf_dlq t}"
  by (auto simp: without_tenant_def dom_def)

lemma provision_persisted:
  assumes "persisted (view (db g)) (policies g)" and "utf8_valid (as_bytes t)"
    and "provision_tenant R PC g t p = (Inr u, g')"
  shows "persisted (view (db g')) (policies g')"
proof -
  note out = provision_outcome [OF assms(3)]
  obtain S where S: "view (db g) CF_SYSTEM = Some S" "meta_of (policies g) S"
    using assms(1) by (auto simp: persisted_def)
  have V: "view (db g') = with_meta (with_tenant (view (db g)) t) t (Some (enc p))" using out by blast
  have M: "policies g' = (policies g)(t \<mapsto> p)"
    using out by (metis registry.select_convs(7) registry.surjective registry.update_convs(7))
  have "view (db g') CF_SYSTEM = Some (S(meta_key t \<mapsto> enc p))"
    using V S(1) by (simp add: with_meta_def with_tenant_def)
  moreover have "dom (view (db g')) = {''default'', CF_SYSTEM} \<union> tenant_cfs (policies g')"
    using assms(1) by (auto simp: V M persisted_def)
  ultimately show ?thesis
    using meta_of_insert [OF S(2) assms(2)] M by (auto simp: persisted_def)
qed

lemma drop_persisted:
  assumes "persisted (view (db g)) (policies g)" and "drop_tenant R g t = (Inr u, g')"
  shows "persisted (view (db g')) (policies g')"
proof -
  note out = drop_outcome [OF assms(2)]
  obtain S where S: "view (db g) CF_SYSTEM = Some S" "meta_of (policies g) S"
    using assms(1) by (auto simp: persisted_def)
  have V: "view (db g') = with_meta (without_tenant (view (db g)) t) t None" using out by blast
  have M: "policies g' = (policies g)(t := None)" using out by blast
  have "view (db g') CF_SYSTEM = Some (S(meta_key t := None))"
    using V S(1) by (simp add: with_meta_def without_tenant_def)
  moreover have "dom (view (db g')) = {''default'', CF_SYSTEM} \<union> tenant_cfs (policies g')"
    using assms(1) by (auto simp: V M persisted_def tenant_cfs_del)
  ultimately show ?thesis
    using meta_of_delete [OF S(2)] M by (auto simp: persisted_def)
qed

lemma policy_persisted:
  assumes "persisted (view (db g)) (policies g)" and "update_namespace_policy R PC g t p = (Inr u, g')"
  shows "persisted (view (db g')) (policies g')"
proof -
  obtain g1 where 1: "policies g t \<noteq> None" "put_meta R PC g t p = (Inr (), g1)"
    "g' = g1\<lparr>policies := (policies g1)(t \<mapsto> p)\<rparr>"
    using assms(2) by (auto simp: update_namespace_policy_def bind_op_Inr split: if_splits)
  note out = put_meta_outcome [OF 1(2)]
  have M: "policies g' = (policies g)(t \<mapsto> p)"
    using only_db_rest [OF conjunct1 [OF out]] 1(3) by simp
  have V: "view (db g') = with_meta (view (db g)) t (Some (enc p))" using out 1(3) by simp
  obtain S where S: "view (db g) CF_SYSTEM = Some S" "meta_of (policies g) S"
    using assms(1) by (auto simp: persisted_def)
  then have "utf8_valid (as_bytes t)" using 1(1) by (auto simp: meta_of_def)
  note ins = meta_of_insert [OF S(2) this]
  have "{cf_pending t, cf_inflight t, cf_dlq t} \<subseteq> tenant_cfs (policies g)"
    using 1(1) by (auto simp: tenant_cfs_def dom_def)
  then have "dom (view (db g')) = {''default'', CF_SYSTEM} \<union> tenant_cfs (policies g')"
    using assms(1) by (auto simp: V M persisted_def)
  with ins S(1) show ?thesis by (auto simp: persisted_def V M with_meta_def)
qed

end

section \<open>Opening a database again\<close>

text \<open>What the scan over the persisted policies collects.\<close>

definition loaded :: "namespace_policy codec \<Rightarrow> (bytes \<times> bytes) list \<Rightarrow> (string \<times> namespace_policy) list" where
  "loaded PC xs = map (\<lambda>(k, v). (from_utf8_lossy (drop (length TENANT_META_PREFIX) k), projr (bc_deserialize PC v))) xs"

lemma load_loop_total:
  "\<forall>(k, v) \<in> set (takeWhile (\<lambda>(k, v). prefix TENANT_META_PREFIX k) xs). \<not> isl (bc_deserialize PC v) \<Longrightarrow>
   load_loop PC (map Inr xs) acc = Inr (acc @ loaded PC (takeWhile (\<lambda>(k, v). prefix TENANT_META_PREFIX k) xs))"
proof (induction xs arbitrary: acc)
  case (Cons x xs)
  obtain k v where x: "x = (k, v)" by (cases x)
  show ?case
  proof (cases "prefix TENANT_META_PREFIX k")
    case True
    with Cons.prems x obtain p where "bc_deserialize PC v = Inr p"
      by (cases "bc_deserialize PC v") auto
    with True Cons x show ?thesis by (simp add: loaded_def)
  next
    case False
    with x show ?thesis by (simp add: loaded_def)
  qed
qed (simp add: loaded_def)

lemma takeWhile_kv_prefix:
  assumes fin: "finite (dom m)"
  shows "takeWhile (\<lambda>(k, v). prefix p k) (kv_list (m |` {k. p \<le> k})) = kv_list (m |` {k. prefix p k})"
proof -
  let ?xs = "kv_list (m |` {k. p \<le> k})"
  have fin': "finite (dom (m |` {k. p \<le> k}))" using fin by simp
  have "fst ` set ?xs = dom m \<inter> {k. p \<le> k}"
    using fst_kv_list [of "m |` {k. p \<le> k}"] fin' by (simp flip: set_map)
  then have "takeWhile (\<lambda>(k, v). prefix p k) ?xs = filter (\<lambda>(k, v). prefix p k) ?xs"
    by (intro takeWhile_prefix sorted_kv_list) auto
  also have "\<dots> = kv_list (m |` {k. p \<le> k} |` {k. prefix p k})"
    by (rule filter_kv_list [OF fin'])
  also have "m |` {k. p \<le> k} |` {k. prefix p k} = m |` {k. prefix p k}"
    using prefix_le by (auto simp: restrict_map_def fun_eq_iff)
  finally show ?thesis .
qed

lemma fold_policies: "fold (\<lambda>(t, p) m. m(t \<mapsto> p)) xs m = m ++ map_of (rev xs)"
  by (induction xs arbitrary: m) auto

context registry_env
begin

text \<open>The policies found on disk are those of the table.\<close>

lemma loaded_policies:
  assumes S: "meta_of M S" and fin: "finite (dom S)"
  defines "T \<equiv> loaded PC (kv_list (S |` {k. prefix TENANT_META_PREFIX k}))"
  shows "(t, p) \<in> set T \<longleftrightarrow> M t = Some p" and "distinct (map fst T)"
proof -
  let ?m = "S |` {k. prefix TENANT_META_PREFIX k}"
  have fin': "finite (dom ?m)" using fin by simp
  have mem: "\<exists>t p. k = meta_key t \<and> M t = Some p \<and> v = enc p \<and> utf8_valid (as_bytes t)"
    if mem: "(k, v) \<in> set (kv_list ?m)" for k v
  proof -
    have k: "prefix TENANT_META_PREFIX k" "S k = Some v"
      using mem by (simp_all add: set_kv_list [OF fin'])
    from S [unfolded meta_of_def, THEN conjunct1, rule_format, OF k] obtain t p where
      tp: "k = meta_key t" "M t = Some p" "v = enc p" by blast
    from S [unfolded meta_of_def, THEN conjunct2, rule_format, OF tp(2)] tp show ?thesis by blast
  qed
  show "(t, p) \<in> set T \<longleftrightarrow> M t = Some p"
  proof
    assume "(t, p) \<in> set T"
    then obtain k v where kv: "(k, v) \<in> set (kv_list ?m)"
      and tp: "t = from_utf8_lossy (drop (length TENANT_META_PREFIX) k)" "p = projr (bc_deserialize PC v)"
      by (auto simp: T_def loaded_def)
    from mem [OF kv] tp show "M t = Some p" by (auto simp: from_utf8_lossy_as_bytes)
  next
    assume M: "M t = Some p"
    then have "(meta_key t, enc p) \<in> set (kv_list ?m)" "utf8_valid (as_bytes t)"
      using S fin' by (auto simp: set_kv_list meta_of_def)
    then show "(t, p) \<in> set T"
      by (force simp: T_def loaded_def from_utf8_lossy_as_bytes)
  qed
  have "inj_on (\<lambda>(k, v). from_utf8_lossy (drop (length TENANT_META_PREFIX) k)) (set (kv_list ?m))"
  proof (rule inj_onI, clarify)
    fix k v k' v'
    assume a: "(k, v) \<in> set (kv_list ?m)" "(k', v') \<in> set (kv_list ?m)"
      and eq: "from_utf8_lossy (drop (length TENANT_META_PREFIX) k) = from_utf8_lossy (drop (length TENANT_META_PREFIX) k')"
    from mem [OF a(1)] mem [OF a(2)] eq show "k = k' \<and> v = v'"
      by (auto simp: from_utf8_lossy_as_bytes)
  qed
  moreover have "distinct (kv_list ?m)" using distinct_kv_list [of ?m] by (simp add: distinct_map)
  moreover have "map fst T = map (\<lambda>(k, v). from_utf8_lossy (drop (length TENANT_META_PREFIX) k)) (kv_list ?m)"
    by (simp add: T_def loaded_def comp_def case_prod_beta)
  ultimately show "distinct (map fst T)" by (simp add: distinct_map)
qed

lemma descriptor_names:
  "map fst (concat (map (tenant_descriptors cfg) T)) =
   concat (map (\<lambda>t. [cf_pending t, cf_inflight t, cf_dlq t]) (map fst T))"
  by (induction T) (auto simp: tenant_descriptors_def Let_def)

lemma set_descriptor_names:
  "fst ` set (concat (map (tenant_descriptors cfg) T)) =
     (\<Union>t \<in> fst ` set T. {cf_pending t, cf_inflight t, cf_dlq t})"
proof -
  have "set (map fst (concat (map (tenant_descriptors cfg) T))) =
      (\<Union>t \<in> fst ` set T. {cf_pending t, cf_inflight t, cf_dlq t})"
    unfolding descriptor_names by auto
  then show ?thesis by simp
qed

lemma distinct_cf_names:
  "distinct ts \<Longrightarrow> distinct (CF_SYSTEM # concat (map (\<lambda>t. [cf_pending t, cf_inflight t, cf_dlq t]) ts))"
  by (induction ts) auto

lemma distinct_descriptors:
  "distinct (map fst T) \<Longrightarrow>
   distinct (map fst ((CF_SYSTEM, system_cf_opts) # concat (map (tenant_descriptors cfg) T)))"
  using distinct_cf_names [of "map fst T"] unfolding list.map descriptor_names by simp

end

context reliable_registry
begin

lemma load_persisted:
  assumes "renv.persisted (view d) M"
  obtains T where "load_persisted_tenants R PC d = Inr T"
    and "\<And>t p. (t, p) \<in> set T \<longleftrightarrow> M t = Some p" and "distinct (map fst T)"
proof -
  obtain S where S: "view d CF_SYSTEM = Some S" "renv.meta_of M S"
    and dom: "dom (view d) = {''default'', CF_SYSTEM} \<union> tenant_cfs M"
    using assms by (auto simp: renv.persisted_def)
  have fin: "finite (dom S)" using S(1) view_finite by blast
  obtain cfs where cfs: "list_cf R d = Inr cfs" "set cfs = dom (view d)"
    using list_total [of d CF_SYSTEM] list_view S(1) by fastforce
  let ?ds = "map (\<lambda>n. (n, default_options)) cfs"
  have names: "fst ` set ?ds = dom (view d)" using cfs(2) by force
  obtain d1 where d1: "open_cf R d False ?ds = Inr d1"
    using open_total [of d ?ds False] names dom by auto
  have v1: "view d1 = view d"
    using open_view [OF d1] names dom by (auto simp: fun_eq_iff)
  let ?T = "loaded PC (kv_list (S |` {k. prefix TENANT_META_PREFIX k}))"
  have ok: "\<forall>(k, v) \<in> set (kv_list (S |` {k. prefix TENANT_META_PREFIX k})). \<not> isl (bc_deserialize PC v)"
    using S(2) fin by (fastforce simp: set_kv_list renv.meta_of_def)
  have sys: "view d1 CF_SYSTEM = Some S" using S(1) v1 by simp
  have "load_loop PC (iterator_from R d1 CF_SYSTEM TENANT_META_PREFIX) [] = Inr ?T"
    unfolding from_eq [OF sys]
    using load_loop_total [of "kv_list (S |` {k. TENANT_META_PREFIX \<le> k})" PC "[]"] ok
    by (simp add: takeWhile_kv_prefix [OF fin])
  moreover have "CF_SYSTEM \<in> set cfs" using cfs(2) S(1) by auto
  ultimately have "load_persisted_tenants R PC d = Inr ?T"
    using cfs(1) d1 sys by (simp add: load_persisted_tenants_def cf_handle_view)
  then show thesis
    by (rule that) (rule renv.loaded_policies [OF S(2) fin])+
qed

text \<open>
  A database that agrees with a table of policies opens, with that table and with every column
  family as it was left.
\<close>

lemma reopen:
  assumes "renv.persisted (view d) M"
  obtains g where "open_registry R PC now d cfg = Inr g" and "policies g = M" and "view (db g) = view d"
    and "seq g = now"
    and "\<And>t p. M t = Some p \<Longrightarrow>
      registered_filter R (db g) (cf_pending t) = Some (PendingFilter (pending_retention_secs (np_retention p)))"
proof -
  obtain T where T: "load_persisted_tenants R PC d = Inr T" "\<And>t p. (t, p) \<in> set T \<longleftrightarrow> M t = Some p"
    "distinct (map fst T)"
    using load_persisted [OF assms] by blast
  let ?ds = "(CF_SYSTEM, system_cf_opts) # concat (map (tenant_descriptors cfg) T)"
  have "fst ` set T = dom M" using T(2) by force
  then have names: "insert ''default'' (fst ` set ?ds) = dom (view d)"
    using assms renv.set_descriptor_names [of cfg T]
    by (auto simp: renv.persisted_def tenant_cfs_def simp del: set_concat)
  obtain d' where d': "open_cf R d True ?ds = Inr d'"
    using open_total [of d ?ds True] names by auto
  have v: "view d' = view d"
    using open_view [OF d', unfolded names] by (auto simp: fun_eq_iff dom_def)
  have "Map.empty ++ map_of (rev T) = M"
  proof
    fix t
    have "map_of T t = M t"
      using T(2,3) by (cases "M t") (auto simp: map_of_eq_None_iff)
    then show "(Map.empty ++ map_of (rev T)) t = M t"
      using map_of_rev_distinct [OF T(3)] by simp
  qed
  note M = this
  have filters: "registered_filter R d' (cf_pending t) = Some (PendingFilter (pending_retention_secs (np_retention p)))"
    if "M t = Some p" for t p
  proof -
    let ?o = "pending_opts (cfg_block_cache_bytes cfg) (cfg_write_buffer_bytes cfg) (cfg_max_write_buffers cfg) (np_retention p)"
    have "(t, p) \<in> set T" using T(2) that by simp
    then have "(cf_pending t, ?o) \<in> set ?ds"
      by (force simp: tenant_descriptors_def Let_def)
    from filter_open [OF d' renv.distinct_descriptors [OF T(3)] this] show ?thesis
      by (simp add: pending_opts_def cf_options_with_filter_def)
  qed
  define g where "g = \<lparr>db = d', seq = now, block_cache = cfg_block_cache_bytes cfg,
    write_buffer_bytes = cfg_write_buffer_bytes cfg, max_write_buffers = cfg_max_write_buffers cfg,
    counters = new_counters, policies = M, queue_locks = {}, ack_locks = {}\<rparr>"
  have "open_registry R PC now d cfg = Inr g"
    using d' T(1) M by (simp add: open_registry_def fold_policies g_def)
  then show thesis
    by (rule that) (simp_all add: g_def v filters)
qed

lemma registry_env: "registry_env R view PC"
  by unfold_locales

text \<open>Provisioning on a reliable store: it succeeds for a new tenant and is refused for an existing one.\<close>

lemma provision_total:
  assumes "view (db g) (cf_pending t) = None" "view (db g) (cf_inflight t) = None" "view (db g) (cf_dlq t) = None"
    and "view (db g) CF_SYSTEM \<noteq> None"
  shows "\<exists>g'. provision_tenant R PC g t p = (Inr (), g')"
proof -
  let ?o = "\<lambda>f. f (block_cache g) (write_buffer_bytes g) (max_write_buffers g) (np_retention p)"
  obtain d1 where 1: "create_cf R (db g) (cf_pending t) (?o pending_opts) = Inr d1"
    using create_total [OF assms(1)] by blast
  obtain d2 where 2: "create_cf R d1 (cf_inflight t) (?o inflight_opts) = Inr d2"
    using create_total [of d1 "cf_inflight t"] create_view [OF 1] assms(2) by auto
  obtain d3 where 3: "create_cf R d2 (cf_dlq t) (?o dlq_opts) = Inr d3"
    using create_total [of d2 "cf_dlq t"] create_view [OF 1] create_view [OF 2] assms(3) by auto
  have s: "view d3 CF_SYSTEM \<noteq> None"
    using create_view [OF 1] create_view [OF 2] create_view [OF 3] assms(4) by simp
  then obtain d4 where "put_cf_opt R d3 admin_write_opts CF_SYSTEM (meta_key t) (enc p) = Inr d4"
    using put_total by blast
  with 1 2 3 s show ?thesis
    by (simp add: provision_tenant_def Let_def put_meta_def cf_handle_view)
qed

end

context registry_env
begin

lemma provision_twice:
  "view (db g) (cf_pending t) \<noteq> None \<Longrightarrow> \<exists>e. provision_tenant R PC g t p = (Inl e, g)"
  by (cases "create_cf R (db g) (cf_pending t)
        (pending_opts (block_cache g) (write_buffer_bytes g) (max_write_buffers g) (np_retention p))")
    (auto simp: provision_tenant_def Let_def dest: create_view)

end

end
