(* ===== verification/Rq_Contracts.thy ===== *)
theory Rq_Contracts
  imports Rq_Conservation Rq_Lifecycle
begin

text \<open>
  The contracts of the queue operations in the form a client uses them: on a reliable store the
  operation returns, with this result and these maps; on a store that may fail, an error leaves
  the database as it was. The statements join the facts of the preceding theories.
\<close>

definition stored :: "task codec \<Rightarrow> (bytes \<times> task) list \<Rightarrow> kv" where
  "stored C xs = map_of (enc_all (bincode.enc C) xs)"

lemma stored_apply: "stored C xs k = map_option (bincode.enc C) (map_of xs k)"
  by (simp add: stored_def map_of_enc_all)

lemma stored_rev: "distinct (map fst xs) \<Longrightarrow> map_of (rev (enc_all (bincode.enc C) xs)) = stored C xs"
  by (simp add: stored_def map_of_rev_distinct)

section \<open>Order of arrival\<close>

text \<open>Records added under later keys come after everything the queue holds.\<close>

lemma entries_append:
  assumes fin: "finite (dom m)" and sorted: "sorted_wrt (<) (map fst xs)" and sub: "fst ` set xs \<subseteq> in_queue q"
    and later: "\<And>k k'. k \<in> dom m \<inter> in_queue q \<Longrightarrow> k' \<in> fst ` set xs \<Longrightarrow> k < k'"
  shows "entries (m ++ map_of xs) q = entries m q @ xs"
proof -
  let ?ys = "entries m q @ xs"
  have s: "sorted_wrt (<) (map fst ?ys)"
    using sorted_entries [of m q] sorted later fst_set_entries [OF fin, of q]
    by (simp add: sorted_wrt_append)
  have "map_of ?ys = (m ++ map_of xs) |` in_queue q"
  proof
    fix k
    have e: "map_of (entries m q) = m |` in_queue q"
      unfolding entries_def using fin by (intro map_of_kv_list) simp
    show "map_of ?ys k = ((m ++ map_of xs) |` in_queue q) k"
    proof (cases "map_of xs k")
      case None
      then show ?thesis by (cases "m k") (simp_all add: e map_add_def restrict_map_def)
    next
      case (Some v)
      then have k: "k \<in> fst ` set xs" by (metis map_of_eq_None_iff option.distinct(1))
      then have "k \<notin> dom m" using later sub by blast
      with Some k sub show ?thesis by (auto simp: e map_add_def restrict_map_def split: option.splits)
    qed
  qed
  then show ?thesis
    using kv_list_map_of [OF s] by (simp add: entries_def)
qed

context queue_env
begin

lemma entries_enqueue:
  assumes inv: "tenant_inv C (unat s) P I D" and fin: "finite (dom P)" and wrap: "unat s + length ps < 2 ^ 64"
    and q: "name_ok q"
  shows "entries (P ++ stored C (new_records q now uuid s 0 ps)) q =
    entries P q @ enc_all enc (new_records q now uuid s 0 ps)"
  unfolding stored_def
proof (rule entries_append [OF fin])
  let ?new = "new_records q now uuid s 0 ps"
  have u: "unat (s + of_nat j) = unat s + j" if "j < length ps" for j
    using seq_no_wrap [OF wrap] that by simp
  then show "sorted_wrt (<) (map fst (enc_all enc ?new))"
    by (simp add: fst_new_records sorted_wrt_iff_nth_less word_less_nat_alt)
  have keys: "fst ` set (enc_all enc ?new) = (\<lambda>j. encode_key q (s + of_nat j)) ` {0..<length ps}"
    using fst_new_records [of q now uuid s 0 ps] fst_enc_all [of enc ?new] by (metis image_set list.set_map set_upt)
  then show "fst ` set (enc_all enc ?new) \<subseteq> in_queue q" by auto
  fix k k'
  assume k: "k \<in> dom P \<inter> in_queue q" and k': "k' \<in> fst ` set (enc_all enc ?new)"
  have "key_ok (unat s) k" using tenant_inv_keys [OF inv] k by blast
  then obtain m where m: "k = encode_key q m" "unat m < unat s"
    using key_ok_in_queue [of "unat s" k q] k q by (metis Int_iff key_okE)
  obtain j where j: "j < length ps" "k' = encode_key q (s + of_nat j)" using k' keys by auto
  from m j u show "k < k'" by (simp add: word_less_nat_alt)
qed
end

section \<open>Reliable stores\<close>

context reliable_env
begin

lemma dequeue_contract:
  fixes q :: string and n :: nat and clk :: "nat \<Rightarrow> u64" and timeout :: u64
  assumes T: "tenant_at (view (db g)) t P I D"
  defines "ys \<equiv> consumed C n (entries P q)" and "dl \<equiv> saturating_add (clk 0) timeout"
  shows "\<exists>g'. dequeue_batch R C clk g t q n timeout = (Inr (delivered C dl ys), g') \<and>
    tenant_at (view (db g')) t (P |` (- fst ` set ys)) (I ++ stored C (delivered C dl ys))
      (D ++ stored C (envelopes C q clk 0 ys)) \<and>
    same_elsewhere t (view (db g)) (view (db g'))"
proof -
  have T': "tenant_at (view (db (queue_lock g t q))) t P I D" using T by simp
  obtain res g' where r: "dequeue_batch_unlocked R C clk (queue_lock g t q) t q n timeout = (Inr res, g')"
    using dequeue_unlocked_total [OF T'] by blast
  with env.dequeue_unlocked_outcome [OF T' r] show ?thesis
    by (auto simp: dequeue_batch_def env.dequeue_post_def Let_def ys_def dl_def stored_def)
qed

text \<open>The cap on tasks in flight.\<close>

lemma qcount_add_new:
  assumes "finite (dom m)"
  shows "qcount (m ++ stored C xs) q \<le> qcount m q + length xs"
  using qcount_add_le [OF assms, of "enc_all enc xs" q] by (simp add: stored_def enc_all_def)

lemma dequeue_capped_contract:
  assumes T: "tenant_at (view (db g)) t P I D"
  shows "\<exists>results g' P' I' D'. dequeue_with_max_inflight R C clk g t q n timeout m = (Inr results, g') \<and>
    tenant_at (view (db g')) t P' I' D' \<and> length results \<le> min n (m - qcount I q) \<and>
    qcount I' q \<le> max m (qcount I q)"
proof (cases "m = 0 \<or> m \<le> qcount I q")
  case True
  with T env.tenant_handles [OF T] show ?thesis
    by (auto simp: dequeue_with_max_inflight_def Let_def inflight_cf_def count_prefix_eq tenant_at_def
        cf_handle_view intro!: exI [of _ P] exI [of _ I] exI [of _ D])
next
  case False
  let ?n = "min n (m - qcount I q)"
  let ?ys = "consumed C ?n (entries P q)" and ?dl = "saturating_add (clk 0) timeout"
  have T': "tenant_at (view (db (queue_lock g t q))) t P I D" using T by simp
  have "dequeue_with_max_inflight R C clk g t q n timeout m = dequeue_batch R C clk g t q ?n timeout"
    using False T' env.tenant_handles [OF T']
    by (simp add: dequeue_with_max_inflight_def Let_def dequeue_batch_def count_prefix_eq tenant_at_def)
  moreover obtain g' where "dequeue_batch R C clk g t q ?n timeout = (Inr (delivered C ?dl ?ys), g')"
    and T2: "tenant_at (view (db g')) t (P |` (- fst ` set ?ys)) (I ++ stored C (delivered C ?dl ?ys))
      (D ++ stored C (envelopes C q clk 0 ?ys))"
    using dequeue_contract [OF T] by blast
  moreover have "length (delivered C ?dl ?ys) \<le> ?n" by (rule length_delivered_consumed)
  moreover have "qcount (I ++ stored C (delivered C ?dl ?ys)) q \<le> qcount I q + length (delivered C ?dl ?ys)"
    using env.tenant_finite [OF T] by (intro qcount_add_new)
  ultimately show ?thesis using False by fastforce
qed

lemma dequeue_capped_exact:
  assumes T: "tenant_at (view (db g)) t P I D"
    and ys: "ys = consumed C (min n (m - qcount I q)) (entries P q)" and out: "out = delivered C (saturating_add (clk 0) timeout) ys"
  shows "\<exists>g'. dequeue_with_max_inflight R C clk g t q n timeout m = (Inr out, g') \<and>
    tenant_at (view (db g')) t (P |` (- fst ` set ys)) (I ++ stored C out) (D ++ stored C (envelopes C q clk 0 ys))"
proof (cases "m = 0 \<or> m \<le> qcount I q")
  case True
  then have "ys = []" "out = []" using ys out by auto
  with True T env.tenant_handles [OF T] show ?thesis
    by (auto simp: dequeue_with_max_inflight_def Let_def inflight_cf_def count_prefix_eq tenant_at_def cf_handle_view
        stored_def enc_all_def restrict_map_def)
next
  case False
  let ?n = "min n (m - qcount I q)"
  have T': "tenant_at (view (db (queue_lock g t q))) t P I D" using T by simp
  have "dequeue_with_max_inflight R C clk g t q n timeout m = dequeue_batch R C clk g t q ?n timeout"
    using False T' env.tenant_handles [OF T']
    by (simp add: dequeue_with_max_inflight_def Let_def dequeue_batch_def count_prefix_eq tenant_at_def)
  with dequeue_contract [OF T, of clk q ?n timeout] show ?thesis unfolding ys out by metis
qed

text \<open>Enqueue without a quota.\<close>

lemma enqueue_contract:
  assumes T: "tenant_at (view (db g)) t P I D" and wrap: "unat (seq g) + length ps < 2 ^ 64"
    and quota: "np_backlog_quota policy = None"
  shows "\<exists>g'. enqueue_batch_sync R C clk envr now uuid g t q ps policy = Some (Inr (map uuid [0..<length ps]), g') \<and>
    tenant_at (view (db g')) t (P ++ stored C (new_records q now uuid (seq g) 0 ps)) I D \<and>
    same_elsewhere t (view (db g)) (view (db g')) \<and> unat (seq g') = unat (seq g) + length ps"
proof -
  have T': "tenant_at (view (db (queue_lock g t q))) t P I D" using T by simp
  obtain ids g' where r: "enqueue_batch_sync R C clk envr now uuid g t q ps policy = Some (Inr ids, g')"
    and post: "env.enqueue_post (queue_lock g t q) g' t q now uuid ps ids"
    using enqueue_succeeds [OF enforce_quota_unbounded [OF quota] T'] by metis
  note p = post [unfolded env.enqueue_post_def]
  have s: "seq g' = seq g + of_nat (length ps)"
    using seq_update(3) [OF p [THEN conjunct2, THEN conjunct1]] by simp
  have "tenant_at (view (db g')) t (P ++ stored C (new_records q now uuid (seq g) 0 ps)) I D"
    using p [THEN conjunct2, THEN conjunct2, THEN conjunct2, rule_format, OF T']
      stored_rev [OF distinct_new_records [OF wrap]] by simp
  with r p s seq_no_wrap [OF wrap, of "length ps"] show ?thesis by auto
qed

text \<open>Enqueue under the \<open>Reject\<close> and the \<open>EvictOldest\<close> policy.\<close>

lemma reject_contract:
  assumes T: "tenant_at (view (db g)) t P I D" and wrap: "unat (seq g) + length ps < 2 ^ 64"
    and quota: "np_backlog_quota policy = Some Q" and pol: "np_backlog_policy policy = Reject"
  shows "if qcount P q + qcount I q + length ps > Q
    then enqueue_batch_sync R C clk envr now uuid g t q ps policy =
      Some (Inl (BacklogQuotaExceeded t q (qcount P q + qcount I q) Q (length ps)), queue_lock g t q)
    else \<exists>g'. enqueue_batch_sync R C clk envr now uuid g t q ps policy =
        Some (Inr (map uuid [0..<length ps]), g') \<and>
      tenant_at (view (db g')) t (P ++ stored C (new_records q now uuid (seq g) 0 ps)) I D"
proof (cases "qcount P q + qcount I q + length ps > Q")
  case True
  have T': "tenant_at (view (db (queue_lock g t q))) t P I D" using T by simp
  with True show ?thesis
    by (simp add: enqueue_batch_sync_def enforce_quota_reject [OF T' quota pol])
next
  case False
  have T': "tenant_at (view (db (queue_lock g t q))) t P I D" using T by simp
  have "enforce_quota R clk envr (queue_lock g t q) t q policy (length ps) = Some (Inr (), queue_lock g t q)"
    using False by (simp add: enforce_quota_reject [OF T' quota pol])
  from enqueue_succeeds [OF this T'] obtain ids g' where
    r: "enqueue_batch_sync R C clk envr now uuid g t q ps policy = Some (Inr ids, g')"
    and post: "env.enqueue_post (queue_lock g t q) g' t q now uuid ps ids"
    by metis
  note p = post [unfolded env.enqueue_post_def]
  have "tenant_at (view (db g')) t (P ++ stored C (new_records q now uuid (seq g) 0 ps)) I D"
    using p [THEN conjunct2, THEN conjunct2, THEN conjunct2, rule_format, OF T']
      stored_rev [OF distinct_new_records [OF wrap]] by simp
  with False r p show ?thesis by auto
qed

lemma evict_contract:
  fixes q :: string
  assumes T: "tenant_at (view (db g)) t P I D" and wrap: "unat (seq g) + length ps < 2 ^ 64"
    and quota: "np_backlog_quota policy = Some Q" and pol: "np_backlog_policy policy = EvictOldest"
  defines "old \<equiv> take (qcount P q + qcount I q + length ps - Q) (entries P q)"
  shows "\<exists>g'. enqueue_batch_sync R C clk envr now uuid g t q ps policy =
      Some (Inr (map uuid [0..<length ps]), g') \<and>
    tenant_at (view (db g')) t
      (P |` (- fst ` set old) ++ stored C (new_records q now uuid (seq g) 0 ps)) I D"
proof -
  have T': "tenant_at (view (db (queue_lock g t q))) t P I D" using T by simp
  obtain g0 where q0: "enforce_quota R clk envr (queue_lock g t q) t q policy (length ps) = Some (Inr (), g0)"
    and g0: "g0 = (queue_lock g t q)\<lparr>db := db g0\<rparr>"
    and T0: "tenant_at (view (db g0)) t (P |` (- fst ` set old)) I D"
    using enforce_quota_evict [OF T' quota pol] unfolding old_def by metis
  have s0: "seq g0 = seq g" using seq_update(1) [OF g0] by simp
  from enqueue_succeeds [OF q0 T0] obtain ids g' where
    r: "enqueue_batch_sync R C clk envr now uuid g t q ps policy = Some (Inr ids, g')"
    and post: "env.enqueue_post g0 g' t q now uuid ps ids"
    by metis
  note p = post [unfolded env.enqueue_post_def]
  have "tenant_at (view (db g')) t
      (P |` (- fst ` set old) ++ stored C (new_records q now uuid (seq g) 0 ps)) I D"
    using p [THEN conjunct2, THEN conjunct2, THEN conjunct2, rule_format, OF T0]
      stored_rev [OF distinct_new_records [OF wrap]] s0 by simp
  with r p show ?thesis by auto
qed

text \<open>Acknowledgements.\<close>

lemma ack_contract:
  assumes T: "tenant_at (view (db g)) t P I D"
  shows "\<exists>g'. ack_batch R g t ks = (Inr (card (set ks \<inter> dom I)), g') \<and>
    tenant_at (view (db g')) t P (I |` (- set ks)) D \<and> same_elsewhere t (view (db g)) (view (db g'))"
proof -
  obtain n g' where r: "ack_batch R g t ks = (Inr n, g')" using ack_batch_total [OF T] by blast
  with env.ack_batch_outcome [OF T r] show ?thesis by auto
qed

lemma nack_contract:
  assumes T: "tenant_at (view (db g)) t P I D"
  shows "\<exists>g'. nack R C now g t k = (Inr (), g') \<and> same_elsewhere t (view (db g)) (view (db g')) \<and>
    (case nack_fate_of C now I k of
        NotInflight \<Rightarrow> g' = g
      | ToDlq e \<Rightarrow> tenant_at (view (db g')) t P (I(k := None)) (D(k \<mapsto> bincode.enc C e)) \<and> seq g' = seq g
      | ToDlqRaw v \<Rightarrow> tenant_at (view (db g')) t P (I(k := None)) (D(k \<mapsto> v)) \<and> seq g' = seq g
      | Retried x \<Rightarrow> tenant_at (view (db g')) t
          (P(encode_key (task_queue x) (seq g) \<mapsto> bincode.enc C x)) (I(k := None)) D \<and> seq g' = seq g + 1)"
proof -
  obtain g' where r: "nack R C now g t k = (Inr (), g')" using nack_total [OF T] by blast
  with env.nack_outcome [OF T r] have post: "env.nack_post g g' t k now P I D" by simp
  with r show ?thesis
    using seq_update(1,3)
    by (intro exI [of _ g']) (auto simp: env.nack_post_def split: nack_fate.splits)
qed

lemma cumulative_ack_contract:
  fixes s :: u64
  assumes T: "tenant_at (view (db g)) t P I D" and inv: "tenant_inv C n P I D" and q: "name_ok q"
  defines "K \<equiv> {k \<in> dom I. \<exists>m \<le> s. k = encode_key q m}"
  shows "\<exists>g'. cumulative_ack R g t q s = (Inr (card K), g') \<and>
    tenant_at (view (db g')) t P (I |` (- K)) D \<and> same_elsewhere t (view (db g)) (view (db g'))"
proof -
  have fin: "finite (dom I)" using env.tenant_finite [OF T] by simp
  obtain c g' where r: "cumulative_ack R g t q s = (Inr c, g')" using cumulative_ack_total [OF T] by blast
  have "\<exists>m. k = encode_key q m" if "k \<in> fst ` set (entries I q)" for k
  proof -
    have k: "k \<in> dom I" "k \<in> in_queue q" using that fst_set_entries [OF fin] by auto
    then have "key_ok n k" using tenant_inv_keys [OF inv] by blast
    with key_ok_in_queue [OF this k(2) q] show ?thesis by (metis key_okE)
  qed
  then have "set (cum_acked s (entries I q)) = {k \<in> fst ` set (entries I q). \<exists>m \<le> s. k = encode_key q m}"
    by (intro cum_acked_sorted sorted_entries)
  also have "\<dots> = K"
    unfolding K_def fst_set_entries [OF fin] by auto
  finally have K: "set (cum_acked s (entries I q)) = K" .
  moreover have "length (cum_acked s (entries I q)) = card K"
    using distinct_card [OF distinct_cum_acked [OF distinct_entries]] K by metis
  ultimately show ?thesis
    using env.cumulative_ack_outcome [OF T r] r by auto
qed

text \<open>The reaper.\<close>

lemma reap_contract:
  fixes q :: string and clk :: "nat \<Rightarrow> u64"
  assumes T: "tenant_at (view (db g)) t P I D"
  defines "xs \<equiv> entries I q" and "now \<equiv> clk 0"
  shows "\<exists>g'. reap_inflight R C clk g t q = (Inr (), g') \<and>
    tenant_at (view (db g')) t (P ++ stored C (reclaimed C now xs))
      (I |` (- fst ` set (swept C now xs))) (D ++ stored C (envelopes C q clk 0 xs)) \<and>
    same_elsewhere t (view (db g)) (view (db g'))"
proof -
  obtain g' where r: "reap_inflight R C clk g t q = (Inr (), g')" using reap_total [OF T] by blast
  with env.reap_outcome [OF T r] show ?thesis
    by (auto simp: env.reap_post_def Let_def stored_def xs_def now_def)
qed

text \<open>Dead letters.\<close>

lemma purge_contract:
  assumes T: "tenant_at (view (db g)) t P I D"
  shows "\<exists>g'. purge_dlq R g t = (Inr (card (dom D)), g') \<and>
    tenant_at (view (db g')) t P I Map.empty \<and> same_elsewhere t (view (db g)) (view (db g'))"
proof -
  obtain n g' where r: "purge_dlq R g t = (Inr n, g')" using purge_total [OF T] by blast
  with env.purge_outcome [OF T r] show ?thesis by auto
qed

lemma replay_contract:
  assumes T: "tenant_at (view (db g)) t P I D" and inv: "tenant_inv C (unat (seq g)) P I D"
    and wrap: "unat (seq g) + card (dom D) < 2 ^ 64"
  shows "\<exists>g' P'. replay_dlq R C g t = (Inr (card (dom D)), g') \<and>
    tenant_at (view (db g')) t P' I Map.empty \<and>
    P' = P ++ map_of (rev (enc_all (bincode.enc C) (replayed C (seq g) (kv_list D)))) \<and>
    tenant_inv C (unat (seq g')) P' I Map.empty \<and>
    tenant_contents C P' I Map.empty = tenant_contents C P I D"
proof -
  have fin: "finite (dom P)" "finite (dom D)" using env.tenant_finite [OF T] by simp_all
  have ok: "\<not> corrupt C v" if "D k = Some v" for k v
    using inv that by (auto simp: tenant_inv_def letter_ok_def dest: all_kvD)
  have "\<exists>n g'. replay_dlq R C g t = (Inr n, g')" by (rule replay_total [OF T]) (rule ok)
  then obtain n g' where r: "replay_dlq R C g t = (Inr n, g')" by blast
  with env.replay_outcome [OF T r] have post: "env.replay_post g g' t P I D n" by simp
  note p = post [unfolded env.replay_post_def]
  have "seq g' = seq g + of_nat (card (dom D))"
    using seq_update(3) [OF p [THEN conjunct2, THEN conjunct1]] p by simp
  then have "unat (seq g') = unat (seq g) + card (dom D)"
    using seq_no_wrap [OF wrap, of "card (dom D)"] by simp
  with r p env.inv_replay [OF inv fin(2) wrap] env.contents_replay [OF inv fin wrap] show ?thesis
    by (intro exI [of _ g'] exI [of _ "P ++ map_of (rev (enc_all enc (replayed C (seq g) (kv_list D))))"]) simp
qed

text \<open>Handing tasks out, handing them back and reaping neither lose nor duplicate a payload.\<close>

lemma dequeue_conserves:
  assumes T: "tenant_at (view (db g)) t P I D" and inv: "tenant_inv C n P I D"
  shows "\<exists>out g' P' I' D'. dequeue_batch R C clk g t q m timeout = (Inr out, g') \<and>
    tenant_at (view (db g')) t P' I' D' \<and> tenant_contents C P' I' D' = tenant_contents C P I D"
proof -
  let ?ys = "consumed C m (entries P q)" and ?dl = "saturating_add (clk 0) timeout"
  obtain g' where "dequeue_batch R C clk g t q m timeout = (Inr (delivered C ?dl ?ys), g')"
    and "tenant_at (view (db g')) t (P |` (- fst ` set ?ys)) (I ++ stored C (delivered C ?dl ?ys))
      (D ++ stored C (envelopes C q clk 0 ?ys))"
    using dequeue_contract [OF T] by blast
  moreover have "prefix ?ys (entries P q)" by (rule prefix_consumed)
  note env.contents_dequeue [OF inv env.tenant_finite [OF T] this]
  ultimately show ?thesis unfolding stored_def by metis
qed

lemma reap_conserves:
  assumes T: "tenant_at (view (db g)) t P I D" and inv: "tenant_inv C n P I D"
  shows "\<exists>g' P' I' D'. reap_inflight R C clk g t q = (Inr (), g') \<and>
    tenant_at (view (db g')) t P' I' D' \<and> tenant_contents C P' I' D' = tenant_contents C P I D"
  using reap_contract [OF T, of clk q] env.contents_reap [OF inv env.tenant_finite [OF T], of "clk 0" q clk]
  unfolding stored_def by metis

lemma nack_conserves:
  assumes T: "tenant_at (view (db g)) t P I D" and inv: "tenant_inv C (unat (seq g)) P I D"
  shows "\<exists>g' P' I' D'. nack R C now g t k = (Inr (), g') \<and>
    tenant_at (view (db g')) t P' I' D' \<and> tenant_contents C P' I' D' = tenant_contents C P I D"
proof -
  obtain g' where r: "nack R C now g t k = (Inr (), g')"
    and f: "case nack_fate_of C now I k of
        NotInflight \<Rightarrow> g' = g
      | ToDlq e \<Rightarrow> tenant_at (view (db g')) t P (I(k := None)) (D(k \<mapsto> enc e)) \<and> seq g' = seq g
      | ToDlqRaw v \<Rightarrow> tenant_at (view (db g')) t P (I(k := None)) (D(k \<mapsto> v)) \<and> seq g' = seq g
      | Retried x \<Rightarrow> tenant_at (view (db g')) t
          (P(encode_key (task_queue x) (seq g) \<mapsto> enc x)) (I(k := None)) D \<and> seq g' = seq g + 1"
    using nack_contract [OF T] by blast
  note c = env.contents_nack [OF inv env.tenant_finite [OF T], where now = now and k = k]
  show ?thesis
  proof (cases "nack_fate_of C now I k")
    case NotInflight
    with r f T show ?thesis by auto
  next
    case (ToDlq e)
    with r f c show ?thesis by simp blast
  next
    case (ToDlqRaw v)
    with r f c show ?thesis by simp blast
  next
    case (Retried x)
    with r f c show ?thesis by simp blast
  qed
qed

text \<open>
  A producer that blocks on a full queue holds the lock of the queue, which every consumer needs
  to take tasks out. While the pending records alone exceed the quota, nothing the others can do
  helps, and the wait ends with the quota error when the deadline has passed.
\<close>

definition full where
  "full t q quota incoming g \<longleftrightarrow>
     (\<exists>P I D. tenant_at (view (db g)) t P I D \<and> quota < qcount P q + incoming)"

lemma block_wait_full:
  assumes "i \<le> n" and "dl \<le> clk n" and "full t q quota incoming g"
    and "\<And>i h. full t q quota incoming h \<Longrightarrow> full t q quota incoming (envr i h)"
  shows "\<exists>c g'. block_wait R clk envr i g t q quota incoming dl =
    Some (Inl (BacklogQuotaExceeded t q c quota incoming), g')"
  using assms
proof (induction "n - i" arbitrary: i g)
  case (0 i g)
  obtain P I D where T: "tenant_at (view (db g)) t P I D" "quota < qcount P q + incoming"
    using "0.prems"(3) by (auto simp: full_def)
  from "0.hyps" "0.prems"(1) have "i = n" by simp
  with T "0.prems"(2) show ?case
    by (subst block_wait.simps) (simp add: depth_eq [OF T(1)])
next
  case (Suc m i g)
  obtain P I D where T: "tenant_at (view (db g)) t P I D" "quota < qcount P q + incoming"
    using Suc.prems(3) by (auto simp: full_def)
  have "\<exists>c g'. block_wait R clk envr (Suc i) (envr i g) t q quota incoming dl =
      Some (Inl (BacklogQuotaExceeded t q c quota incoming), g')"
    using Suc.hyps(2) Suc.prems by (intro Suc.hyps(1)) auto
  with T show ?case
    by (subst block_wait.simps) (simp add: depth_eq [OF T(1)])
qed

text \<open>Acknowledging is no help: it takes records from the inflight map.\<close>

lemma ack_keeps_full: "full t q quota incoming h \<Longrightarrow> full t q quota incoming (snd (ack_batch R h t ks))"
proof -
  assume "full t q quota incoming h"
  then obtain P I D where T: "tenant_at (view (db h)) t P I D" "quota < qcount P q + incoming"
    by (auto simp: full_def)
  obtain g' where r: "ack_batch R h t ks = (Inr (card (set ks \<inter> dom I)), g')"
    and "tenant_at (view (db g')) t P (I |` (- set ks)) D"
    using ack_contract [OF T(1), of ks] by blast
  with T(2) show ?thesis unfolding full_def r snd_conv by blast
qed

end

section \<open>Stores that may fail\<close>

context queue_env
begin

lemma quota_contract:
  assumes r: "enqueue_batch_sync R C clk envr now uuid g t q ps policy = Some (Inr ids, g')"
    and quota: "np_backlog_quota policy = Some Q"
  shows "\<exists>P I D. tenant_at (view (db g')) t P I D \<and> qcount P q + qcount I q \<le>
    (if np_backlog_policy policy = EvictOldest then max Q (qcount I q + length ps) else Q)"
proof -
  from r obtain r0 g0 where q0: "enforce_quota R clk envr (queue_lock g t q) t q policy (length ps) = Some (r0, g0)"
    and "case Inr ids of
       Inl e \<Rightarrow> r0 = Inl e \<and> g' = g0 \<or>
         r0 = Inr () \<and> db g' = db g0 \<and> (seq g' = seq g0 \<or> seq g' = seq g0 + of_nat (length ps))
     | Inr ids \<Rightarrow> r0 = Inr () \<and> enqueue_post g0 g' t q now uuid ps ids"
    by (rule enqueue_outcome)
  then have out: "r0 = Inr () \<and> enqueue_post g0 g' t q now uuid ps ids" by simp
  have "enforce_quota R clk envr (queue_lock g t q) t q policy (length ps) = Some (Inr (), g0)"
    using q0 out by simp
  from enforce_quota_room [OF this quota] obtain P I D where T: "tenant_at (view (db g0)) t P I D"
    and room: "qcount P q + qcount I q + length ps \<le>
      (if np_backlog_policy policy = EvictOldest then max Q (qcount I q + length ps) else Q)"
    by (elim exE conjE)
  let ?P = "P ++ map_of (rev (enc_all enc (new_records q now uuid (seq g0) 0 ps)))"
  have "tenant_at (view (db g')) t ?P I D"
    using out T by (simp add: enqueue_post_def)
  moreover have "qcount ?P q \<le> qcount P q + length ps"
    using qcount_add_le [of P "rev (enc_all enc (new_records q now uuid (seq g0) 0 ps))" q] tenant_finite [OF T]
    by (simp add: enc_all_def)
  ultimately show ?thesis using room
    by (intro exI [of _ ?P] exI [of _ I] exI [of _ D]) auto
qed

text \<open>An operation that reports an error has not changed the database.\<close>

lemma errors_change_nothing:
  assumes T: "tenant_at (view (db g)) t P I D"
  shows "dequeue_batch R C clk g t q n timeout = (Inl e, g') \<Longrightarrow> db g' = db g"
    and "ack_batch R g t ks = (Inl e, g') \<Longrightarrow> db g' = db g"
    and "nack R C now g t k = (Inl e, g') \<Longrightarrow> db g' = db g"
    and "cumulative_ack R g t q s = (Inl e, g') \<Longrightarrow> db g' = db g"
    and "reap_inflight R C clk g t q = (Inl e, g') \<Longrightarrow> db g' = db g"
    and "purge_dlq R g t = (Inl e, g') \<Longrightarrow> db g' = db g"
    and "replay_dlq R C g t = (Inl e, g') \<Longrightarrow> db g' = db g"
proof -
  have T': "tenant_at (view (db (queue_lock g t q))) t P I D" using T by simp
  show "dequeue_batch R C clk g t q n timeout = (Inl e, g') \<Longrightarrow> db g' = db g"
    using dequeue_unlocked_outcome [OF T'] by (fastforce simp: dequeue_batch_def)
  show "ack_batch R g t ks = (Inl e, g') \<Longrightarrow> db g' = db g"
    using ack_batch_outcome [OF T] by fastforce
  show "nack R C now g t k = (Inl e, g') \<Longrightarrow> db g' = db g"
    using nack_outcome [OF T] by fastforce
  show "cumulative_ack R g t q s = (Inl e, g') \<Longrightarrow> db g' = db g"
    using cumulative_ack_outcome [OF T] by fastforce
  show "reap_inflight R C clk g t q = (Inl e, g') \<Longrightarrow> db g' = db g"
    using reap_outcome [OF T] by fastforce
  show "purge_dlq R g t = (Inl e, g') \<Longrightarrow> db g' = db g"
    using purge_outcome [OF T] by fastforce
  show "replay_dlq R C g t = (Inl e, g') \<Longrightarrow> db g' = db g"
    using replay_outcome [OF T] by fastforce
qed

end

end
