(* ===== verification/Rq_Reference.thy ===== *)
theory Rq_Reference
  imports Rq_Lifecycle
begin

text \<open>
  An executable serialisation of tasks and of policies that satisfies the laws of the locale
  \<open>bincode\<close>, and with it the interpretations of the environments of the queue operations. The
  format is not that of the \<open>bincode\<close> crate: the development uses no more of a serialisation
  than the laws, and these instances show that the laws can be met together with those of the
  store.
\<close>

section \<open>Self-delimiting fields\<close>

fun frame :: "bytes \<Rightarrow> bytes" where
  "frame [] = [0]"
| "frame (b # bs) = 1 # b # frame bs"

fun unframe :: "bytes \<Rightarrow> (bytes \<times> bytes) option" where
  "unframe [] = None"
| "unframe [b] = (if b = 0 then Some ([], []) else None)"
| "unframe (b # c # bs) = (if b = 0 then Some ([], c # bs)
     else if b = 1 then map_option (\<lambda>(f, r). (c # f, r)) (unframe bs) else None)"

lemma unframe_frame [simp]: "unframe (frame bs @ r) = Some (bs, r)"
proof (induction bs)
  case Nil
  then show ?case by (cases r) auto
qed simp

text \<open>A record of fields, and reading one back: the input must hold exactly these fields.\<close>

definition frames :: "bytes list \<Rightarrow> bytes" where
  "frames fs = concat (map frame fs)"

fun unframes :: "nat \<Rightarrow> bytes \<Rightarrow> bytes list option" where
  "unframes 0 bs = (if bs = [] then Some [] else None)"
| "unframes (Suc n) bs = (case unframe bs of None \<Rightarrow> None
     | Some (f, r) \<Rightarrow> map_option (Cons f) (unframes n r))"

lemma unframes_frames [simp]: "unframes (length fs) (frames fs) = Some fs"
  by (induction fs) (auto simp: frames_def)

lemma unframes_frames_n: "n = length fs \<Longrightarrow> unframes n (frames fs) = Some fs"
  by simp

section \<open>Numbers\<close>

fun nat_bytes :: "nat \<Rightarrow> bytes" where
  "nat_bytes n = (if n = 0 then [] else word_of_nat (n mod 256) # nat_bytes (n div 256))"

fun bytes_nat :: "bytes \<Rightarrow> nat" where
  "bytes_nat [] = 0"
| "bytes_nat (b # bs) = unat b + 256 * bytes_nat bs"

declare nat_bytes.simps [simp del]

lemma bytes_nat_bytes [simp]: "bytes_nat (nat_bytes n) = n"
proof (induction n rule: nat_bytes.induct)
  case (1 n)
  then show ?case
    by (subst nat_bytes.simps) (auto simp: unat_of_nat)
qed

definition u32_bytes :: "u32 \<Rightarrow> bytes" where
  "u32_bytes w = nat_bytes (unat w)"

definition bytes_u32 :: "bytes \<Rightarrow> u32" where
  "bytes_u32 bs = word_of_nat (bytes_nat bs)"

lemma bytes_u32_bytes [simp]: "bytes_u32 (u32_bytes w) = w"
  by (simp add: bytes_u32_def u32_bytes_def)

section \<open>Tasks\<close>

definition ref_task_serialize :: "task \<Rightarrow> string + bytes" where
  "ref_task_serialize x = Inr (frames
     [as_bytes (task_id x), as_bytes (task_queue x), payload x, to_be_bytes (enqueued_at x),
      u32_bytes (attempts x), to_be_bytes (deadline x)])"

definition ref_task_deserialize :: "bytes \<Rightarrow> string + task" where
  "ref_task_deserialize bs = (case unframes 6 bs of
     Some [i, q, p, e, a, d] \<Rightarrow> Inr \<lparr>task_id = of_bytes i, task_queue = of_bytes q, payload = p,
       enqueued_at = from_be_bytes e, attempts = bytes_u32 a, deadline = from_be_bytes d\<rparr>
   | _ \<Rightarrow> Inl ''invalid task'')"

definition ref_task_codec :: "task codec" where
  "ref_task_codec = \<lparr>bc_serialize = ref_task_serialize, bc_deserialize = ref_task_deserialize\<rparr>"

lemma ref_task_roundtrip: "ref_task_deserialize (projr (ref_task_serialize x)) = Inr x"
  by (simp add: ref_task_serialize_def ref_task_deserialize_def unframes_frames_n)

interpretation ref_task: bincode ref_task_codec
proof
  fix x b
  show "bc_serialize ref_task_codec x = Inr b \<Longrightarrow> bc_deserialize ref_task_codec b = Inr x"
    using ref_task_roundtrip [of x] by (auto simp: ref_task_codec_def)
  show "\<exists>b. bc_serialize ref_task_codec x = Inr b"
    by (simp add: ref_task_codec_def ref_task_serialize_def)
qed

section \<open>Policies\<close>

definition option_bytes :: "nat option \<Rightarrow> bytes" where
  "option_bytes x = (case x of None \<Rightarrow> [] | Some n \<Rightarrow> 1 # nat_bytes n)"

definition bytes_option :: "bytes \<Rightarrow> nat option" where
  "bytes_option bs = (case bs of [] \<Rightarrow> None | _ # r \<Rightarrow> Some (bytes_nat r))"

definition backlog_bytes :: "backlog_policy \<Rightarrow> bytes" where
  "backlog_bytes p = (case p of Reject \<Rightarrow> [] | EvictOldest \<Rightarrow> [2] | Block ms \<Rightarrow> 1 # to_be_bytes ms)"

definition bytes_backlog :: "bytes \<Rightarrow> backlog_policy" where
  "bytes_backlog bs = (case bs of [] \<Rightarrow> Reject
     | b # r \<Rightarrow> if b = 1 then Block (from_be_bytes r) else EvictOldest)"

lemma option_bytes_roundtrip [simp]: "bytes_option (option_bytes x) = x"
  by (simp add: bytes_option_def option_bytes_def split: option.splits)

lemma backlog_bytes_roundtrip [simp]: "bytes_backlog (backlog_bytes p) = p"
  by (simp add: bytes_backlog_def backlog_bytes_def split: backlog_policy.splits)

definition ref_policy_serialize :: "namespace_policy \<Rightarrow> string + bytes" where
  "ref_policy_serialize p = Inr (frames
     [as_bytes (np_tenant_id p), as_bytes (np_namespace p), u32_bytes (np_weight p),
      nat_bytes (np_max_inflight p), u32_bytes (np_burst_tokens p), u32_bytes (np_rate_per_sec p),
      option_bytes (np_backlog_quota p), backlog_bytes (np_backlog_policy p),
      to_be_bytes (pending_retention_secs (np_retention p)),
      to_be_bytes (dlq_retention_secs (np_retention p)),
      to_be_bytes (inflight_stale_secs (np_retention p))])"

definition ref_policy_deserialize :: "bytes \<Rightarrow> string + namespace_policy" where
  "ref_policy_deserialize bs = (case unframes 11 bs of
     Some [t, n, w, m, b, r, q, p, x, y, z] \<Rightarrow> Inr \<lparr>np_tenant_id = of_bytes t, np_namespace = of_bytes n,
       np_weight = bytes_u32 w, np_max_inflight = bytes_nat m, np_burst_tokens = bytes_u32 b,
       np_rate_per_sec = bytes_u32 r, np_backlog_quota = bytes_option q,
       np_backlog_policy = bytes_backlog p,
       np_retention = \<lparr>pending_retention_secs = from_be_bytes x, dlq_retention_secs = from_be_bytes y,
         inflight_stale_secs = from_be_bytes z\<rparr>\<rparr>
   | _ \<Rightarrow> Inl ''invalid policy'')"

definition ref_policy_codec :: "namespace_policy codec" where
  "ref_policy_codec = \<lparr>bc_serialize = ref_policy_serialize, bc_deserialize = ref_policy_deserialize\<rparr>"

lemma ref_policy_roundtrip: "ref_policy_deserialize (projr (ref_policy_serialize x)) = Inr x"
  by (simp add: ref_policy_serialize_def ref_policy_deserialize_def unframes_frames_n)

interpretation ref_policy: bincode ref_policy_codec
proof
  fix x b
  show "bc_serialize ref_policy_codec x = Inr b \<Longrightarrow> bc_deserialize ref_policy_codec b = Inr x"
    using ref_policy_roundtrip [of x] by (auto simp: ref_policy_codec_def)
  show "\<exists>b. bc_serialize ref_policy_codec x = Inr b"
    by (simp add: ref_policy_codec_def ref_policy_serialize_def)
qed

section \<open>The environment of the queue operations\<close>

interpretation ref: reliable_env mem_rocksdb mem_view ref_task_codec
  by unfold_locales

interpretation ref_reg: reliable_registry mem_rocksdb mem_view ref_policy_codec
  by unfold_locales

section \<open>A store that fails\<close>

text \<open>The reference store with every write refused: it still satisfies the contract that allows failures.\<close>

definition failing_rocksdb :: "mem_db rocksdb" where
  "failing_rocksdb = mem_rocksdb\<lparr>write_opt := \<lambda>d wo b. Inl ''disk full''\<rparr>"

lemma failing_sel [simp]:
  "cf_handle failing_rocksdb = cf_handle mem_rocksdb" "get_cf failing_rocksdb = get_cf mem_rocksdb"
  "iterator_prefix failing_rocksdb = iterator_prefix mem_rocksdb"
  "iterator_from failing_rocksdb = iterator_from mem_rocksdb"
  "write_opt failing_rocksdb d wo b = Inl ''disk full''"
  "put_cf_opt failing_rocksdb = put_cf_opt mem_rocksdb" "delete_cf_opt failing_rocksdb = delete_cf_opt mem_rocksdb"
  "create_cf failing_rocksdb = create_cf mem_rocksdb" "drop_cf failing_rocksdb = drop_cf mem_rocksdb"
  "list_cf failing_rocksdb = list_cf mem_rocksdb" "open_cf failing_rocksdb = open_cf mem_rocksdb"
  "registered_filter failing_rocksdb = registered_filter mem_rocksdb"
  "compaction_pass failing_rocksdb = compaction_pass mem_rocksdb"
  "compaction_drop failing_rocksdb = compaction_drop mem_rocksdb"
  by (simp_all add: failing_rocksdb_def)

interpretation failing: queue_env failing_rocksdb mem_view ref_task_codec
  by unfold_locales
    (simp_all only: failing_sel mem.view_finite mem.cf_handle_view mem.get_view mem.prefix_view mem.from_view
      mem.put_view mem.delete_view mem.create_view mem.drop_view mem.list_view mem.open_view mem.pass_view
      mem.compact_view mem.filter_create mem.filter_put mem.filter_compact mem.filter_open sum.distinct
      not_False_eq_True simp_thms)

end
