(* ===== verification/Rq_Samples.thy ===== *)
theory Rq_Samples
  imports Rq_Contracts Rq_Reference
begin

text \<open>
  A small registry on the reference store, with records in all three column families of one
  tenant: the instance at which the properties are exercised.
\<close>

abbreviation ref_enc :: "task \<Rightarrow> bytes" where
  "ref_enc \<equiv> bincode.enc ref_task_codec"

definition sample_task :: "u8 \<Rightarrow> task" where
  "sample_task b = \<lparr>task_id = ''id'', task_queue = ''q'', payload = [b], enqueued_at = 7, attempts = 0, deadline = 0\<rparr>"

definition sample_pending :: "(bytes \<times> bytes) list" where
  "sample_pending = [(encode_key ''q'' 1, ref_enc (sample_task 1)), (encode_key ''q'' 2, [9]),
     (encode_key ''q'' 3, ref_enc (sample_task 3))]"

definition sample_inflight :: "(bytes \<times> bytes) list" where
  "sample_inflight = [(encode_key ''q'' 0, ref_enc ((sample_task 0)\<lparr>attempts := 1, deadline := 60\<rparr>))]"

definition sample_dlq :: "(bytes \<times> bytes) list" where
  "sample_dlq = [(encode_key ''q'' 4, ref_enc ((sample_task 4)\<lparr>attempts := 5\<rparr>))]"

definition sample_db :: mem_db where
  "sample_db = \<lparr>mem_cfs = [(''default'', []), (CF_SYSTEM, []), (cf_pending ''t'', sample_pending),
     (cf_inflight ''t'', sample_inflight), (cf_dlq ''t'', sample_dlq)],
     mem_filters = [(cf_pending ''t'', PendingFilter 0), (cf_inflight ''t'', InflightFilter 300),
       (cf_dlq ''t'', DlqFilter 10)]\<rparr>"

definition sample :: "mem_db registry" where
  "sample = \<lparr>db = sample_db, seq = 5, block_cache = 1, write_buffer_bytes = 1, max_write_buffers = 4,
     counters = new_counters, policies = [''t'' \<mapsto> standard_policy ''t''], queue_locks = {}, ack_locks = {}\<rparr>"

lemma sample_view:
  "mem_view sample_db (cf_pending t) = (if t = ''t'' then Some (map_of sample_pending) else None)"
  "mem_view sample_db (cf_inflight t) = (if t = ''t'' then Some (map_of sample_inflight) else None)"
  "mem_view sample_db (cf_dlq t) = (if t = ''t'' then Some (map_of sample_dlq) else None)"
  by (simp_all add: mem_view_def sample_db_def)

lemma sample_system: "mem_view sample_db CF_SYSTEM = Some Map.empty"
  by (simp add: mem_view_def sample_db_def)

lemma sample_sel [simp]: "seq sample = 5" "db sample = sample_db" "policies sample = [''t'' \<mapsto> standard_policy ''t'']"
  by (simp_all add: sample_def)

lemma sample_tenant:
  "tenant_at (mem_view (db sample)) ''t'' (map_of sample_pending) (map_of sample_inflight) (map_of sample_dlq)"
  by (simp add: tenant_at_def sample_view)

lemma sample_name [simp]: "name_ok ''q''"
  by code_simp

lemma sample_corrupt [simp]: "bc_deserialize ref_task_codec [9] = Inl ''invalid task''"
  by code_simp

lemma all_kv_map_of: "(\<And>k v. (k, v) \<in> set xs \<Longrightarrow> Q k v) \<Longrightarrow> all_kv Q (map_of xs)"
  using all_kv_add [of Q Map.empty xs] by simp

lemma sample_tenant_inv:
  "tenant_inv ref_task_codec 5 (map_of sample_pending) (map_of sample_inflight) (map_of sample_dlq)"
  unfolding tenant_inv_def
proof (intro conjI all_kv_map_of)
  show "disjoint3 (map_of sample_pending) (map_of sample_inflight) (map_of sample_dlq)"
    by (simp add: disjoint3_def sample_pending_def sample_inflight_def sample_dlq_def)
qed (auto simp: sample_pending_def sample_inflight_def sample_dlq_def pending_ok_def inflight_ok_def letter_ok_def
    filed_def waiting_def corrupt_def sample_task_def)

lemma sample_inv: "registry_inv ref_task_codec mem_view sample"
  unfolding registry_inv_def system_inv_def
proof
  fix u
  show "tenant_inv ref_task_codec (unat (seq sample)) (cf_map (mem_view (db sample)) (cf_pending u))
      (cf_map (mem_view (db sample)) (cf_inflight u)) (cf_map (mem_view (db sample)) (cf_dlq u))"
    using sample_tenant_inv by (cases "u = ''t''") (simp_all add: sample_def cf_map_def sample_view)
qed

lemma entries_map_of: "entries (map_of xs) q = filter (\<lambda>(k, v). prefix (queue_prefix q) k) (mem_sort xs)"
  by (simp add: entries_def in_queue_def mem_sort_filter)

lemma sample_entries:
  "entries (map_of sample_pending) ''q'' = sample_pending"
  "entries (map_of sample_inflight) ''q'' = sample_inflight"
  "entries (map_of sample_dlq) ''q'' = sample_dlq"
  unfolding entries_map_of sample_pending_def sample_inflight_def sample_dlq_def
  by (simp_all add: mem_sort_def)

lemma sample_counts [simp]:
  "qcount (map_of sample_pending) ''q'' = 3" "qcount (map_of sample_inflight) ''q'' = 1"
  using length_entries [of "map_of sample_pending" "''q''"] length_entries [of "map_of sample_inflight" "''q''"]
  by (simp_all add: sample_entries) (simp_all add: sample_pending_def sample_inflight_def)

section \<open>A fresh registry\<close>

definition fresh :: "mem_db registry" where
  "fresh = \<lparr>db = \<lparr>mem_cfs = [(''default'', []), (CF_SYSTEM, [])], mem_filters = []\<rparr>, seq = 5, block_cache = 1,
     write_buffer_bytes = 1, max_write_buffers = 4, counters = new_counters, policies = Map.empty,
     queue_locks = {}, ack_locks = {}\<rparr>"

lemma fresh_view: "mem_view (db fresh) = [''default'' \<mapsto> Map.empty, CF_SYSTEM \<mapsto> Map.empty]"
  by (auto simp: mem_view_def fresh_def)

lemma fresh_persisted: "registry_env.persisted ref_policy_codec (mem_view (db fresh)) (policies fresh)"
  unfolding ref_reg.renv.persisted_def ref_reg.renv.meta_of_def
  by (auto simp: fresh_view tenant_cfs_def) (auto simp: fresh_def)

lemma fresh_inv: "registry_inv ref_task_codec mem_view fresh"
  by (simp add: registry_inv_def system_inv_def cf_map_def fresh_view)

end
