(* ===== verification/Rq_Queue_Properties.thy ===== *)
theory Rq_Queue_Properties
  imports Rq_Samples
begin

text \<open>
  The properties of the queue operations, over any store and any serialisation that satisfy
  their contracts, each followed by an instance on the reference store.
\<close>

section \<open>Taking tasks out\<close>

text \<open>
  C4. A dequeue of at most \<open>n\<close> tasks on a reliable store returns, in key order and so in order of
  arrival, the readable tasks among the records it consumes, with the attempt counted and the
  visibility deadline set. The consumed records are an initial part of the queue, long enough to
  hold \<open>n\<close> readable tasks or else the whole queue. They leave the pending map; the tasks go to
  the inflight map and the unreadable records, in envelopes, to the dead letters, all under
  their old keys; nothing outside the tenant changes.
\<close>

theorem dequeue_takes_oldest:
  assumes "reliable_env R view C" and "tenant_at (view (db g)) t P I D"
  shows "let ys = consumed C n (entries P q); out = delivered C (saturating_add (clk 0) timeout) ys in
    prefix ys (entries P q) \<and> length out \<le> n \<and> (length out = n \<or> ys = entries P q) \<and>
    (\<exists>g'. dequeue_batch R C clk g t q n timeout = (Inr out, g') \<and>
       tenant_at (view (db g')) t (P |` (- fst ` set ys)) (I ++ stored C out)
         (D ++ stored C (envelopes C q clk 0 ys)) \<and>
       same_elsewhere t (view (db g)) (view (db g')))"
  unfolding Let_def
  by (intro conjI prefix_consumed length_delivered_consumed delivered_consumed
      reliable_env.dequeue_contract [OF assms])

theorem dequeue_takes_oldest_witness:
  "\<exists>g'. dequeue_batch mem_rocksdb ref_task_codec (\<lambda>i. 100) sample ''t'' ''q'' 2 50 =
     (Inr [(encode_key ''q'' 1, (sample_task 1)\<lparr>attempts := 1, deadline := 150\<rparr>),
           (encode_key ''q'' 3, (sample_task 3)\<lparr>attempts := 1, deadline := 150\<rparr>)], g') \<and>
     tenant_at (mem_view (db g')) ''t'' Map.empty
       (map_of sample_inflight ++ stored ref_task_codec
          [(encode_key ''q'' 1, (sample_task 1)\<lparr>attempts := 1, deadline := 150\<rparr>),
           (encode_key ''q'' 3, (sample_task 3)\<lparr>attempts := 1, deadline := 150\<rparr>)])
       (map_of sample_dlq ++ stored ref_task_codec [(encode_key ''q'' 2, poison 100 ''q'' [9])])"
proof -
  have "consumed ref_task_codec 2 sample_pending = sample_pending"
    by (simp add: sample_pending_def corrupt_def)
  moreover have "map_of sample_pending |` (- fst ` set sample_pending) = Map.empty"
    by (simp add: sample_pending_def)
  moreover have "delivered ref_task_codec (saturating_add 100 50) sample_pending =
      [(encode_key ''q'' 1, (sample_task 1)\<lparr>attempts := 1, deadline := 150\<rparr>),
       (encode_key ''q'' 3, (sample_task 3)\<lparr>attempts := 1, deadline := 150\<rparr>)]"
    by (simp add: sample_pending_def corrupt_def saturating_add_def sample_task_def)
  moreover have "envelopes ref_task_codec ''q'' (\<lambda>i. 100) 0 sample_pending = [(encode_key ''q'' 2, poison 100 ''q'' [9])]"
    by (simp add: sample_pending_def corrupt_def)
  ultimately show ?thesis
    using dequeue_takes_oldest [OF ref.reliable_env_axioms sample_tenant, of 2 "''q''" "\<lambda>i. 100" 50]
    by (simp add: sample_entries Let_def) blast
qed

text \<open>
  C30. However many tasks a worker asks for, \<open>dequeue_with_max_inflight\<close> leaves no more tasks of
  the queue in flight than the cap, or than there were before.
\<close>

theorem max_inflight_respected:
  assumes "reliable_env R view C" and "tenant_at (view (db g)) t P I D"
  shows "\<exists>results g' P' I' D'.
    dequeue_with_max_inflight R C clk g t q n timeout m = (Inr results, g') \<and>
    tenant_at (view (db g')) t P' I' D' \<and> length results \<le> min n (m - qcount I q) \<and>
    qcount I' q \<le> max m (qcount I q)"
  by (rule reliable_env.dequeue_capped_contract [OF assms])

theorem max_inflight_respected_witness:
  "\<exists>results g' P' I' D'.
    dequeue_with_max_inflight mem_rocksdb ref_task_codec (\<lambda>i. 100) sample ''t'' ''q'' 10 50 2 = (Inr results, g') \<and>
    tenant_at (mem_view (db g')) ''t'' P' I' D' \<and> length results \<le> 1 \<and> qcount I' ''q'' \<le> 2"
  using max_inflight_respected [OF ref.reliable_env_axioms sample_tenant, of "\<lambda>i. 100" "''q''" 10 50 2]
  by (simp add: numeral_2_eq_2)

section \<open>Putting tasks in\<close>

text \<open>
  C5. Without a quota an enqueue succeeds: the queue, read in key order, is the old queue followed
  by one record per payload, in the order given, each with the identifier returned for it, no
  attempts and no deadline; nothing outside the tenant changes and the invariant is kept.
\<close>

theorem enqueue_appends:
  assumes "reliable_env R view C" and "tenant_at (view (db g)) t P I D"
    and "tenant_inv C (unat (seq g)) P I D" and "name_ok q"
    and "unat (seq g) + length ps < 2 ^ 64" and "np_backlog_quota policy = None"
  shows "\<exists>g' P'. enqueue_batch_sync R C clk envr now uuid g t q ps policy =
      Some (Inr (map uuid [0..<length ps]), g') \<and>
    tenant_at (view (db g')) t P' I D \<and>
    entries P' q = entries P q @ enc_all (bincode.enc C) (new_records q now uuid (seq g) 0 ps) \<and>
    tenant_inv C (unat (seq g')) P' I D \<and> same_elsewhere t (view (db g)) (view (db g'))"
proof -
  let ?P = "P ++ stored C (new_records q now uuid (seq g) 0 ps)"
  note qe = reliable_env.queue_env [OF assms(1)]
  have fin: "finite (dom P)" by (rule queue_env.tenant_finite(1) [OF qe assms(2)])
  obtain g' where "enqueue_batch_sync R C clk envr now uuid g t q ps policy =
      Some (Inr (map uuid [0..<length ps]), g')" and "tenant_at (view (db g')) t ?P I D"
    and "same_elsewhere t (view (db g)) (view (db g'))" and "unat (seq g') = unat (seq g) + length ps"
    using reliable_env.enqueue_contract [OF assms(1,2,5,6)] by blast
  moreover have "tenant_inv C (unat (seq g) + length ps) ?P I D"
    using queue_env.inv_enqueue [OF qe assms(3,5,4), of now uuid] stored_rev [OF distinct_new_records [OF assms(5)]]
    by simp
  ultimately show ?thesis
    using queue_env.entries_enqueue [OF qe assms(3) fin assms(5,4)] by metis
qed

theorem enqueue_appends_witness:
  "\<exists>g' P'. enqueue_batch_sync mem_rocksdb ref_task_codec (\<lambda>i. 0) (\<lambda>i h. h) 9 (\<lambda>i. show_nat i) sample ''t'' ''q''
       [[5], [6]] ((standard_policy ''t'')\<lparr>np_backlog_quota := None\<rparr>) = Some (Inr [show_nat 0, show_nat 1], g') \<and>
     map fst (entries P' ''q'') = [encode_key ''q'' 1, encode_key ''q'' 2, encode_key ''q'' 3,
       encode_key ''q'' 5, encode_key ''q'' 6] \<and>
     tenant_at (mem_view (db g')) ''t'' P' (map_of sample_inflight) (map_of sample_dlq)"
proof -
  have "tenant_inv ref_task_codec (unat (seq sample)) (map_of sample_pending) (map_of sample_inflight) (map_of sample_dlq)"
    using sample_tenant_inv by simp
  from enqueue_appends [OF ref.reliable_env_axioms sample_tenant this, of "''q''" "[[5], [6]]"
      "(standard_policy ''t'')\<lparr>np_backlog_quota := None\<rparr>" "\<lambda>i. 0" "\<lambda>i h. h" 9 "\<lambda>i. show_nat i"]
  obtain g' P' where r: "enqueue_batch_sync mem_rocksdb ref_task_codec (\<lambda>i. 0) (\<lambda>i h. h) 9 (\<lambda>i. show_nat i) sample ''t'' ''q''
       [[5], [6]] ((standard_policy ''t'')\<lparr>np_backlog_quota := None\<rparr>) = Some (Inr [show_nat 0, show_nat 1], g')"
    and T: "tenant_at (mem_view (db g')) ''t'' P' (map_of sample_inflight) (map_of sample_dlq)"
    and e: "entries P' ''q'' = sample_pending @
      enc_all ref_enc (new_records ''q'' 9 (\<lambda>i. show_nat i) 5 0 [[5], [6]])"
    by (auto simp: sample_entries simp del: new_records.simps)
  have "map fst (entries P' ''q'') = [encode_key ''q'' 1, encode_key ''q'' 2, encode_key ''q'' 3,
       encode_key ''q'' 5, encode_key ''q'' 6]"
    unfolding e by (simp add: sample_pending_def)
  with r T show ?thesis by metis
qed

text \<open>
  C25. The quota under the \<open>Reject\<close> policy: a batch that does not fit is refused with the numbers
  that show it, and the database is left alone; a batch that fits is written.
\<close>

theorem reject_policy:
  assumes "reliable_env R view C" and "tenant_at (view (db g)) t P I D"
    and "unat (seq g) + length ps < 2 ^ 64"
    and "np_backlog_quota policy = Some Q" and "np_backlog_policy policy = Reject"
  shows "if qcount P q + qcount I q + length ps > Q
    then enqueue_batch_sync R C clk envr now uuid g t q ps policy =
      Some (Inl (BacklogQuotaExceeded t q (qcount P q + qcount I q) Q (length ps)), queue_lock g t q)
    else \<exists>g'. enqueue_batch_sync R C clk envr now uuid g t q ps policy =
        Some (Inr (map uuid [0..<length ps]), g') \<and>
      tenant_at (view (db g')) t (P ++ stored C (new_records q now uuid (seq g) 0 ps)) I D"
  by (rule reliable_env.reject_contract [OF assms])

theorem reject_policy_witness:
  "enqueue_batch_sync mem_rocksdb ref_task_codec (\<lambda>i. 0) (\<lambda>i h. h) 9 (\<lambda>i. show_nat i) sample ''t'' ''q''
     [[5], [6]] ((standard_policy ''t'')\<lparr>np_backlog_quota := Some 5\<rparr>) =
   Some (Inl (BacklogQuotaExceeded ''t'' ''q'' 4 5 2), queue_lock sample ''t'' ''q'')"
  using reject_policy [OF ref.reliable_env_axioms sample_tenant, of "[[5], [6]]"
      "(standard_policy ''t'')\<lparr>np_backlog_quota := Some 5\<rparr>" 5 "''q''" "\<lambda>i. 0" "\<lambda>i h. h" 9 "\<lambda>i. show_nat i"]
  by (simp add: standard_policy_def)

text \<open>
  C14. Even on a store that may fail, and whatever other threads did while a producer was blocked:
  after an enqueue that returned identifiers the queue is within its quota, except that
  \<open>EvictOldest\<close> may exceed it by what is in flight.
\<close>

theorem quota_respected:
  assumes "queue_env R view C"
    and "enqueue_batch_sync R C clk envr now uuid g t q ps policy = Some (Inr ids, g')"
    and "np_backlog_quota policy = Some Q"
  shows "\<exists>P I D. tenant_at (view (db g')) t P I D \<and> qcount P q + qcount I q \<le>
    (if np_backlog_policy policy = EvictOldest then max Q (qcount I q + length ps) else Q)"
  by (rule queue_env.quota_contract [OF assms])

theorem quota_respected_witness:
  "\<exists>g' P I D. enqueue_batch_sync mem_rocksdb ref_task_codec (\<lambda>i. 0) (\<lambda>i h. h) 9 (\<lambda>i. show_nat i) sample ''t'' ''q''
       [[5]] ((standard_policy ''t'')\<lparr>np_backlog_quota := Some 5\<rparr>) = Some (Inr [show_nat 0], g') \<and>
     tenant_at (mem_view (db g')) ''t'' P I D \<and> qcount P ''q'' + qcount I ''q'' \<le> 5"
proof -
  let ?pol = "(standard_policy ''t'')\<lparr>np_backlog_quota := Some 5\<rparr>"
  obtain g' where r: "enqueue_batch_sync mem_rocksdb ref_task_codec (\<lambda>i. 0) (\<lambda>i h. h) 9 (\<lambda>i. show_nat i) sample ''t'' ''q''
       [[5]] ?pol = Some (Inr [show_nat 0], g')"
    using reliable_env.reject_contract [OF ref.reliable_env_axioms sample_tenant, of "[[5]]" ?pol 5 "''q''" "\<lambda>i. 0" "\<lambda>i h. h" 9 "\<lambda>i. show_nat i"]
    by (auto simp: standard_policy_def)
  from quota_respected [OF ref.queue_env r, of 5] show ?thesis
    using r by (simp add: standard_policy_def)
qed

text \<open>
  C24. Under \<open>EvictOldest\<close> an enqueue succeeds and first removes the oldest records, exactly as many
  as the batch exceeds the quota by, or all of them when there are fewer.
\<close>

theorem evict_policy:
  assumes "reliable_env R view C" and "tenant_at (view (db g)) t P I D"
    and "unat (seq g) + length ps < 2 ^ 64"
    and "np_backlog_quota policy = Some Q" and "np_backlog_policy policy = EvictOldest"
  shows "let old = take (qcount P q + qcount I q + length ps - Q) (entries P q) in
    \<exists>g'. enqueue_batch_sync R C clk envr now uuid g t q ps policy =
        Some (Inr (map uuid [0..<length ps]), g') \<and>
      tenant_at (view (db g')) t
        (P |` (- fst ` set old) ++ stored C (new_records q now uuid (seq g) 0 ps)) I D"
  unfolding Let_def by (rule reliable_env.evict_contract [OF assms])

theorem evict_policy_witness:
  "\<exists>g'. enqueue_batch_sync mem_rocksdb ref_task_codec (\<lambda>i. 0) (\<lambda>i h. h) 9 (\<lambda>i. show_nat i) sample ''t'' ''q''
       [[5]] ((standard_policy ''t'')\<lparr>np_backlog_quota := Some 4, np_backlog_policy := EvictOldest\<rparr>) =
         Some (Inr [show_nat 0], g') \<and>
     tenant_at (mem_view (db g')) ''t''
       (map_of sample_pending |` (- {encode_key ''q'' 1}) ++ stored ref_task_codec
         (new_records ''q'' 9 (\<lambda>i. show_nat i) 5 0 [[5]])) (map_of sample_inflight) (map_of sample_dlq)"
proof -
  have "take 1 sample_pending = [(encode_key ''q'' 1, ref_enc (sample_task 1))]"
    by (simp add: sample_pending_def)
  then show ?thesis
    using evict_policy [OF ref.reliable_env_axioms sample_tenant, of "[[5]]"
      "(standard_policy ''t'')\<lparr>np_backlog_quota := Some 4, np_backlog_policy := EvictOldest\<rparr>" 4 "''q''"
      "\<lambda>i. 0" "\<lambda>i h. h" 9 "\<lambda>i. show_nat i"]
    by (simp add: sample_entries Let_def)
qed

section \<open>Blocked producers\<close>

text \<open>
  C23. A producer that waits for space returns: once the clock has reached the deadline the wait is
  over, with success or with an error, whatever the store does and whatever other threads did
  meanwhile.
\<close>

theorem block_policy_returns:
  assumes "np_backlog_quota policy = Some Q" and "np_backlog_policy policy = Block ms"
    and "clk 0 + ms \<le> clk (Suc n)"
  shows "\<exists>r. enqueue_batch_sync R C clk envr now uuid g t q ps policy = Some r"
proof -
  have "\<exists>r. block_wait R (\<lambda>i. clk (Suc i)) envr 0 (queue_lock g t q) t q Q (length ps) (clk 0 + ms) = Some r"
    using block_wait_returns [of 0 n "clk 0 + ms" "\<lambda>i. clk (Suc i)"] assms(3) by simp
  then have "\<exists>r. enforce_quota R clk envr (queue_lock g t q) t q policy (length ps) = Some r"
    using assms(1,2) by (auto simp: enforce_quota_def Let_def split: sum.splits)
  then show ?thesis by (auto simp: enqueue_batch_sync_def)
qed

theorem block_policy_returns_witness:
  "\<exists>r. enqueue_batch_sync mem_rocksdb ref_task_codec (\<lambda>i. of_nat (50 * i)) (\<lambda>i h. h) 9 (\<lambda>i. show_nat i) sample ''t'' ''q''
     [[5]] ((standard_policy ''t'')\<lparr>np_backlog_quota := Some 3, np_backlog_policy := Block 200\<rparr>) = Some r"
  by (rule block_policy_returns [where Q = 3 and ms = 200 and n = 3]) simp_all

text \<open>
  The wait cannot succeed while pending records alone fill the quota: the waiting producer holds
  the lock without which no consumer takes a task out, so it always ends with the quota error
  unless another thread removes pending records without that lock. Acknowledgements, for
  instance, do not help.
\<close>

theorem block_policy_starves:
  assumes "reliable_env R view C" and "tenant_at (view (db g)) t P I D"
    and "np_backlog_quota policy = Some Q" and "np_backlog_policy policy = Block ms"
    and "Q < qcount P q + length ps" and "clk 0 + ms \<le> clk (Suc n)"
    and "\<And>i h. \<exists>ks. envr i h = snd (ack_batch R h t ks)"
  shows "\<exists>c g'. enqueue_batch_sync R C clk envr now uuid g t q ps policy =
    Some (Inl (BacklogQuotaExceeded t q c Q (length ps)), g')"
proof -
  have T: "tenant_at (view (db (queue_lock g t q))) t P I D" using assms(2) by simp
  have "reliable_env.full view t q Q (length ps) (queue_lock g t q)"
    using T assms(5) by (auto simp: reliable_env.full_def [OF assms(1)])
  moreover have "reliable_env.full view t q Q (length ps) (envr i h)"
    if "reliable_env.full view t q Q (length ps) h" for i h
    using reliable_env.ack_keeps_full [OF assms(1) that] assms(7) [of i h] by auto
  ultimately obtain c g' where "block_wait R (\<lambda>i. clk (Suc i)) envr 0 (queue_lock g t q) t q Q (length ps) (clk 0 + ms) =
      Some (Inl (BacklogQuotaExceeded t q c Q (length ps)), g')"
    using reliable_env.block_wait_full [OF assms(1), of 0 n "clk 0 + ms" "\<lambda>i. clk (Suc i)"] assms(6) by blast
  then have "enforce_quota R clk envr (queue_lock g t q) t q policy (length ps) =
      Some (Inl (BacklogQuotaExceeded t q c Q (length ps)), g')"
    using assms(3,4) reliable_env.depth_eq [OF assms(1) T, of q] by (simp add: enforce_quota_def Let_def)
  then show ?thesis by (simp add: enqueue_batch_sync_def)
qed

theorem block_policy_starves_witness:
  "\<exists>c g'. enqueue_batch_sync mem_rocksdb ref_task_codec (\<lambda>i. of_nat (50 * i))
     (\<lambda>i h. snd (ack_batch mem_rocksdb h ''t'' [encode_key ''q'' 0])) 9 (\<lambda>i. show_nat i) sample ''t'' ''q''
     [[5]] ((standard_policy ''t'')\<lparr>np_backlog_quota := Some 3, np_backlog_policy := Block 200\<rparr>) =
     Some (Inl (BacklogQuotaExceeded ''t'' ''q'' c 3 1), g')"
  using block_policy_starves [OF ref.reliable_env_axioms sample_tenant, where policy =
      "(standard_policy ''t'')\<lparr>np_backlog_quota := Some 3, np_backlog_policy := Block 200\<rparr>" and Q = 3 and ms = 200
      and q = "''q''" and ps = "[[5]]" and clk = "\<lambda>i. of_nat (50 * i)" and n = 3 and now = 9 and uuid = "\<lambda>i. show_nat i"
      and envr = "\<lambda>i h. snd (ack_batch mem_rocksdb h ''t'' [encode_key ''q'' 0])"]
  by auto

section \<open>Acknowledging\<close>

text \<open>
  C32. Acknowledging a list of keys removes exactly these keys from the inflight map and reports how
  many distinct ones were in flight; doing it again reports none and changes nothing.
\<close>

theorem ack_exact_and_idempotent:
  assumes "reliable_env R view C" and "tenant_at (view (db g)) t P I D"
  shows "\<exists>g' g''. ack_batch R g t ks = (Inr (card (set ks \<inter> dom I)), g') \<and>
    tenant_at (view (db g')) t P (I |` (- set ks)) D \<and>
    ack_batch R g' t ks = (Inr 0, g'') \<and> tenant_at (view (db g'')) t P (I |` (- set ks)) D"
proof -
  obtain g' where 1: "ack_batch R g t ks = (Inr (card (set ks \<inter> dom I)), g')"
    "tenant_at (view (db g')) t P (I |` (- set ks)) D"
    using reliable_env.ack_contract [OF assms] by blast
  have "set ks \<inter> dom (I |` (- set ks)) = {}" and "I |` (- set ks) |` (- set ks) = I |` (- set ks)"
    by auto
  with reliable_env.ack_contract [OF assms(1) 1(2), of ks] 1 show ?thesis by auto
qed

theorem ack_exact_and_idempotent_witness:
  "\<exists>g' g''. ack_batch mem_rocksdb sample ''t'' [encode_key ''q'' 0, encode_key ''q'' 1, encode_key ''q'' 0] = (Inr 1, g') \<and>
     ack_batch mem_rocksdb g' ''t'' [encode_key ''q'' 0, encode_key ''q'' 1, encode_key ''q'' 0] = (Inr 0, g'')"
proof -
  let ?ks = "[encode_key ''q'' 0, encode_key ''q'' 1, encode_key ''q'' 0]"
  have "set ?ks \<inter> dom (map_of sample_inflight) = {encode_key ''q'' 0}"
    by (auto simp: sample_inflight_def)
  then have "card (set ?ks \<inter> dom (map_of sample_inflight)) = 1" by simp
  with ack_exact_and_idempotent [OF ref.reliable_env_axioms sample_tenant, of ?ks] show ?thesis by metis
qed

text \<open>
  C13. A negative acknowledgement of a key that is not in flight does nothing. An unreadable record
  goes to the dead letters in an envelope, a task with five attempts or more goes there as it
  is, any other task goes back to the queue it names, under the next sequence number and with
  its deadline cleared. In each case the key leaves the inflight map in the same batch.
\<close>

theorem nack_branches:
  assumes "reliable_env R view C" and "tenant_at (view (db g)) t P I D"
  shows "\<exists>g'. nack R C now g t k = (Inr (), g') \<and> same_elsewhere t (view (db g)) (view (db g')) \<and>
    (case I k of
       None \<Rightarrow> g' = g
     | Some v \<Rightarrow>
         (case bc_deserialize C v of
            Inl e \<Rightarrow> tenant_at (view (db g')) t P (I(k := None))
              (D(k \<mapsto> bincode.enc C (poison now (key_queue k) v)))
          | Inr x \<Rightarrow>
              if 5 \<le> attempts x then tenant_at (view (db g')) t P (I(k := None)) (D(k \<mapsto> v))
              else tenant_at (view (db g')) t
                (P(encode_key (task_queue x) (seq g) \<mapsto> bincode.enc C (x\<lparr>deadline := 0\<rparr>))) (I(k := None)) D \<and>
                seq g' = seq g + 1))"
proof -
  obtain g' where r: "nack R C now g t k = (Inr (), g')" "same_elsewhere t (view (db g)) (view (db g'))"
    and f: "case nack_fate_of C now I k of
        NotInflight \<Rightarrow> g' = g
      | ToDlq e \<Rightarrow> tenant_at (view (db g')) t P (I(k := None)) (D(k \<mapsto> bincode.enc C e)) \<and> seq g' = seq g
      | ToDlqRaw v \<Rightarrow> tenant_at (view (db g')) t P (I(k := None)) (D(k \<mapsto> v)) \<and> seq g' = seq g
      | Retried x \<Rightarrow> tenant_at (view (db g')) t
          (P(encode_key (task_queue x) (seq g) \<mapsto> bincode.enc C x)) (I(k := None)) D \<and> seq g' = seq g + 1"
    using reliable_env.nack_contract [OF assms] by blast
  have "case I k of
       None \<Rightarrow> g' = g
     | Some v \<Rightarrow>
         (case bc_deserialize C v of
            Inl e \<Rightarrow> tenant_at (view (db g')) t P (I(k := None))
              (D(k \<mapsto> bincode.enc C (poison now (key_queue k) v)))
          | Inr x \<Rightarrow>
              if 5 \<le> attempts x then tenant_at (view (db g')) t P (I(k := None)) (D(k \<mapsto> v))
              else tenant_at (view (db g')) t
                (P(encode_key (task_queue x) (seq g) \<mapsto> bincode.enc C (x\<lparr>deadline := 0\<rparr>))) (I(k := None)) D \<and>
                seq g' = seq g + 1)"
    using f by (auto simp: nack_fate_of_def max_attempts_def split: option.splits sum.splits if_splits)
  with r show ?thesis by blast
qed

theorem nack_branches_witness:
  "\<exists>g'. nack mem_rocksdb ref_task_codec 100 sample ''t'' (encode_key ''q'' 0) = (Inr (), g') \<and>
     tenant_at (mem_view (db g')) ''t''
       ((map_of sample_pending)(encode_key ''q'' 5 \<mapsto> ref_enc ((sample_task 0)\<lparr>attempts := 1\<rparr>)))
       Map.empty (map_of sample_dlq) \<and> seq g' = 6"
proof -
  have "\<not> (5 :: u32) \<le> 1" by (simp add: word_le_nat_alt)
  moreover have "(map_of sample_inflight)(encode_key ''q'' 0 := None) = Map.empty"
    by (simp add: sample_inflight_def)
  moreover have "map_of sample_inflight (encode_key ''q'' 0) =
      Some (ref_enc ((sample_task 0)\<lparr>attempts := 1, deadline := 60\<rparr>))"
    by (simp add: sample_inflight_def)
  ultimately show ?thesis
    using nack_branches [OF ref.reliable_env_axioms sample_tenant, of 100 "encode_key ''q'' 0"]
    by (auto simp: sample_task_def)
qed

text \<open>
  A cumulative acknowledgement up to a sequence number removes from the inflight map exactly
  the tasks of the queue with a number up to it, and reports how many these were.
\<close>

theorem cumulative_ack_exact:
  assumes "reliable_env R view C" and "tenant_at (view (db g)) t P I D"
    and "tenant_inv C n P I D" and "name_ok q"
  shows "let K = {k \<in> dom I. \<exists>m \<le> s. k = encode_key q m} in
    \<exists>g'. cumulative_ack R g t q s = (Inr (card K), g') \<and>
      tenant_at (view (db g')) t P (I |` (- K)) D \<and> same_elsewhere t (view (db g)) (view (db g'))"
  unfolding Let_def by (rule reliable_env.cumulative_ack_contract [OF assms])

theorem cumulative_ack_exact_witness:
  "\<exists>g'. cumulative_ack mem_rocksdb sample ''t'' ''q'' 0 = (Inr 1, g') \<and>
     tenant_at (mem_view (db g')) ''t'' (map_of sample_pending) Map.empty (map_of sample_dlq)"
proof -
  let ?K = "{k \<in> dom (map_of sample_inflight). \<exists>m \<le> (0 :: u64). k = encode_key ''q'' m}"
  have K: "?K = {encode_key ''q'' 0}" by (auto simp: sample_inflight_def)
  moreover have "map_of sample_inflight |` (- {encode_key ''q'' 0}) = Map.empty"
    by (auto simp: sample_inflight_def)
  ultimately show ?thesis
    using cumulative_ack_exact [OF ref.reliable_env_axioms sample_tenant sample_tenant_inv sample_name, of 0]
    unfolding Let_def K by auto
qed

section \<open>The reaper\<close>

text \<open>
  C31. A sweep moves exactly the tasks of the queue whose deadline lies before the sweep's clock
  reading back to the pending map, under the key they had and with the deadline cleared, and
  the unreadable records to the dead letters; a task with time left stays where it is.
\<close>

theorem reaper_exact:
  assumes "reliable_env R view C" and "tenant_at (view (db g)) t P I D"
  shows "let xs = entries I q in \<exists>g'. reap_inflight R C clk g t q = (Inr (), g') \<and>
    tenant_at (view (db g')) t
      (P ++ stored C (map (\<lambda>(k, v). (k, (projr (bc_deserialize C v))\<lparr>deadline := 0\<rparr>))
         (filter (\<lambda>(k, v). expired C (clk 0) v) xs)))
      (I |` (- {k. \<exists>v. (k, v) \<in> set xs \<and> (corrupt C v \<or> expired C (clk 0) v)}))
      (D ++ stored C (envelopes C q clk 0 xs)) \<and>
    same_elsewhere t (view (db g)) (view (db g'))"
proof -
  have "fst ` set (swept C (clk 0) (entries I q)) =
      {k. \<exists>v. (k, v) \<in> set (entries I q) \<and> (corrupt C v \<or> expired C (clk 0) v)}"
    by (force simp: swept_def)
  with reliable_env.reap_contract [OF assms, of clk q] show ?thesis
    by (simp add: Let_def reclaimed_def)
qed

theorem reaper_exact_witness:
  "\<exists>g'. reap_inflight mem_rocksdb ref_task_codec (\<lambda>i. 61) sample ''t'' ''q'' = (Inr (), g') \<and>
     tenant_at (mem_view (db g')) ''t''
       (map_of sample_pending ++ stored ref_task_codec [(encode_key ''q'' 0, (sample_task 0)\<lparr>attempts := 1\<rparr>)])
       Map.empty (map_of sample_dlq)"
proof -
  have e: "expired ref_task_codec 61 (ref_enc ((sample_task 0)\<lparr>attempts := 1, deadline := 60\<rparr>))"
    by (simp add: expired_def)
  have "{k. \<exists>v. (k, v) \<in> set sample_inflight \<and> (corrupt ref_task_codec v \<or> expired ref_task_codec 61 v)} = {encode_key ''q'' 0}"
    using e by (auto simp: sample_inflight_def)
  moreover have "map_of sample_inflight |` (- {encode_key ''q'' 0}) = Map.empty"
    by (auto simp: sample_inflight_def)
  moreover have "envelopes ref_task_codec ''q'' (\<lambda>i. 61) 0 sample_inflight = []"
    by (simp add: sample_inflight_def corrupt_def)
  moreover have "map (\<lambda>(k, v). (k, (projr (bc_deserialize ref_task_codec v))\<lparr>deadline := 0\<rparr>))
      (filter (\<lambda>(k, v). expired ref_task_codec 61 v) sample_inflight) =
      [(encode_key ''q'' 0, (sample_task 0)\<lparr>attempts := 1\<rparr>)]"
    using e by (simp add: sample_inflight_def) (simp add: sample_task_def)
  moreover have "stored ref_task_codec [] = Map.empty" by (simp add: stored_def enc_all_def)
  ultimately show ?thesis
    using reaper_exact [OF ref.reliable_env_axioms sample_tenant, of "''q''" "\<lambda>i. 61"]
    by (simp add: Let_def sample_entries) blast
qed

section \<open>Dead letters\<close>



text \<open>
  Purging removes every dead letter of the tenant, of all its queues, and nothing else, and
  reports how many there were.
\<close>

theorem purge_removes_all:
  assumes "reliable_env R view C" and "tenant_at (view (db g)) t P I D"
  shows "\<exists>g'. purge_dlq R g t = (Inr (card (dom D)), g') \<and>
    tenant_at (view (db g')) t P I Map.empty \<and> same_elsewhere t (view (db g)) (view (db g'))"
  by (rule reliable_env.purge_contract [OF assms])

theorem purge_removes_all_witness:
  "\<exists>g'. purge_dlq mem_rocksdb sample ''t'' = (Inr 1, g') \<and>
     tenant_at (mem_view (db g')) ''t'' (map_of sample_pending) (map_of sample_inflight) Map.empty"
proof -
  have "dom (map_of sample_dlq) = {encode_key ''q'' 4}" by (auto simp: sample_dlq_def)
  then show ?thesis
    using purge_removes_all [OF ref.reliable_env_axioms sample_tenant] by auto
qed

section \<open>Failures\<close>



end
