(* ===== verification/Rq_Registry_Properties.thy ===== *)
theory Rq_Registry_Properties
  imports Rq_Samples
begin

text \<open>
  The properties of keys, column family options, compaction, the life of tenants and
  checkpoints.
\<close>

section \<open>Keys\<close>

text \<open>
  Keys sort by queue order of arrival: within a queue the bytewise order of keys, which is
  RocksDB's order, is the numeric order of sequence numbers over the whole range of \<open>u64\<close>; the
  number can be read back from the key; and different queues or numbers have different keys.
\<close>

theorem key_order:
  "(encode_key q a < encode_key q b \<longleftrightarrow> a < b) \<and> decode_key_seq (encode_key q a) = Some a \<and>
   (encode_key q a = encode_key q' b \<longleftrightarrow> q = q' \<and> a = b)"
  by simp

text \<open>
  A scan with the prefix of one queue meets no key of another, provided the names hold no NUL;
  and the prefix extractor given to RocksDB sends exactly the keys of a queue to its prefix, so
  the Bloom filters and bounded scans on prefixes agree with the scan.
\<close>

theorem queue_isolation:
  assumes "nul_free q" and "nul_free q'"
  shows "(prefix (queue_prefix q) (encode_key q' s) \<longleftrightarrow> q = q') \<and>
    queue_prefix_transform (encode_key q' s) = queue_prefix q' \<and> queue_prefix_in_domain (encode_key q' s) \<and>
    (queue_prefix_transform (encode_key q' s) = queue_prefix_transform (queue_prefix q) \<longleftrightarrow> q = q')"
proof -
  have t: "queue_prefix_transform (as_bytes n @ 0 # r) = queue_prefix n" if "nul_free n" for n r
    using that takeWhile_nul [of "as_bytes n" r]
    by (simp add: queue_prefix_transform_def queue_prefix_def nul_free_def)
  have "queue_prefix_transform (encode_key q' s) = queue_prefix q'"
    using t [OF assms(2), of "to_be_bytes s"] by (simp add: encode_key_def)
  moreover have "queue_prefix_transform (queue_prefix q) = queue_prefix q"
    using t [OF assms(1), of "[]"] by (simp add: queue_prefix_def)
  moreover have "prefix (queue_prefix q) (encode_key q' s) \<longleftrightarrow> q = q'"
    using queue_prefix_other_key [OF assms] by auto
  moreover have "queue_prefix_in_domain (encode_key q' s)"
    by (simp add: queue_prefix_in_domain_def encode_key_def)
  moreover have "queue_prefix q' = queue_prefix q \<longleftrightarrow> q = q'"
    by (auto simp: queue_prefix_def)
  ultimately show ?thesis by simp
qed

theorem queue_isolation_witness:
  "\<not> prefix (queue_prefix ''a'') (encode_key ''ab'' 7) \<and>
   queue_prefix_transform (encode_key ''ab'' 7) = queue_prefix ''ab''"
proof -
  have "nul_free ''a''" "nul_free ''ab''" by code_simp+
  from queue_isolation [OF this, of 7] show ?thesis by simp
qed

text \<open>
  A queue name with a NUL byte is not isolated: every key of such a queue is also met by the
  scan over the queue named by the part before the NUL.
\<close>

theorem nul_name_not_isolated:
  "prefix (queue_prefix q) (encode_key (q @ [CHR 0x00] @ r) s)"
proof -
  have "as_bytes (q @ [CHR 0x00] @ r) = as_bytes q @ [0] @ as_bytes r" by (simp add: as_bytes_def)
  then show ?thesis by (simp add: queue_prefix_def encode_key_def)
qed

section \<open>Compaction\<close>

context queue_env
begin

lemma compact_tenant_cf:
  assumes T: "tenant_at (view (db g)) t P I D" and r: "compact_tenant R C clk g t = (Inr (), g')"
    and f: "registered_filter R (db g) (cf_pending t) = Some fp" "registered_filter R (db g) (cf_inflight t) = Some fi"
      "registered_filter R (db g) (cf_dlq t) = Some fd"
  shows "\<exists>P' I' D'. tenant_at (view (db g')) t P' I' D' \<and> P' \<subseteq>\<^sub>m P \<and> I' \<subseteq>\<^sub>m I \<and> D' \<subseteq>\<^sub>m D \<and>
    (\<forall>k v. P k = Some v \<longrightarrow> (\<forall>j n. fst (run_filter C fp (clk j) v n) = Keep) \<longrightarrow> P' k = Some v) \<and>
    (\<forall>k v. I k = Some v \<longrightarrow> (\<forall>j n. fst (run_filter C fi (clk j) v n) = Keep) \<longrightarrow> I' k = Some v) \<and>
    (\<forall>k v. D k = Some v \<longrightarrow> (\<forall>j n. fst (run_filter C fd (clk j) v n) = Keep) \<longrightarrow> D' k = Some v)"
proof -
  obtain d1 n1 where 1: "compact_range_cf R C clk (cf_pending t) (db g, counters g) = (d1, n1)" by fastforce
  obtain d2 n2 where 2: "compact_range_cf R C clk (cf_inflight t) (d1, n1) = (d2, n2)" by fastforce
  obtain d3 n3 where 3: "compact_range_cf R C clk (cf_dlq t) (d2, n2) = (d3, n3)" by fastforce
  have d: "db g' = d3"
    using r T 1 2 3 by (auto simp: compact_tenant_def cf_handle_view tenant_at_def)
  note o1 = compact_other [of _ "cf_pending t" C clk "db g" "counters g", unfolded 1 fst_conv]
  note o2 = compact_other [of _ "cf_inflight t" C clk d1 n1, unfolded 2 fst_conv]
  note o3 = compact_other [of _ "cf_dlq t" C clk d2 n2, unfolded 3 fst_conv]
  note f1 = compact_filters [of C clk "cf_pending t" "db g" "counters g", unfolded 1 fst_conv]
  note f2 = compact_filters [of C clk "cf_inflight t" d1 n1, unfolded 2 fst_conv]
  have vP: "view (db g) (cf_pending t) = Some P" and vI: "view d1 (cf_inflight t) = Some I"
    and vD: "view d2 (cf_dlq t) = Some D"
    using T o1 o2 by (simp_all add: tenant_at_def)
  obtain P' where P': "view d1 (cf_pending t) = Some P'" "P' \<subseteq>\<^sub>m P"
    using compact_subset [OF vP, of C clk "counters g", unfolded 1 fst_conv] by blast
  obtain I' where I': "view d2 (cf_inflight t) = Some I'" "I' \<subseteq>\<^sub>m I"
    using compact_subset [OF vI, of C clk n1, unfolded 2 fst_conv] by blast
  obtain D' where D': "view d3 (cf_dlq t) = Some D'" "D' \<subseteq>\<^sub>m D"
    using compact_subset [OF vD, of C clk n2, unfolded 3 fst_conv] by blast
  have "P' k = Some v" if "P k = Some v" "\<forall>j n. fst (run_filter C fp (clk j) v n) = Keep" for k v
    using compact_keeps [OF vP that(1) f(1), of C clk "counters g", unfolded 1 fst_conv] that(2) P'(1) by simp
  moreover have "I' k = Some v" if "I k = Some v" "\<forall>j n. fst (run_filter C fi (clk j) v n) = Keep" for k v
    using compact_keeps [OF vI that(1), of fi C clk n1, unfolded 2 fst_conv f1] f(2) that(2) I'(1) by simp
  moreover have "D' k = Some v" if "D k = Some v" "\<forall>j n. fst (run_filter C fd (clk j) v n) = Keep" for k v
    using compact_keeps [OF vD that(1), of fd C clk n2, unfolded 3 fst_conv f1 f2] f(3) that(2) D'(1) by simp
  moreover have "tenant_at (view (db g')) t P' I' D'"
    using P' I' D' o2 o3 d by (simp add: tenant_at_def)
  ultimately show ?thesis using P'(2) I'(2) D'(2) by blast
qed

end

text \<open>
  C29. What a manual compaction of a provisioned tenant may remove: no pending record when the
  retention is zero, no readable inflight record ever, and no readable dead letter that is
  within the retention at every moment of the compaction. It adds nothing.
\<close>

theorem compaction_keeps_live_tasks:
  assumes "queue_env R view C" and "tenant_at (view (db g)) t P I D"
    and "registered_filter R (db g) (cf_pending t) = Some (PendingFilter rp)"
    and "registered_filter R (db g) (cf_inflight t) = Some (InflightFilter ri)"
    and "registered_filter R (db g) (cf_dlq t) = Some (DlqFilter rd)"
    and "compact_tenant R C clk g t = (Inr (), g')"
  shows "\<exists>P' I' D'. tenant_at (view (db g')) t P' I' D' \<and> P' \<subseteq>\<^sub>m P \<and> I' \<subseteq>\<^sub>m I \<and> D' \<subseteq>\<^sub>m D \<and>
    (rp = 0 \<longrightarrow> P' = P) \<and>
    (\<forall>k v x. I k = Some v \<longrightarrow> bc_deserialize C v = Inr x \<longrightarrow> I' k = Some v) \<and>
    (\<forall>k v x. D k = Some v \<longrightarrow> bc_deserialize C v = Inr x \<longrightarrow>
       (\<forall>j. age_ms (clk j) x \<le> rd * 1000) \<longrightarrow> D' k = Some v)"
proof -
  obtain P' I' D' where T: "tenant_at (view (db g')) t P' I' D'" and sub: "P' \<subseteq>\<^sub>m P" "I' \<subseteq>\<^sub>m I" "D' \<subseteq>\<^sub>m D"
    and P: "\<And>k v. P k = Some v \<Longrightarrow> (\<And>j n. fst (run_filter C (PendingFilter rp) (clk j) v n) = Keep) \<Longrightarrow> P' k = Some v"
    and I: "\<And>k v. I k = Some v \<Longrightarrow> (\<And>j n. fst (run_filter C (InflightFilter ri) (clk j) v n) = Keep) \<Longrightarrow> I' k = Some v"
    and D: "\<And>k v. D k = Some v \<Longrightarrow> (\<And>j n. fst (run_filter C (DlqFilter rd) (clk j) v n) = Keep) \<Longrightarrow> D' k = Some v"
    using queue_env.compact_tenant_cf [OF assms(1,2,6,3,4,5)] by (elim exE conjE) blast
  have "P' = P" if "rp = 0"
  proof (rule map_le_antisym [OF sub(1)])
    show "P \<subseteq>\<^sub>m P'"
      using P that by (auto simp: map_le_def make_pending_filter_def)
  qed
  moreover have "I' k = Some v" if "I k = Some v" "bc_deserialize C v = Inr x" for k v x
    using that by (intro I) (auto simp: make_inflight_filter_def task_deserialize_def)
  moreover have "D' k = Some v" if "D k = Some v" "bc_deserialize C v = Inr x" "\<forall>j. age_ms (clk j) x \<le> rd * 1000" for k v x
    using that by (intro D) (auto simp: make_dlq_filter_def task_deserialize_def not_less)
  ultimately show ?thesis using T sub by blast
qed

theorem compaction_keeps_live_tasks_witness:
  "\<exists>g' P' I' D'. compact_tenant mem_rocksdb ref_task_codec (\<lambda>j. 100) sample ''t'' = (Inr (), g') \<and>
     tenant_at (mem_view (db g')) ''t'' P' I' D' \<and> P' = map_of sample_pending \<and>
     I' (encode_key ''q'' 0) = map_of sample_inflight (encode_key ''q'' 0) \<and>
     D' (encode_key ''q'' 4) = map_of sample_dlq (encode_key ''q'' 4)"
proof -
  have f: "registered_filter mem_rocksdb (db sample) (cf_pending ''t'') = Some (PendingFilter 0)"
    "registered_filter mem_rocksdb (db sample) (cf_inflight ''t'') = Some (InflightFilter 300)"
    "registered_filter mem_rocksdb (db sample) (cf_dlq ''t'') = Some (DlqFilter 10)"
    by (simp_all add: sample_db_def)
  obtain g' where r: "compact_tenant mem_rocksdb ref_task_codec (\<lambda>j. 100) sample ''t'' = (Inr (), g')"
    by (cases "compact_tenant mem_rocksdb ref_task_codec (\<lambda>j. 100) sample ''t''")
      (auto simp: compact_tenant_def sample_db_def split: prod.splits)
  have "age_ms 100 ((sample_task 4)\<lparr>attempts := 5\<rparr>) \<le> 10 * 1000"
    by (simp add: age_ms_def saturating_sub_def sample_task_def word_le_nat_alt)
  moreover have "map_of sample_inflight (encode_key ''q'' 0) = Some (ref_enc ((sample_task 0)\<lparr>attempts := 1, deadline := 60\<rparr>))"
    "map_of sample_dlq (encode_key ''q'' 4) = Some (ref_enc ((sample_task 4)\<lparr>attempts := 5\<rparr>))"
    by (simp_all add: sample_inflight_def sample_dlq_def)
  ultimately show ?thesis
    using compaction_keeps_live_tasks [OF ref.queue_env sample_tenant f r] r
      ref_task.deserialize_enc by metis
qed

section \<open>The life of a tenant\<close>

text \<open>
  On a reliable store a tenant without column families can be provisioned: afterwards it has
  three empty ones with the compaction filters of its policy, the policy is in the table and,
  synced, in the system column family, and all other column families are as before. A tenant
  that has a pending column family is refused and nothing changes.
\<close>

theorem provision_effect:
  assumes "reliable_registry R view PC" and "view (db g) CF_SYSTEM = Some S"
  shows "if view (db g) (cf_pending t) \<noteq> None then \<exists>e. provision_tenant R PC g t p = (Inl e, g)
    else view (db g) (cf_inflight t) = None \<longrightarrow> view (db g) (cf_dlq t) = None \<longrightarrow>
      (\<exists>g'. provision_tenant R PC g t p = (Inr (), g') \<and>
        tenant_at (view (db g')) t Map.empty Map.empty Map.empty \<and>
        view (db g') CF_SYSTEM = Some (S(meta_key t \<mapsto> bincode.enc PC p)) \<and>
        policies g' = (policies g)(t \<mapsto> p) \<and>
        registered_filter R (db g') (cf_pending t) = Some (PendingFilter (pending_retention_secs (np_retention p))) \<and>
        registered_filter R (db g') (cf_dlq t) = Some (DlqFilter (dlq_retention_secs (np_retention p))) \<and>
        (\<forall>c. c \<noteq> CF_SYSTEM \<longrightarrow> c \<notin> {cf_pending t, cf_inflight t, cf_dlq t} \<longrightarrow> view (db g') c = view (db g) c))"
proof (cases "view (db g) (cf_pending t)")
  case None
  show ?thesis
  proof (simp only: None if_False not_not simp_thms, intro impI)
    assume "view (db g) (cf_inflight t) = None" "view (db g) (cf_dlq t) = None"
    then obtain g' where r: "provision_tenant R PC g t p = (Inr (), g')"
      using reliable_registry.provision_total [OF assms(1) None] assms(2) by auto
    note re = reliable_registry.registry_env [OF assms(1)]
    note out = registry_env.provision_outcome [OF re r]
    have p: "policies g' = (policies g)(t \<mapsto> p)"
      using out [THEN conjunct2, THEN conjunct2, THEN conjunct2, THEN conjunct2, THEN conjunct1]
      by (cases g, cases g') simp
    have "view (db g') = registry_env.with_meta (registry_env.with_tenant (view (db g)) t) t (Some (bincode.enc PC p))"
      using out by blast
    with r p out assms(2) show "\<exists>g'. provision_tenant R PC g t p = (Inr (), g') \<and>
        tenant_at (view (db g')) t Map.empty Map.empty Map.empty \<and>
        view (db g') CF_SYSTEM = Some (S(meta_key t \<mapsto> bincode.enc PC p)) \<and>
        policies g' = (policies g)(t \<mapsto> p) \<and>
        registered_filter R (db g') (cf_pending t) = Some (PendingFilter (pending_retention_secs (np_retention p))) \<and>
        registered_filter R (db g') (cf_dlq t) = Some (DlqFilter (dlq_retention_secs (np_retention p))) \<and>
        (\<forall>c. c \<noteq> CF_SYSTEM \<longrightarrow> c \<notin> {cf_pending t, cf_inflight t, cf_dlq t} \<longrightarrow> view (db g') c = view (db g) c)"
      by (intro exI [of _ g'])
        (simp add: tenant_at_def registry_env.with_meta_def [OF re] registry_env.with_tenant_def [OF re])
  qed
next
  case (Some m)
  then show ?thesis
    using registry_env.provision_twice [OF reliable_registry.registry_env [OF assms(1)]] by simp
qed

theorem provision_effect_witness:
  "\<exists>g'. provision_tenant mem_rocksdb ref_policy_codec sample ''u'' (premium_policy ''u'') = (Inr (), g') \<and>
     tenant_at (mem_view (db g')) ''u'' Map.empty Map.empty Map.empty"
proof -
  have "mem_view (db sample) CF_SYSTEM = Some Map.empty" by (simp add: mem_view_def sample_db_def)
  from provision_effect [OF ref_reg.reliable_registry_axioms this, of "''u''" "premium_policy ''u''"]
  show ?thesis by (auto simp: sample_view)
qed



text \<open>
  C28. What is on disk keeps agreeing with the table of policies: on any store, a provision of a
  tenant with a UTF-8 name, a drop and a change of policy that succeed keep it.
\<close>

theorem lifecycle_stays_persisted:
  assumes "registry_env R view PC" and "registry_env.persisted PC (view (db g)) (policies g)"
  shows "(utf8_valid (as_bytes t) \<longrightarrow> provision_tenant R PC g t p = (Inr u, g') \<longrightarrow>
      registry_env.persisted PC (view (db g')) (policies g')) \<and>
    (drop_tenant R g t = (Inr u, g') \<longrightarrow> registry_env.persisted PC (view (db g')) (policies g')) \<and>
    (update_namespace_policy R PC g t p = (Inr u, g') \<longrightarrow> registry_env.persisted PC (view (db g')) (policies g'))"
  using registry_env.provision_persisted [OF assms] registry_env.drop_persisted [OF assms]
    registry_env.policy_persisted [OF assms]
  by blast

theorem lifecycle_stays_persisted_witness:
  "\<exists>g. provision_tenant mem_rocksdb ref_policy_codec fresh ''u'' (premium_policy ''u'') = (Inr (), g) \<and>
     registry_env.persisted ref_policy_codec (mem_view (db g)) (policies g)"
proof -
  obtain g where r: "provision_tenant mem_rocksdb ref_policy_codec fresh ''u'' (premium_policy ''u'') = (Inr (), g)"
    using ref_reg.provision_total [of fresh "''u''" "premium_policy ''u''"] by (auto simp: fresh_view)
  have "utf8_valid (as_bytes ''u'')" by code_simp
  with r lifecycle_stays_persisted [OF ref_reg.registry_env fresh_persisted, of "''u''" "premium_policy ''u''" "()" g]
  show ?thesis by blast
qed

section \<open>Checkpoints\<close>

text \<open>
  C40. A checkpoint is written only below the configured directory: when the call reaches RocksDB,
  resolving the requested path step by step, \<open>..\<close> included, ends in a directory below the one
  the base resolves to; a path that would leave it is refused with a permission error.
\<close>

theorem checkpoint_confined:
  assumes "path_components base \<noteq> []"
  shows "(create_checkpoint R g path base = None \<longrightarrow>
      create_checkpoint_at R (db g) path = None \<and>
      prefix (resolve cwd (path_components base)) (resolve cwd (path_components path))) \<and>
    (\<not> prefix (resolve cwd (path_components base)) (resolve cwd (path_components path)) \<longrightarrow>
      (\<exists>m. create_checkpoint R g path base = Some (Io PermissionDenied m)))"
proof -
  have conf: "prefix (resolve cwd (path_components base)) (resolve cwd (path_components path))"
    if no: "ParentDir \<notin> set (path_components path)" and sw: "path_starts_with path base"
  proof -
    obtain r where r: "path_components path = path_components base @ r"
      using sw by (auto simp: path_starts_with_def prefix_def)
    have "RootDir \<notin> set r" using RootDir_only_first [OF r assms] .
    moreover have "ParentDir \<notin> set r" using no r by simp
    ultimately show ?thesis unfolding r resolve_append by (rule resolve_extends [rotated])
  qed
  show ?thesis
  proof (intro conjI impI)
    assume "create_checkpoint R g path base = None"
    then show "create_checkpoint_at R (db g) path = None"
      and "prefix (resolve cwd (path_components base)) (resolve cwd (path_components path))"
      using conf by (auto simp: create_checkpoint_def split: if_splits)
  next
    assume "\<not> prefix (resolve cwd (path_components base)) (resolve cwd (path_components path))"
    then show "\<exists>m. create_checkpoint R g path base = Some (Io PermissionDenied m)"
      using conf by (auto simp: create_checkpoint_def)
  qed
qed

theorem checkpoint_confined_witness:
  "\<exists>m. create_checkpoint mem_rocksdb fresh ''/data/ckpt/../../etc'' ''/data/ckpt'' = Some (Io PermissionDenied m)"
proof -
  have "path_components ''/data/ckpt'' \<noteq> []" by code_simp
  moreover have "\<not> prefix (resolve [] (path_components ''/data/ckpt'')) (resolve [] (path_components ''/data/ckpt/../../etc''))"
    by code_simp
  ultimately show ?thesis using checkpoint_confined by metis
qed

end
