(* ===== verification/Rq_Hazards.thy ===== *)
theory Rq_Hazards
  imports Rq_Samples
begin

text \<open>
  Behaviours of the code that its users would not expect, as theorems: a restart can make new
  tasks overwrite old ones, a task can be handed back twice, an eviction can leave the queue over
  its quota, an envelope returns to a live queue, a long retention can expire everything.
\<close>

section \<open>Restart\<close>

text \<open>
  The sequence counter of a reopened database starts at the clock, not above the numbers in
  use. If the queue holds a task whose number is that reading, the next enqueue replaces it.
\<close>

theorem restart_may_overwrite:
  assumes "reliable_env R view C" and "reliable_registry R view PC"
    and "registry_env.persisted PC (view (db g)) (policies g)"
    and "tenant_at (view (db g)) t P I D" and "P (encode_key q now) = Some v"
    and "unat now + 1 < 2 ^ 64" and "np_backlog_quota policy = None"
  shows "\<exists>g1 g2. open_registry R PC now (db g) cfg = Inr g1 \<and>
    enqueue_batch_sync R C clk envr later uuid g1 t q [p] policy = Some (Inr [uuid 0], g2) \<and>
    tenant_at (view (db g2)) t
      (P(encode_key q now \<mapsto> bincode.enc C (new_task q later (uuid 0) p))) I D"
proof -
  obtain g1 where g1: "open_registry R PC now (db g) cfg = Inr g1" "view (db g1) = view (db g)" "seq g1 = now"
    using reliable_registry.reopen [OF assms(2,3)] by metis
  have T: "tenant_at (view (db g1)) t P I D" using assms(4) g1 by simp
  have w: "unat (seq g1) + length [p] < 2 ^ 64" using assms(6) g1 by simp
  obtain g2 where "enqueue_batch_sync R C clk envr later uuid g1 t q [p] policy =
      Some (Inr (map uuid [0..<length [p]]), g2)"
    and "tenant_at (view (db g2)) t (P ++ stored C (new_records q later uuid (seq g1) 0 [p])) I D"
    using reliable_env.enqueue_contract [OF assms(1) T w assms(7)] by blast
  with g1 show ?thesis by (auto simp: stored_def enc_all_def)
qed

theorem restart_may_overwrite_witness:
  "\<exists>(g :: mem_db registry) g1 g2. registry_env.persisted ref_policy_codec (mem_view (db g)) (policies g) \<and>
     open_registry mem_rocksdb ref_policy_codec 2 (db g) local_config = Inr g1 \<and>
     enqueue_batch_sync mem_rocksdb ref_task_codec (\<lambda>i. 0) (\<lambda>i h. h) 9 (\<lambda>i. show_nat i) g1 ''t'' ''q'' [[7]]
       ((standard_policy ''t'')\<lparr>np_backlog_quota := None\<rparr>) = Some (Inr [show_nat 0], g2) \<and>
     tenant_at (mem_view (db g)) ''t'' (map_of sample_pending) Map.empty Map.empty \<and>
     (\<exists>P. tenant_at (mem_view (db g2)) ''t'' P Map.empty Map.empty \<and>
        P (encode_key ''q'' 2) = Some (ref_enc (new_task ''q'' 9 (show_nat 0) [7])))"
proof -
  define g where "g = fresh\<lparr>db := \<lparr>mem_cfs = [(''default'', []),
      (CF_SYSTEM, [(meta_key ''t'', bincode.enc ref_policy_codec (standard_policy ''t''))]),
      (cf_pending ''t'', sample_pending), (cf_inflight ''t'', []), (cf_dlq ''t'', [])], mem_filters = []\<rparr>,
    policies := [''t'' \<mapsto> standard_policy ''t'']\<rparr>"
  have v: "mem_view (db g) = [''default'' \<mapsto> Map.empty,
      CF_SYSTEM \<mapsto> [meta_key ''t'' \<mapsto> bincode.enc ref_policy_codec (standard_policy ''t'')],
      cf_pending ''t'' \<mapsto> map_of sample_pending, cf_inflight ''t'' \<mapsto> Map.empty, cf_dlq ''t'' \<mapsto> Map.empty]"
    by (auto simp: mem_view_def g_def)
  have pol: "policies g = [''t'' \<mapsto> standard_policy ''t'']" by (simp add: g_def)
  have "utf8_valid (as_bytes ''t'')" by code_simp
  then have p: "registry_env.persisted ref_policy_codec (mem_view (db g)) (policies g)"
    unfolding ref_reg.renv.persisted_def ref_reg.renv.meta_of_def
    by (auto simp: v tenant_cfs_def pol split: if_splits)
  have T: "tenant_at (mem_view (db g)) ''t'' (map_of sample_pending) Map.empty Map.empty"
    by (simp add: v tenant_at_def)
  have k: "map_of sample_pending (encode_key ''q'' 2) = Some [9]" by (simp add: sample_pending_def)
  let ?pol = "(standard_policy ''t'')\<lparr>np_backlog_quota := None\<rparr>"
  have w: "unat (2 :: u64) + 1 < 2 ^ 64" and q: "np_backlog_quota ?pol = None" by simp_all
  let ?new = "ref_enc (new_task ''q'' 9 (show_nat 0) [7])"
  have "\<exists>g1 g2. open_registry mem_rocksdb ref_policy_codec 2 (db g) local_config = Inr g1 \<and>
      enqueue_batch_sync mem_rocksdb ref_task_codec (\<lambda>i. 0) (\<lambda>i h. h) 9 (\<lambda>i. show_nat i) g1 ''t'' ''q'' [[7]] ?pol =
        Some (Inr [show_nat 0], g2) \<and>
      tenant_at (mem_view (db g2)) ''t'' ((map_of sample_pending)(encode_key ''q'' 2 \<mapsto> ?new)) Map.empty Map.empty"
    by (rule restart_may_overwrite [OF ref.reliable_env_axioms ref_reg.reliable_registry_axioms p T k w q])
  then obtain g1 g2 where
    1: "open_registry mem_rocksdb ref_policy_codec 2 (db g) local_config = Inr g1" and
    2: "enqueue_batch_sync mem_rocksdb ref_task_codec (\<lambda>i. 0) (\<lambda>i h. h) 9 (\<lambda>i. show_nat i) g1 ''t'' ''q'' [[7]] ?pol =
        Some (Inr [show_nat 0], g2)" and
    3: "tenant_at (mem_view (db g2)) ''t'' ((map_of sample_pending)(encode_key ''q'' 2 \<mapsto> ?new)) Map.empty Map.empty"
    by (elim exE conjE)
  show ?thesis
    by (rule exI [of _ g], rule exI [of _ g1], rule exI [of _ g2],
        intro exI [of _ "(map_of sample_pending)(encode_key ''q'' 2 \<mapsto> ?new)"] conjI p 1 2 T 3) simp
qed

section \<open>Handing back twice\<close>

text \<open>
  \<open>nack\<close> takes no lock between reading the inflight record and writing its batch. Two calls for
  the same key whose reads come before either write both succeed and leave two copies of the
  task in its queue, under two fresh keys.
\<close>

theorem nack_race_duplicates:
  assumes "reliable_env R view C" and "tenant_at (view (db g)) t P I D"
    and "I k = Some v" and "bc_deserialize C v = Inr x" and "attempts x < 5"
  shows "\<exists>b1 b2 g1 g2 g3 g4. nack_plan R C now g t k = (Inr b1, g1) \<and> nack_plan R C now' g1 t k = (Inr b2, g2) \<and>
    nack_write R g2 b1 = (Inr (), g3) \<and> nack_write R g3 b2 = (Inr (), g4) \<and>
    tenant_at (view (db g4)) t
      (P(encode_key (task_queue x) (seq g) \<mapsto> bincode.enc C (x\<lparr>deadline := 0\<rparr>),
         encode_key (task_queue x) (seq g + 1) \<mapsto> bincode.enc C (x\<lparr>deadline := 0\<rparr>))) (I(k := None)) D"
proof -
  note qe = reliable_env.queue_env [OF assms(1)]
  let ?y = "x\<lparr>deadline := 0\<rparr>"
  let ?b = "\<lambda>s. [DeleteCf (cf_inflight t) k, PutCf (cf_pending t) (encode_key (task_queue x) s) (bincode.enc C ?y)]"
  have fate: "nack_fate_of C n I k = Retried ?y" for n
    using assms(3-5) by (simp add: nack_fate_of_def max_attempts_def not_le)
  have plan: "nack_plan R C n h t k = (Inr (Some (?b (seq h))), h\<lparr>seq := seq h + 1\<rparr>)"
    if h: "tenant_at (view (db h)) t P I D" for n h
  proof -
    have "get_cf R (db h) (cf_inflight t) k = Inr (I k)"
      using reliable_store.get_eq [OF reliable_env.axioms(1) [OF assms(1)]] h by (simp add: tenant_at_def)
    from queue_env.nack_plan_eq [OF qe h this] show ?thesis
      by (simp add: fate queue_env.nack_batch_def [OF qe] queue_env.nack_seq_def [OF qe])
  qed
  have wr: "\<exists>h'. nack_write R h (Some (?b s)) = (Inr (), h') \<and>
      tenant_at (view (db h')) t (P'(encode_key (task_queue x) s \<mapsto> bincode.enc C ?y)) (I'(k := None)) D"
    if h: "tenant_at (view (db h)) t P' I' D" for h P' I' s
  proof -
    obtain d' where "write_opt R (db h) hot_write_opts (?b s) = Inr d'" "view d' = apply_batch (?b s) (view (db h))"
      by (rule reliable_store.write_obtain [OF reliable_env.axioms(1) [OF assms(1)], of "?b s" "db h" hot_write_opts])
        (use h in \<open>auto simp: tenant_at_def\<close>)
    then show ?thesis
      using queue_env.nack_batch_effect(2) [OF qe h, of k "encode_key (task_queue x) s" "bincode.enc C ?y"]
      by (auto simp: nack_write_def simp del: apply_batch_Cons)
  qed
  let ?g1 = "g\<lparr>seq := seq g + 1\<rparr>"
  have T1: "tenant_at (view (db ?g1)) t P I D" using assms(2) by simp
  let ?g2 = "?g1\<lparr>seq := seq ?g1 + 1\<rparr>"
  have T2: "tenant_at (view (db ?g2)) t P I D" using assms(2) by simp
  obtain g3 where g3: "nack_write R ?g2 (Some (?b (seq g))) = (Inr (), g3)"
    "tenant_at (view (db g3)) t (P(encode_key (task_queue x) (seq g) \<mapsto> bincode.enc C ?y)) (I(k := None)) D"
    using wr [OF T2] by blast
  obtain g4 where g4: "nack_write R g3 (Some (?b (seq ?g1))) = (Inr (), g4)"
    "tenant_at (view (db g4)) t (P(encode_key (task_queue x) (seq g) \<mapsto> bincode.enc C ?y,
       encode_key (task_queue x) (seq ?g1) \<mapsto> bincode.enc C ?y)) ((I(k := None))(k := None)) D"
    using wr [OF g3(2)] by blast
  from plan [OF assms(2), of now] plan [OF T1, of now'] g3(1) g4 show ?thesis by auto
qed

theorem nack_race_duplicates_witness:
  "\<exists>b1 b2 g1 g2 g3 g4 P. nack_plan mem_rocksdb ref_task_codec 10 sample ''t'' (encode_key ''q'' 0) = (Inr b1, g1) \<and>
     nack_plan mem_rocksdb ref_task_codec 10 g1 ''t'' (encode_key ''q'' 0) = (Inr b2, g2) \<and>
     nack_write mem_rocksdb g2 b1 = (Inr (), g3) \<and> nack_write mem_rocksdb g3 b2 = (Inr (), g4) \<and>
     tenant_at (mem_view (db g4)) ''t'' P Map.empty (map_of sample_dlq) \<and>
     P (encode_key ''q'' 5) \<noteq> None \<and> P (encode_key ''q'' 6) = P (encode_key ''q'' 5)"
proof -
  have "(map_of sample_inflight)(encode_key ''q'' 0 := None) = Map.empty"
    and k: "map_of sample_inflight (encode_key ''q'' 0) =
      Some (ref_enc ((sample_task 0)\<lparr>attempts := 1, deadline := 60\<rparr>))"
    by (simp_all add: sample_inflight_def)
  moreover have "attempts ((sample_task 0)\<lparr>attempts := 1, deadline := 60\<rparr>) < 5"
    by (simp add: word_less_nat_alt)
  ultimately obtain b1 b2 g1 g2 g3 g4 where
    "nack_plan mem_rocksdb ref_task_codec 10 sample ''t'' (encode_key ''q'' 0) = (Inr b1, g1)"
    "nack_plan mem_rocksdb ref_task_codec 10 g1 ''t'' (encode_key ''q'' 0) = (Inr b2, g2)"
    "nack_write mem_rocksdb g2 b1 = (Inr (), g3)" "nack_write mem_rocksdb g3 b2 = (Inr (), g4)"
    "tenant_at (mem_view (db g4)) ''t'' ((map_of sample_pending)(encode_key ''q'' 5 \<mapsto> ref_enc ((sample_task 0)\<lparr>attempts := 1\<rparr>),
      encode_key ''q'' 6 \<mapsto> ref_enc ((sample_task 0)\<lparr>attempts := 1\<rparr>))) Map.empty (map_of sample_dlq)"
    using nack_race_duplicates [OF ref.reliable_env_axioms sample_tenant k ref_task.deserialize_enc,
        where now = 10 and now' = 10]
    by (auto simp: sample_task_def)
  then show ?thesis
    by (intro exI conjI) (assumption | simp)+
qed

section \<open>Eviction and the quota\<close>

text \<open>
  An enqueue under \<open>EvictOldest\<close> can leave the queue over its quota: it evicts pending records
  only, so with one task in flight and a quota of one it evicts everything that waits and still
  writes the new record.
\<close>

theorem evict_exceeds_quota:
  "\<exists>g' P I D. enqueue_batch_sync mem_rocksdb ref_task_codec (\<lambda>i. 0) (\<lambda>i h. h) 9 (\<lambda>i. show_nat i) sample ''t'' ''q''
       [[5]] ((standard_policy ''t'')\<lparr>np_backlog_quota := Some 1, np_backlog_policy := EvictOldest\<rparr>) =
         Some (Inr [show_nat 0], g') \<and>
     tenant_at (mem_view (db g')) ''t'' P I D \<and> 1 < qcount P ''q'' + qcount I ''q''"
proof -
  let ?pol = "(standard_policy ''t'')\<lparr>np_backlog_quota := Some 1, np_backlog_policy := EvictOldest\<rparr>"
  let ?P = "map_of sample_pending |` (- fst ` set sample_pending) ++ stored ref_task_codec
    (new_records ''q'' 9 (\<lambda>i. show_nat i) 5 0 [[5]])"
  have "take 4 sample_pending = sample_pending" by (simp add: sample_pending_def)
  with reliable_env.evict_contract [OF ref.reliable_env_axioms sample_tenant, where ps = "[[5]]" and policy = ?pol
      and Q = 1 and q = "''q''" and clk = "\<lambda>i. 0" and envr = "\<lambda>i h. h" and now = 9 and uuid = "\<lambda>i. show_nat i"]
  obtain g' where "enqueue_batch_sync mem_rocksdb ref_task_codec (\<lambda>i. 0) (\<lambda>i h. h) 9 (\<lambda>i. show_nat i) sample ''t'' ''q''
      [[5]] ?pol = Some (Inr [show_nat 0], g')"
    and "tenant_at (mem_view (db g')) ''t'' ?P (map_of sample_inflight) (map_of sample_dlq)"
    by (auto simp: sample_entries)
  moreover have "dom ?P \<inter> in_queue ''q'' = {encode_key ''q'' 5}"
    by (auto simp: stored_def enc_all_def sample_pending_def)
  then have "qcount ?P ''q'' = 1" by (simp add: qcount_def)
  moreover have "qcount (map_of sample_inflight) ''q'' = 1" by simp
  ultimately show ?thesis by (metis less_add_same_cancel1 zero_less_one)
qed

section \<open>Envelopes\<close>

text \<open>
  A corrupt record that was moved to the dead letters is put back on its queue by a replay, as a
  task with no attempts: the envelope's attempt count, the largest number there is, is reset.
\<close>

theorem replay_requeues_poison:
  "replayed ref_task_codec s [(k, ref_enc (poison now q raw))] =
   [(encode_key q s, (poison now q raw)\<lparr>attempts := 0\<rparr>)]"
  by (simp add: poison_def)

section \<open>Retention\<close>

text \<open>
  The retention in milliseconds is computed in 64 bits and wraps: a retention of
  18446744073709552 seconds becomes 384 milliseconds, and a record half a second old is removed.
\<close>

theorem retention_wraps:
  "fst (make_pending_filter ref_task_codec 18446744073709552 507 (ref_enc (sample_task 0)) n) = Remove"
proof -
  have "(18446744073709552 * 1000 :: u64) < age_ms 507 (sample_task 0)"
    by (simp add: age_ms_def saturating_sub_def sample_task_def word_less_nat_alt)
  then show ?thesis by (simp add: pending_filter_decision)
qed

end
