(* ===== verification/Rq_Float.thy ===== *)
theory Rq_Float
  imports Rq_Prelude
begin

text \<open>
  Rust's \<open>f64\<close>: IEEE 754 binary64 with rounding to nearest, ties to even. A finite value is the
  rational number it stands for, so the two zeros are one value; the program divides only by
  numbers it has tested to be positive, so their sign is never observed. Every operation computes
  the exact result and rounds it once. The casts between integers and floats saturate, as \<open>as\<close>
  does. The facts the components use are monotonicity of rounding and that integers up to
  \<open>2 ^ 53\<close> and scaled ones are not changed by it.
\<close>

section \<open>Rounding\<close>

fun bitlen :: "int \<Rightarrow> nat" where
  "bitlen n = (if n \<le> 0 then 0 else Suc (bitlen (n div 2)))"

declare bitlen.simps [simp del]

text \<open>The exponent of the leading binary digit of a positive number.\<close>

definition ilog2 :: "rat \<Rightarrow> int" where
  "ilog2 x = (case quotient_of x of (a, b) \<Rightarrow>
     let k = int (bitlen a) - int (bitlen b)
     in if 2 powi k \<le> x then k else k - 1)"

definition rne :: "rat \<Rightarrow> int" where
  "rne x = (let n = \<lfloor>x\<rfloor>; d = x - of_int n
     in if d < 1 / 2 \<or> (d = 1 / 2 \<and> even n) then n else n + 1)"

definition f64_exponent :: "rat \<Rightarrow> int" where
  "f64_exponent x = max (ilog2 \<bar>x\<bar> - 52) (- 1074)"

definition round64 :: "rat \<Rightarrow> rat" where
  "round64 x = (if x = 0 then 0
     else of_int (rne (x / 2 powi f64_exponent x)) * 2 powi f64_exponent x)"

section \<open>Values and operations\<close>

datatype f64 = NaN | NInf | PInf | Fin rat

definition f64_of_rat :: "rat \<Rightarrow> f64" where
  "f64_of_rat x = (let y = round64 x
     in if 2 ^ 1024 \<le> y then PInf else if y \<le> - (2 ^ 1024) then NInf else Fin y)"

definition f64_of_nat :: "nat \<Rightarrow> f64" where
  "f64_of_nat n = f64_of_rat (of_nat n)"

fun f64_add :: "f64 \<Rightarrow> f64 \<Rightarrow> f64" where
  "f64_add (Fin a) (Fin b) = f64_of_rat (a + b)"
| "f64_add NaN y = NaN"
| "f64_add x NaN = NaN"
| "f64_add PInf NInf = NaN"
| "f64_add NInf PInf = NaN"
| "f64_add PInf y = PInf"
| "f64_add NInf y = NInf"
| "f64_add x PInf = PInf"
| "f64_add x NInf = NInf"

fun f64_neg :: "f64 \<Rightarrow> f64" where
  "f64_neg (Fin a) = Fin (- a)"
| "f64_neg PInf = NInf"
| "f64_neg NInf = PInf"
| "f64_neg NaN = NaN"

definition f64_sub :: "f64 \<Rightarrow> f64 \<Rightarrow> f64" where
  "f64_sub x y = f64_add x (f64_neg y)"

definition signed_inf :: "rat \<Rightarrow> f64" where
  "signed_inf s = (if s = 0 then NaN else if 0 < s then PInf else NInf)"

fun f64_sign :: "f64 \<Rightarrow> rat" where
  "f64_sign (Fin a) = sgn a"
| "f64_sign PInf = 1"
| "f64_sign NInf = - 1"
| "f64_sign NaN = 0"

fun f64_mul :: "f64 \<Rightarrow> f64 \<Rightarrow> f64" where
  "f64_mul (Fin a) (Fin b) = f64_of_rat (a * b)"
| "f64_mul NaN y = NaN"
| "f64_mul x NaN = NaN"
| "f64_mul x y = signed_inf (f64_sign x * f64_sign y)"

fun f64_div :: "f64 \<Rightarrow> f64 \<Rightarrow> f64" where
  "f64_div (Fin a) (Fin b) = (if b = 0 then signed_inf (sgn a) else f64_of_rat (a / b))"
| "f64_div NaN y = NaN"
| "f64_div x NaN = NaN"
| "f64_div (Fin a) y = Fin 0"
| "f64_div x (Fin b) = (if b < 0 then f64_neg x else x)"
| "f64_div x y = NaN"

fun f64_less :: "f64 \<Rightarrow> f64 \<Rightarrow> bool" where
  "f64_less (Fin a) (Fin b) \<longleftrightarrow> a < b"
| "f64_less NaN y \<longleftrightarrow> False"
| "f64_less x NaN \<longleftrightarrow> False"
| "f64_less NInf y \<longleftrightarrow> y \<noteq> NInf"
| "f64_less PInf y \<longleftrightarrow> False"
| "f64_less x PInf \<longleftrightarrow> True"
| "f64_less x NInf \<longleftrightarrow> False"

text \<open>\<open>f64::max\<close> and \<open>f64::min\<close> return the other argument when one is not a number.\<close>

definition f64_max :: "f64 \<Rightarrow> f64 \<Rightarrow> f64" where
  "f64_max x y = (if x = NaN then y else if y = NaN then x else if f64_less x y then y else x)"

definition f64_min :: "f64 \<Rightarrow> f64 \<Rightarrow> f64" where
  "f64_min x y = (if x = NaN then y else if y = NaN then x else if f64_less y x then y else x)"

fun f64_floor :: "f64 \<Rightarrow> f64" where
  "f64_floor (Fin a) = Fin (of_int \<lfloor>a\<rfloor>)"
| "f64_floor x = x"

text \<open>A cast to an unsigned integer whose largest value is \<open>most\<close>: truncation, saturating.\<close>

fun f64_to_nat :: "nat \<Rightarrow> f64 \<Rightarrow> nat" where
  "f64_to_nat most (Fin a) = min most (nat \<lfloor>a\<rfloor>)"
| "f64_to_nat most PInf = most"
| "f64_to_nat most x = 0"

definition f64_to_usize :: "f64 \<Rightarrow> nat" where
  "f64_to_usize = f64_to_nat (2 ^ 64 - 1)"

definition f64_to_u32 :: "f64 \<Rightarrow> u32" where
  "f64_to_u32 x = word_of_nat (f64_to_nat (2 ^ 32 - 1) x)"

definition f64_to_u64 :: "f64 \<Rightarrow> u64" where
  "f64_to_u64 x = word_of_nat (f64_to_nat (2 ^ 64 - 1) x)"

text \<open>\<open>f64::MAX\<close>.\<close>

definition F64_MAX :: f64 where
  "F64_MAX = Fin ((2 ^ 53 - 1) * 2 ^ 971)"

text \<open>
  The square root is correctly rounded: the integer root of a scaled argument has at least 54
  bits, and an inexact root is replaced by a point strictly between it and the next, which
  rounds the same way.
\<close>

fun isqrt_loop :: "nat \<Rightarrow> int \<Rightarrow> int \<Rightarrow> int" where
  "isqrt_loop 0 n r = r"
| "isqrt_loop (Suc k) n r = (if (r + 2 ^ k)\<^sup>2 \<le> n then isqrt_loop k n (r + 2 ^ k) else isqrt_loop k n r)"

definition isqrt :: "int \<Rightarrow> int" where
  "isqrt n = isqrt_loop (bitlen n) n 0"

fun f64_sqrt :: "f64 \<Rightarrow> f64" where
  "f64_sqrt (Fin a) = (if a = 0 then Fin 0 else if a < 0 then NaN
     else let e = ilog2 a div 2 - 54; n = isqrt \<lfloor>a / 2 powi (2 * e)\<rfloor>
          in f64_of_rat ((if of_int (n\<^sup>2) * 2 powi (2 * e) = a then of_int n else of_int n + 1 / 2) * 2 powi e))"
| "f64_sqrt PInf = PInf"
| "f64_sqrt x = NaN"

text \<open>\<open>Duration::as_secs_f64\<close> of a duration in nanoseconds.\<close>

definition as_secs_f64 :: "nat \<Rightarrow> f64" where
  "as_secs_f64 ns = f64_add (f64_of_nat (ns div 10 ^ 9)) (f64_div (f64_of_nat (ns mod 10 ^ 9)) (f64_of_nat (10 ^ 9)))"

section \<open>The leading digit\<close>

lemma bitlen_bounds: "0 < n \<Longrightarrow> 2 ^ (bitlen n - 1) \<le> n \<and> n < 2 ^ bitlen n \<and> 0 < bitlen n"
proof (induction n rule: bitlen.induct)
  case (1 n)
  show ?case
  proof (cases "n = 1")
    case True
    then show ?thesis by (simp add: bitlen.simps)
  next
    case False
    with 1 have pos: "0 < n div 2" by auto
    with 1 have IH: "2 ^ (bitlen (n div 2) - 1) \<le> n div 2" "n div 2 < 2 ^ bitlen (n div 2)" "0 < bitlen (n div 2)"
      by auto
    then obtain k where k: "bitlen (n div 2) = Suc k" by (cases "bitlen (n div 2)") auto
    with \<open>0 < n\<close> have "bitlen n = Suc (Suc k)" by (subst bitlen.simps) simp
    with IH k show ?thesis by auto
  qed
qed

lemma powi_bounds:
  assumes "0 < a" "2 ^ (m - 1) \<le> a" "a < 2 ^ m" "0 < m"
  shows "(2 :: rat) powi (int m - 1) \<le> of_int a" "of_int a < (2 :: rat) powi (int m)"
proof -
  obtain k where k: "m = Suc k" using assms(4) by (cases m) auto
  have "(2 :: int) ^ k \<le> a" "a < 2 ^ m" using assms(1-3) k by simp_all
  then have "of_int (2 ^ k) \<le> (of_int a :: rat)" "of_int a < (of_int (2 ^ m) :: rat)"
    by (simp_all only: of_int_le_iff of_int_less_iff)
  then show "(2 :: rat) powi (int m - 1) \<le> of_int a" "of_int a < (2 :: rat) powi (int m)"
    by (simp_all add: k power_int_add)
qed

lemma ilog2_bounds: "0 < x \<Longrightarrow> 2 powi ilog2 x \<le> x \<and> x < 2 powi (ilog2 x + 1)"
proof -
  assume x: "0 < x"
  obtain a b where q: "quotient_of x = (a, b)" by fastforce
  have b: "0 < b" using quotient_of_denom_pos [OF q] .
  have xab: "x = of_int a / of_int b" using quotient_of_div [OF q] .
  with x b have a: "0 < a" by (simp add: zero_less_divide_iff)
  define m n where "m = bitlen a" and "n = bitlen b"
  have m: "2 ^ (m - 1) \<le> a" "a < 2 ^ m" "0 < m" and n: "2 ^ (n - 1) \<le> b" "b < 2 ^ n" "0 < n"
    using a b bitlen_bounds [of a] bitlen_bounds [of b] by (auto simp: m_def n_def)
  note ra = powi_bounds [OF a m] and rb = powi_bounds [OF b n]
  let ?k = "int m - int n"
  have "(2 :: rat) powi (?k - 1) = 2 powi (int m - 1) / 2 powi (int n)"
    by (simp add: power_int_diff)
  also have "\<dots> \<le> of_int a / of_int b"
    by (rule frac_le) (use ra rb a b in auto)
  finally have lo: "2 powi (?k - 1) \<le> x" by (simp add: xab)
  have "x < 2 powi (int m) / 2 powi (int n - 1)"
    unfolding xab by (rule frac_less) (use ra rb a in auto)
  also have "\<dots> = 2 powi (?k + 1)"
    by (simp add: power_int_diff power_int_add)
  finally show ?thesis
    using lo by (auto simp: ilog2_def q m_def [symmetric] n_def [symmetric] Let_def)
qed

lemma ilog2_mono: "0 < x \<Longrightarrow> x \<le> y \<Longrightarrow> ilog2 x \<le> ilog2 y"
proof (rule ccontr)
  assume "0 < x" "x \<le> y" "\<not> ilog2 x \<le> ilog2 y"
  then have "(2 :: rat) powi (ilog2 y + 1) \<le> 2 powi (ilog2 x)"
    by (intro power_int_increasing) auto
  with ilog2_bounds [of x] ilog2_bounds [of y] \<open>0 < x\<close> \<open>x \<le> y\<close> show False by linarith
qed

lemma ilog2_less: "0 < x \<Longrightarrow> x < 2 powi k \<Longrightarrow> ilog2 x < k"
proof (rule ccontr)
  assume "0 < x" "x < 2 powi k" "\<not> ilog2 x < k"
  then have "(2 :: rat) powi k \<le> 2 powi (ilog2 x)" by (intro power_int_increasing) auto
  with ilog2_bounds [of x] \<open>0 < x\<close> \<open>x < 2 powi k\<close> show False by linarith
qed

section \<open>Rounding to an integer\<close>

lemma rne_of_int [simp]: "rne (of_int n) = n"
  by (simp add: rne_def)

lemma rne_floor: "\<lfloor>x\<rfloor> \<le> rne x \<and> rne x \<le> \<lfloor>x\<rfloor> + 1"
  by (simp add: rne_def Let_def)

lemma rne_mono: "x \<le> y \<Longrightarrow> rne x \<le> rne y"
proof (cases "\<lfloor>x\<rfloor> = \<lfloor>y\<rfloor>")
  case True
  assume "x \<le> y"
  with True show ?thesis by (auto simp: rne_def Let_def)
next
  case False
  assume "x \<le> y"
  with False have "\<lfloor>x\<rfloor> + 1 \<le> \<lfloor>y\<rfloor>" using floor_mono [of x y] by linarith
  with rne_floor [of x] rne_floor [of y] show ?thesis by linarith
qed

lemma rne_neg: "rne (- x) = - rne x"
proof (cases "of_int \<lfloor>x\<rfloor> = x")
  case True
  then show ?thesis by (metis of_int_minus rne_of_int)
next
  case False
  then have "\<lfloor>- x\<rfloor> = - \<lfloor>x\<rfloor> - 1" by linarith
  with False show ?thesis by (auto simp: rne_def Let_def)
qed

section \<open>Rounding to a float\<close>

lemma round64_0 [simp]: "round64 0 = 0"
  by (simp add: round64_def)

lemma round64_neg: "round64 (- x) = - round64 x"
  by (simp add: round64_def f64_exponent_def rne_neg)

text \<open>Numbers with at most 53 significant bits and a representable exponent are kept.\<close>

lemma powi_of_int: "0 \<le> k \<Longrightarrow> (2 :: rat) powi k = of_int (2 ^ nat k)"
  by (simp add: power_int_def)

lemma round64_grid:
  assumes "f64_exponent x \<le> e" "x = of_int m * 2 powi e"
  shows "round64 x = x"
proof (cases "x = 0")
  case False
  have "x / 2 powi f64_exponent x = of_int m * 2 powi (e - f64_exponent x)"
    by (simp add: assms(2) power_int_diff)
  also have "\<dots> = of_int (m * 2 ^ nat (e - f64_exponent x))"
    using assms(1) by (simp add: powi_of_int)
  finally have *: "rne (x / 2 powi f64_exponent x) = m * 2 ^ nat (e - f64_exponent x)"
    by (simp only: rne_of_int)
  have "of_int (m * 2 ^ nat (e - f64_exponent x)) * 2 powi f64_exponent x = x"
    using \<open>x / 2 powi f64_exponent x = _\<close> \<open>of_int m * 2 powi (e - f64_exponent x) = _\<close>
    by (metis eq_divide_imp nonzero_eq_divide_eq power_int_not_zero zero_neq_numeral)
  with False * show ?thesis by (simp add: round64_def)
qed simp

lemma round64_dyadic:
  assumes "\<bar>m\<bar> \<le> 2 ^ 53" "- 1074 \<le> e" "x = of_int m * 2 powi e"
  shows "round64 x = x"
proof -
  have strict: "round64 (of_int m' * 2 powi e') = of_int m' * 2 powi e'"
    if m: "\<bar>m'\<bar> < 2 ^ 53" and e: "- 1074 \<le> e'" for m' e'
  proof (cases "m' = 0")
    case False
    have "\<bar>of_int m' * 2 powi e'\<bar> < (2 :: rat) ^ 53 * 2 powi e'"
      using m by (simp add: abs_mult flip: of_int_abs)
    also have "\<dots> = 2 powi (53 + e')" by (simp add: power_int_add)
    finally have "ilog2 \<bar>of_int m' * 2 powi e'\<bar> < 53 + e'"
      using False by (intro ilog2_less) auto
    with e have "f64_exponent (of_int m' * 2 powi e') \<le> e'" by (simp add: f64_exponent_def)
    then show ?thesis by (rule round64_grid) simp
  qed simp
  show ?thesis
  proof (cases "\<bar>m\<bar> = 2 ^ 53")
    case True
    then have "m = 2 ^ 53 \<or> m = - (2 ^ 53)" by linarith
    then obtain h where h: "m = 2 * h" "\<bar>h\<bar> < 2 ^ 53"
      using that [of "2 ^ 52"] that [of "- (2 ^ 52)"] by auto
    then have "x = of_int h * 2 powi (e + 1)"
      using assms(3) by (simp add: power_int_add)
    with strict [of h "e + 1"] h(2) assms(2) show ?thesis by simp
  next
    case False
    with assms strict [of m e] show ?thesis by simp
  qed
qed

lemma round64_int: "\<bar>m\<bar> \<le> 2 ^ 53 \<Longrightarrow> round64 (of_int m) = of_int m"
  by (rule round64_dyadic [where e = 0]) auto

lemma round64_nat: "n \<le> 2 ^ 53 \<Longrightarrow> round64 (of_nat n) = of_nat n"
  using round64_int [of "int n"] by simp

lemma round64_power2: "round64 (2 ^ n) = 2 ^ n"
  by (rule round64_dyadic [where m = 1 and e = "int n"]) auto

lemma round64_mono_pos:
  assumes "0 < x" "x \<le> y"
  shows "round64 x \<le> round64 y"
proof (cases "f64_exponent x = f64_exponent y")
  case True
  with assms show ?thesis by (auto simp: round64_def intro!: rne_mono divide_right_mono)
next
  case False
  let ?L = "ilog2 y"
  have ab: "\<bar>x\<bar> = x" "\<bar>y\<bar> = y" using assms by auto
  have ge: "ilog2 x \<le> ?L" using assms ilog2_mono by blast
  with False ab have lt: "f64_exponent x < f64_exponent y" and ey: "f64_exponent y = ?L - 52"
    by (auto simp: f64_exponent_def)
  with ge ab have "ilog2 x < ?L" by (auto simp: f64_exponent_def)
  then have "(2 :: rat) powi (ilog2 x + 1) \<le> 2 powi ?L" by (intro power_int_increasing) auto
  with ilog2_bounds [of x] assms have "x \<le> 2 powi ?L" by linarith
  then have "x / 2 powi f64_exponent x \<le> 2 powi ?L / 2 powi f64_exponent x"
    by (intro divide_right_mono) auto
  also have "\<dots> = of_int (2 ^ nat (?L - f64_exponent x))"
    using lt ey by (simp add: powi_of_int flip: power_int_diff)
  finally have "rne (x / 2 powi f64_exponent x) \<le> 2 ^ nat (?L - f64_exponent x)"
    using rne_mono rne_of_int by metis
  then have "round64 x \<le> of_int (2 ^ nat (?L - f64_exponent x)) * 2 powi f64_exponent x"
    using assms by (simp add: round64_def del: of_int_power)
  also have "\<dots> = 2 powi ?L"
    using lt ey powi_of_int [of "?L - f64_exponent x"] by (simp add: power_int_diff divide_eq_eq)
  finally have up: "round64 x \<le> 2 powi ?L" .
  have "2 powi ?L / 2 powi f64_exponent y \<le> y / 2 powi f64_exponent y"
    using ilog2_bounds [of y] assms by (intro divide_right_mono) auto
  moreover have "(2 :: rat) powi ?L / 2 powi f64_exponent y = of_int (2 ^ 52)"
    by (simp add: ey flip: power_int_diff)
  ultimately have "2 ^ 52 \<le> rne (y / 2 powi f64_exponent y)"
    using rne_mono rne_of_int by metis
  then have "(2 :: rat) ^ 52 \<le> of_int (rne (y / 2 powi f64_exponent y))"
    by (metis of_int_le_iff of_int_numeral of_int_power)
  then have "2 ^ 52 * 2 powi (?L - 52) \<le> round64 y"
    using assms ey by (simp add: round64_def)
  with up show ?thesis by (simp add: power_int_diff)
qed

lemma round64_nonneg: "0 \<le> x \<Longrightarrow> 0 \<le> round64 x"
proof (cases "x = 0")
  case False
  assume "0 \<le> x"
  then have "rne 0 \<le> rne (x / 2 powi f64_exponent x)" by (intro rne_mono) simp
  then have "0 \<le> rne (x / 2 powi f64_exponent x)" using rne_of_int [of 0] by simp
  with False show ?thesis by (simp add: round64_def)
qed simp

lemma round64_mono: "x \<le> y \<Longrightarrow> round64 x \<le> round64 y"
proof -
  assume le: "x \<le> y"
  consider "0 < x" | "x \<le> 0" "0 \<le> y" | "y < 0" by linarith
  then show ?thesis
  proof cases
    case 1
    with le show ?thesis by (simp add: round64_mono_pos)
  next
    case 2
    have "0 \<le> round64 (- x)" "0 \<le> round64 y" using 2 by (auto intro: round64_nonneg)
    then show ?thesis by (simp add: round64_neg)
  next
    case 3
    with le have "round64 (- y) \<le> round64 (- x)" by (intro round64_mono_pos) auto
    then show ?thesis by (simp add: round64_neg)
  qed
qed

section \<open>Ranges\<close>

text \<open>
  \<open>between lo hi x\<close>: a finite float in a closed interval. Bounds that are floats themselves
  survive rounding, by monotonicity.
\<close>

fun between :: "rat \<Rightarrow> rat \<Rightarrow> f64 \<Rightarrow> bool" where
  "between lo hi (Fin a) \<longleftrightarrow> lo \<le> a \<and> a \<le> hi"
| "between lo hi x \<longleftrightarrow> False"

definition f64_bound :: "rat \<Rightarrow> bool" where
  "f64_bound q \<longleftrightarrow> round64 q = q \<and> \<bar>q\<bar> < 2 ^ 1024"

lemma between_elim: "between lo hi x \<Longrightarrow> (\<And>a. x = Fin a \<Longrightarrow> lo \<le> a \<Longrightarrow> a \<le> hi \<Longrightarrow> P) \<Longrightarrow> P"
  by (cases x) auto

lemma between_mono: "between lo hi x \<Longrightarrow> lo' \<le> lo \<Longrightarrow> hi \<le> hi' \<Longrightarrow> between lo' hi' x"
  by (cases x) auto

lemma bound_0 [simp]: "f64_bound 0"
  by (simp add: f64_bound_def)

lemma bound_dyadic: "\<bar>m\<bar> \<le> 2 ^ 53 \<Longrightarrow> - 1074 \<le> e \<Longrightarrow> e \<le> 970 \<Longrightarrow> f64_bound (of_int m * 2 powi e)"
proof -
  assume m: "\<bar>m\<bar> \<le> 2 ^ 53" and e: "- 1074 \<le> e" "e \<le> 970"
  have "\<bar>(of_int m :: rat)\<bar> \<le> of_int (2 ^ 53)"
    using m by (simp only: of_int_le_iff flip: of_int_abs)
  moreover have "(2 :: rat) powi e \<le> 2 powi 970" using e(2) by (rule power_int_increasing) simp
  ultimately have "\<bar>of_int m * (2 :: rat) powi e\<bar> \<le> of_int (2 ^ 53) * 2 powi 970"
    unfolding abs_mult by (intro mult_mono) auto
  also have "\<dots> < 2 ^ 1024" by simp
  finally show ?thesis using round64_dyadic [OF m e(1) refl] by (simp add: f64_bound_def)
qed

lemma bound_nat: "n \<le> 2 ^ 53 \<Longrightarrow> f64_bound (of_nat n)"
  using bound_dyadic [of "int n" 0] by simp

lemma bound_numeral: "numeral k \<le> (2 :: nat) ^ 53 \<Longrightarrow> f64_bound (numeral k)"
  using bound_nat [of "numeral k"] by simp

lemma bound_1 [simp]: "f64_bound 1"
  using bound_nat [of 1] by simp

lemma bound_power2: "n < 1000 \<Longrightarrow> f64_bound (2 ^ n)"
proof -
  assume "n < 1000"
  then have "(2 :: rat) ^ n < 2 ^ 1024" by (intro power_strict_increasing) auto
  then show ?thesis by (simp add: f64_bound_def round64_power2)
qed

lemma bound_neg: "f64_bound q \<Longrightarrow> f64_bound (- q)"
  by (simp add: f64_bound_def round64_neg)

lemma between_of_rat: "f64_bound lo \<Longrightarrow> f64_bound hi \<Longrightarrow> lo \<le> q \<Longrightarrow> q \<le> hi \<Longrightarrow> between lo hi (f64_of_rat q)"
  using round64_mono [of lo q] round64_mono [of q hi]
  by (auto simp: f64_bound_def f64_of_rat_def Let_def)

lemma f64_of_rat_exact: "f64_bound q \<Longrightarrow> f64_of_rat q = Fin q"
  by (auto simp: f64_bound_def f64_of_rat_def Let_def)

lemma f64_of_nat_exact: "n \<le> 2 ^ 53 \<Longrightarrow> f64_of_nat n = Fin (of_nat n)"
  by (simp add: f64_of_nat_def f64_of_rat_exact bound_nat)

lemma between_of_nat: "f64_bound hi \<Longrightarrow> of_nat n \<le> hi \<Longrightarrow> between 0 hi (f64_of_nat n)"
  by (simp add: f64_of_nat_def between_of_rat)

lemma between_add:
  "between a b x \<Longrightarrow> between c d y \<Longrightarrow> f64_bound lo \<Longrightarrow> f64_bound hi \<Longrightarrow> lo \<le> a + c \<Longrightarrow> b + d \<le> hi
   \<Longrightarrow> between lo hi (f64_add x y)"
  by (elim between_elim) (auto intro!: between_of_rat)

lemma between_sub:
  "between a b x \<Longrightarrow> between c d y \<Longrightarrow> f64_bound lo \<Longrightarrow> f64_bound hi \<Longrightarrow> lo \<le> a - d \<Longrightarrow> b - c \<le> hi
   \<Longrightarrow> between lo hi (f64_sub x y)"
  by (elim between_elim) (auto simp: f64_sub_def intro!: between_of_rat)

lemma between_mul:
  assumes "between 0 b x" "between 0 d y" "f64_bound hi" "b * d \<le> hi"
  shows "between 0 hi (f64_mul x y)"
proof -
  obtain p q where "x = Fin p" "y = Fin q" "0 \<le> p" "p \<le> b" "0 \<le> q" "q \<le> d"
    using assms(1,2) by (elim between_elim)
  moreover from this have "p * q \<le> b * d" by (intro mult_mono) auto
  ultimately show ?thesis using assms(3,4) by (auto intro!: between_of_rat)
qed

lemma between_square:
  assumes "between (- b) b x" "f64_bound hi" "b * b \<le> hi"
  shows "between 0 hi (f64_mul x x)"
proof -
  obtain p where p: "x = Fin p" "- b \<le> p" "p \<le> b" using assms(1) by (elim between_elim)
  then have "\<bar>p\<bar> * \<bar>p\<bar> \<le> b * b" by (intro mult_mono) auto
  with p assms(2,3) show ?thesis by (auto intro!: between_of_rat simp: abs_if split: if_splits)
qed

lemma between_div_le:
  assumes "between 0 b x" "between c d y" "0 < c" "f64_bound hi" "b \<le> hi * c"
  shows "between 0 hi (f64_div x y)"
proof -
  obtain p q where *: "x = Fin p" "y = Fin q" "0 \<le> p" "p \<le> b" "c \<le> q"
    using assms(1,2) by (elim between_elim)
  have "0 \<le> hi * c" using * assms(5) by linarith
  with assms(3) have "0 \<le> hi" by (simp add: zero_le_mult_iff)
  with * assms(5) have "p \<le> hi * q" using mult_left_mono [of c q hi] by linarith
  with * assms(3,4) show ?thesis by (auto intro!: between_of_rat simp: divide_le_eq)
qed

lemma between_max: "between a b x \<Longrightarrow> between c d y \<Longrightarrow> between (max a c) (max b d) (f64_max x y)"
  by (elim between_elim) (auto simp: f64_max_def)

lemma between_min: "between a b x \<Longrightarrow> between c d y \<Longrightarrow> between (min a c) (min b d) (f64_min x y)"
  by (elim between_elim) (auto simp: f64_min_def)

lemma to_nat_floor: "between 0 hi x \<Longrightarrow> hi < of_nat (Suc most) \<Longrightarrow> of_nat (f64_to_nat most (f64_floor x)) \<le> (case x of Fin a \<Rightarrow> a | _ \<Rightarrow> 0)"
  by (elim between_elim) (auto simp: min_def, linarith+)

end
