(* ===== verification/Rq_Scheduler.thy ===== *)
theory Rq_Scheduler
  imports Rq_Float
begin

text \<open>
  \<open>src/scheduler.rs\<close>: the weighted fair queueing scheduler. The concurrent map of tenants is a
  map from names; the order in which \<open>iter\<close> enumerates it is not specified and is the argument
  \<open>order\<close>, a list of names of which those in the map count. Instants are nanoseconds; the
  function \<open>now\<close> gives the instant at which a tenant's bucket is refilled.
\<close>

section \<open>Policies and state\<close>

record tenant_policy =
  tp_tenant_id :: string
  tp_weight :: u32
  tp_max_inflight :: nat
  tp_burst_tokens :: u32
  tp_rate_per_sec :: u32

definition tenant_policy_standard :: "string \<Rightarrow> tenant_policy" where
  "tenant_policy_standard t = \<lparr>tp_tenant_id = t, tp_weight = 10, tp_max_inflight = 500,
     tp_burst_tokens = 100, tp_rate_per_sec = 100\<rparr>"

definition tenant_policy_premium :: "string \<Rightarrow> tenant_policy" where
  "tenant_policy_premium t = \<lparr>tp_tenant_id = t, tp_weight = 50, tp_max_inflight = 5000,
     tp_burst_tokens = 1000, tp_rate_per_sec = 1000\<rparr>"

definition f64_of_u32 :: "u32 \<Rightarrow> f64" where
  "f64_of_u32 w = f64_of_nat (unat w)"

record tenant_state =
  ts_policy :: tenant_policy
  ts_tokens :: f64
  ts_inflight :: nat
  ts_paused :: bool
  ts_virtual_finish_time :: f64
  ts_last_refill :: nat
  ts_created_at :: nat

definition tenant_state_new :: "nat \<Rightarrow> tenant_policy \<Rightarrow> tenant_state" where
  "tenant_state_new now p =
     \<lparr>ts_policy = p, ts_tokens = f64_of_u32 (tp_burst_tokens p), ts_inflight = 0, ts_paused = False,
      ts_virtual_finish_time = Fin 0, ts_last_refill = now, ts_created_at = now\<rparr>"

definition refill :: "nat \<Rightarrow> tenant_state \<Rightarrow> tenant_state" where
  "refill now st =
     (let elapsed = as_secs_f64 (now - ts_last_refill st);
          refill = f64_mul elapsed (f64_of_u32 (tp_rate_per_sec (ts_policy st)))
      in st\<lparr>ts_tokens := f64_min (f64_add (ts_tokens st) refill) (f64_of_u32 (tp_burst_tokens (ts_policy st))),
            ts_last_refill := now\<rparr>)"

record wfq_scheduler =
  sc_tenants :: "string \<rightharpoonup> tenant_state"
  sc_virtual_time :: u64

definition scheduler_new :: wfq_scheduler where
  "scheduler_new = \<lparr>sc_tenants = Map.empty, sc_virtual_time = 0\<rparr>"

section \<open>Registration\<close>

definition sched_register :: "nat \<Rightarrow> wfq_scheduler \<Rightarrow> tenant_policy \<Rightarrow> wfq_scheduler" where
  "sched_register now s p = s\<lparr>sc_tenants := (sc_tenants s)(tp_tenant_id p \<mapsto> tenant_state_new now p)\<rparr>"

definition sched_deregister :: "wfq_scheduler \<Rightarrow> string \<Rightarrow> wfq_scheduler" where
  "sched_deregister s t = s\<lparr>sc_tenants := (sc_tenants s)(t := None)\<rparr>"

definition sched_update_policy :: "nat \<Rightarrow> wfq_scheduler \<Rightarrow> tenant_policy \<Rightarrow> wfq_scheduler" where
  "sched_update_policy now s p =
     (case sc_tenants s (tp_tenant_id p) of
        Some st \<Rightarrow> s\<lparr>sc_tenants := (sc_tenants s)(tp_tenant_id p \<mapsto> st\<lparr>ts_policy := p\<rparr>)\<rparr>
      | None \<Rightarrow> s\<lparr>sc_tenants := (sc_tenants s)(tp_tenant_id p \<mapsto> tenant_state_new now p)\<rparr>)"

section \<open>Scheduling\<close>

definition eligible :: "tenant_state \<Rightarrow> bool" where
  "eligible st \<longleftrightarrow> \<not> ts_paused st \<and> ts_inflight st < tp_max_inflight (ts_policy st)"

text \<open>The sum of the weights is a \<open>u32\<close>, which wraps around in a release build.\<close>

definition total_weight :: "string list \<Rightarrow> (string \<rightharpoonup> tenant_state) \<Rightarrow> u32" where
  "total_weight order m =
     sum_list (map (\<lambda>t. case m t of Some st \<Rightarrow> if eligible st then tp_weight (ts_policy st) else 0 | None \<Rightarrow> 0) order)"

text \<open>A candidate: name, virtual finish time, weight and tokens.\<close>

type_synonym candidate = "string \<times> f64 \<times> u32 \<times> f64"

fun collect_candidates ::
  "(string \<Rightarrow> nat) \<Rightarrow> string list \<Rightarrow> (string \<rightharpoonup> tenant_state) \<Rightarrow> candidate list
   \<Rightarrow> (string \<rightharpoonup> tenant_state) \<times> candidate list" where
  "collect_candidates now [] m cs = (m, cs)"
| "collect_candidates now (t # order) m cs =
     (case m t of
        None \<Rightarrow> collect_candidates now order m cs
      | Some st \<Rightarrow>
          if ts_paused st \<or> ts_inflight st \<ge> tp_max_inflight (ts_policy st)
          then collect_candidates now order m cs
          else let st' = refill (now t) st
               in collect_candidates now order (m(t \<mapsto> st'))
                    (cs @ [(tp_tenant_id (ts_policy st'), ts_virtual_finish_time st',
                            tp_weight (ts_policy st'), ts_tokens st')]))"

text \<open>
  \<open>sort_by\<close> is a stable sort; elements that do not compare as less keep their order.
\<close>

fun insert_by :: "('a \<Rightarrow> 'a \<Rightarrow> bool) \<Rightarrow> 'a \<Rightarrow> 'a list \<Rightarrow> 'a list" where
  "insert_by lt x [] = [x]"
| "insert_by lt x (y # ys) = (if lt y x then y # insert_by lt x ys else x # y # ys)"

definition stable_sort :: "('a \<Rightarrow> 'a \<Rightarrow> bool) \<Rightarrow> 'a list \<Rightarrow> 'a list" where
  "stable_sort lt xs = foldr (insert_by lt) xs []"

text \<open>One grant: tokens are consumed, the virtual finish time and the inflight count advance.\<close>

definition grant :: "f64 \<Rightarrow> u32 \<Rightarrow> nat \<Rightarrow> tenant_state \<Rightarrow> tenant_state" where
  "grant vt weight slots st =
     st\<lparr>ts_tokens := f64_sub (ts_tokens st) (f64_of_nat slots),
        ts_virtual_finish_time :=
          f64_add (f64_max vt (ts_virtual_finish_time st)) (f64_div (f64_of_nat slots) (f64_of_u32 (max weight 1))),
        ts_inflight := ts_inflight st + slots\<rparr>"

definition slots_for :: "nat \<Rightarrow> u32 \<Rightarrow> u32 \<Rightarrow> f64 \<Rightarrow> nat \<Rightarrow> nat" where
  "slots_for total_slots tw weight tokens remaining =
     (let fraction = f64_div (f64_of_u32 weight) (f64_of_u32 tw);
          raw_slots = f64_to_usize (f64_floor (f64_mul (f64_of_nat total_slots) fraction));
          token_cap = f64_to_usize (f64_floor tokens)
      in min (min raw_slots token_cap) remaining)"

fun allocate_loop ::
  "nat \<Rightarrow> u32 \<Rightarrow> f64 \<Rightarrow> candidate list \<Rightarrow> (string \<rightharpoonup> tenant_state) \<Rightarrow> (string \<times> nat) list \<Rightarrow> nat
   \<Rightarrow> (string \<rightharpoonup> tenant_state) \<times> (string \<times> nat) list \<times> nat" where
  "allocate_loop total_slots tw vt [] m allocations remaining = (m, allocations, remaining)"
| "allocate_loop total_slots tw vt ((t, vft, weight, tokens) # cs) m allocations remaining =
     (if remaining = 0 then (m, allocations, remaining)
      else let slots = slots_for total_slots tw weight tokens remaining
           in if slots = 0 then allocate_loop total_slots tw vt cs m allocations remaining
              else allocate_loop total_slots tw vt cs
                     (case m t of Some st \<Rightarrow> m(t \<mapsto> grant vt weight slots st) | None \<Rightarrow> m)
                     (allocations @ [(t, slots)]) (remaining - slots))"

definition give_leftover ::
  "(string \<rightharpoonup> tenant_state) \<Rightarrow> (string \<times> nat) list \<Rightarrow> nat \<Rightarrow> (string \<rightharpoonup> tenant_state) \<times> (string \<times> nat) list" where
  "give_leftover m allocations remaining =
     (case allocations of
        [] \<Rightarrow> (m, [])
      | (t, n) # rest \<Rightarrow>
          if remaining > 0
          then (case m t of Some st \<Rightarrow> m(t \<mapsto> st\<lparr>ts_inflight := ts_inflight st + remaining\<rparr>) | None \<Rightarrow> m,
                (t, n + remaining) # rest)
          else (m, allocations))"

definition schedule ::
  "string list \<Rightarrow> (string \<Rightarrow> nat) \<Rightarrow> wfq_scheduler \<Rightarrow> nat \<Rightarrow> (string \<times> nat) list \<times> wfq_scheduler" where
  "schedule order now s total_slots =
     (if total_slots = 0 then ([], s)
      else let vt = f64_of_nat (unat (sc_virtual_time s)); tw = total_weight order (sc_tenants s)
           in if tw = 0 then ([], s)
              else case collect_candidates now order (sc_tenants s) [] of (m, candidates) \<Rightarrow>
                   case allocate_loop total_slots tw vt
                          (stable_sort (\<lambda>a b. f64_less (fst (snd a)) (fst (snd b))) candidates) m [] total_slots of
                     (m, allocations, remaining) \<Rightarrow>
                   case give_leftover m allocations remaining of (m, allocations) \<Rightarrow>
                     (allocations, s\<lparr>sc_tenants := m, sc_virtual_time := f64_to_u64 (f64_add vt (Fin 1))\<rparr>))"

section \<open>Other operations\<close>

definition set_paused :: "wfq_scheduler \<Rightarrow> string \<Rightarrow> bool \<Rightarrow> unit option \<times> wfq_scheduler" where
  "set_paused s t p =
     (case sc_tenants s t of
        None \<Rightarrow> (None, s)
      | Some st \<Rightarrow> (Some (), s\<lparr>sc_tenants := (sc_tenants s)(t \<mapsto> st\<lparr>ts_paused := p\<rparr>)\<rparr>))"

definition sched_release :: "wfq_scheduler \<Rightarrow> string \<Rightarrow> nat \<Rightarrow> wfq_scheduler" where
  "sched_release s t n =
     (case sc_tenants s t of
        None \<Rightarrow> s
      | Some st \<Rightarrow> s\<lparr>sc_tenants := (sc_tenants s)(t \<mapsto> st\<lparr>ts_inflight := ts_inflight st - n\<rparr>)\<rparr>)"

definition sched_policy :: "wfq_scheduler \<Rightarrow> string \<Rightarrow> tenant_policy option" where
  "sched_policy s t = map_option ts_policy (sc_tenants s t)"

definition baseline_rate :: "wfq_scheduler \<Rightarrow> string \<Rightarrow> f64 option" where
  "baseline_rate s t = map_option (\<lambda>st. f64_of_u32 (tp_rate_per_sec (ts_policy st))) (sc_tenants s t)"

definition tenant_snapshot :: "wfq_scheduler \<Rightarrow> string \<Rightarrow> (tenant_policy \<times> f64 \<times> bool \<times> nat) option" where
  "tenant_snapshot s t =
     map_option (\<lambda>st. (ts_policy st, ts_tokens st, ts_paused st, ts_created_at st)) (sc_tenants s t)"

definition all_tenant_ids :: "string list \<Rightarrow> wfq_scheduler \<Rightarrow> string list" where
  "all_tenant_ids order s = filter (\<lambda>t. sc_tenants s t \<noteq> None) order"

definition sched_all_snapshots :: "string list \<Rightarrow> wfq_scheduler \<Rightarrow> (string \<times> tenant_policy \<times> f64 \<times> nat) list" where
  "sched_all_snapshots order s =
     List.map_filter (\<lambda>t. map_option (\<lambda>st. (t, ts_policy st, ts_tokens st, ts_inflight st)) (sc_tenants s t)) order"

end
