(* ===== verification/Rq_Scheduler_Facts.thy ===== *)
theory Rq_Scheduler_Facts
  imports Rq_Scheduler "HOL-Library.Multiset"
begin

text \<open>
  What a round of the scheduler does: the refill pass, the stable sort, the allocation loop and
  the leftover, composed into one specification of \<open>schedule\<close>; and the invariant every
  operation of the scheduler keeps (names agree with keys, token buckets stay between zero and
  the largest burst, virtual finish times are comparable).
\<close>

section \<open>The stable sort\<close>

lemma set_insert_by [simp]: "set (insert_by lt x xs) = insert x (set xs)"
  by (induction xs) auto

lemma mset_insert_by [simp]: "mset (insert_by lt x xs) = add_mset x (mset xs)"
  by (induction xs) auto

lemma mset_stable_sort [simp]: "mset (stable_sort lt xs) = mset xs"
  by (induction xs) (auto simp: stable_sort_def)

lemma set_stable_sort [simp]: "set (stable_sort lt xs) = set xs"
  by (metis mset_stable_sort set_mset_mset)

lemma distinct_map_stable_sort: "distinct (map f (stable_sort lt xs)) \<longleftrightarrow> distinct (map f xs)"
  by (metis mset_map mset_stable_sort mset_eq_imp_distinct_iff)

text \<open>Where the comparison is a strict weak order on the elements, the result is sorted.\<close>

lemma insert_by_sorted:
  assumes trans: "\<And>a b c. a \<in> A \<Longrightarrow> b \<in> A \<Longrightarrow> c \<in> A \<Longrightarrow> \<not> lt b a \<Longrightarrow> \<not> lt c b \<Longrightarrow> \<not> lt c a"
    and asym: "\<And>a b. a \<in> A \<Longrightarrow> b \<in> A \<Longrightarrow> lt a b \<Longrightarrow> \<not> lt b a"
  shows "x \<in> A \<Longrightarrow> set xs \<subseteq> A \<Longrightarrow> sorted_wrt (\<lambda>a b. \<not> lt b a) xs \<Longrightarrow>
    sorted_wrt (\<lambda>a b. \<not> lt b a) (insert_by lt x xs)"
proof (induction xs)
  case (Cons y ys)
  show ?case
  proof (cases "lt y x")
    case True
    with Cons asym show ?thesis by auto
  next
    case False
    have "\<not> lt z x" if "z \<in> set ys" for z
      using Cons.prems that False trans [of x y z] by auto
    with False Cons.prems show ?thesis by auto
  qed
qed simp

lemma stable_sort_sorted:
  assumes "\<And>a b c. a \<in> A \<Longrightarrow> b \<in> A \<Longrightarrow> c \<in> A \<Longrightarrow> \<not> lt b a \<Longrightarrow> \<not> lt c b \<Longrightarrow> \<not> lt c a"
    and "\<And>a b. a \<in> A \<Longrightarrow> b \<in> A \<Longrightarrow> lt a b \<Longrightarrow> \<not> lt b a" and "set xs \<subseteq> A"
  shows "sorted_wrt (\<lambda>a b. \<not> lt b a) (stable_sort lt xs)"
  using assms(3)
proof (induction xs)
  case (Cons x xs)
  then have "x \<in> A" "set (stable_sort lt xs) \<subseteq> A" "sorted_wrt (\<lambda>a b. \<not> lt b a) (stable_sort lt xs)" by simp_all
  then have "sorted_wrt (\<lambda>a b. \<not> lt b a) (insert_by lt x (stable_sort lt xs))"
    using assms(1,2) by (intro insert_by_sorted [of A lt])
  then show ?case by (simp add: stable_sort_def)
qed (simp add: stable_sort_def)

lemma f64_less_asym: "f64_less a b \<Longrightarrow> \<not> f64_less b a"
  by (cases a; cases b) auto

lemma f64_not_less_trans:
  "a \<noteq> NaN \<Longrightarrow> b \<noteq> NaN \<Longrightarrow> c \<noteq> NaN \<Longrightarrow> \<not> f64_less b a \<Longrightarrow> \<not> f64_less c b \<Longrightarrow> \<not> f64_less c a"
  by (cases a; cases b; cases c) auto

lemma stable_sort_f64:
  assumes "\<And>x. x \<in> set xs \<Longrightarrow> key x \<noteq> NaN"
  shows "sorted_wrt (\<lambda>a b. \<not> f64_less (key b) (key a)) (stable_sort (\<lambda>a b. f64_less (key a) (key b)) xs)"
  by (rule stable_sort_sorted [where A = "set xs"])
    (use assms f64_not_less_trans f64_less_asym in \<open>blast+\<close>)

section \<open>Subsequences\<close>

lemma subseq_set: "subseq xs ys \<Longrightarrow> set xs \<subseteq> set ys"
  by (blast elim: list_emb_set)

lemma subseq_distinct: "subseq xs ys \<Longrightarrow> distinct ys \<Longrightarrow> distinct xs"
proof (induction rule: list_emb.induct)
  case (list_emb_Cons2 x y xs ys)
  then show ?case using subseq_set by fastforce
qed auto

lemma subseq_sorted_wrt: "subseq xs ys \<Longrightarrow> sorted_wrt P ys \<Longrightarrow> sorted_wrt P xs"
proof (induction rule: list_emb.induct)
  case (list_emb_Cons2 x y xs ys)
  then show ?case using subseq_set by fastforce
qed auto

section \<open>Signs\<close>

text \<open>Not a negative number; infinity and NaN are allowed.\<close>

fun f64_nonneg :: "f64 \<Rightarrow> bool" where
  "f64_nonneg (Fin a) \<longleftrightarrow> 0 \<le> a"
| "f64_nonneg NInf \<longleftrightarrow> False"
| "f64_nonneg x \<longleftrightarrow> True"

lemma nonneg_of_rat: "0 \<le> q \<Longrightarrow> f64_nonneg (f64_of_rat q)"
  using round64_nonneg [of q] by (auto simp: f64_of_rat_def Let_def)

lemma of_rat_not_NaN [simp]: "f64_of_rat q \<noteq> NaN"
  by (simp add: f64_of_rat_def Let_def)

lemma nonneg_of_nat [simp]: "f64_nonneg (f64_of_nat n)" "f64_nonneg (f64_of_u32 w)"
  unfolding f64_of_nat_def f64_of_u32_def by (rule nonneg_of_rat, rule of_nat_0_le_iff)+

lemma nonneg_add: "f64_nonneg x \<Longrightarrow> f64_nonneg y \<Longrightarrow> f64_nonneg (f64_add x y)"
  by (cases x; cases y) (auto simp: nonneg_of_rat)

lemma nonneg_mul: "f64_nonneg x \<Longrightarrow> f64_nonneg y \<Longrightarrow> f64_nonneg (f64_mul x y)"
  by (cases x; cases y) (auto simp: nonneg_of_rat signed_inf_def sgn_if)

lemma nonneg_div: "f64_nonneg x \<Longrightarrow> f64_nonneg y \<Longrightarrow> f64_nonneg (f64_div x y)"
  by (cases x; cases y) (auto simp: nonneg_of_rat signed_inf_def sgn_if)

lemma nonneg_as_secs [simp]: "f64_nonneg (as_secs_f64 ns)"
  by (simp add: as_secs_f64_def nonneg_add nonneg_div)

lemma unat_u32_less: "unat (w :: u32) < 2 ^ 32"
proof -
  have "unat w < 2 ^ LENGTH(32)" by (rule unsigned_less)
  then show ?thesis by simp
qed

lemma between_of_u32: "between 0 (2 ^ 32) (f64_of_u32 w)"
proof -
  have "unat w \<le> 2 ^ 32" using unat_u32_less [of w] by simp
  then have "of_nat (unat w) \<le> (of_nat (2 ^ 32) :: rat)" by (simp only: of_nat_le_iff)
  then have "of_nat (unat w) \<le> (2 :: rat) ^ 32" by (simp only: of_nat_power of_nat_numeral)
  with bound_power2 [of 32] show ?thesis
    unfolding f64_of_u32_def by (intro between_of_nat) simp_all
qed

lemma f64_of_u32_exact: "f64_of_u32 w = Fin (of_nat (unat w))"
  unfolding f64_of_u32_def by (rule f64_of_nat_exact) (use unat_u32_less [of w] in simp)

section \<open>The refill pass\<close>

definition eligible_at :: "(string \<rightharpoonup> tenant_state) \<Rightarrow> string \<Rightarrow> bool" where
  "eligible_at m t = (case m t of Some st \<Rightarrow> eligible st | None \<Rightarrow> False)"

definition candidate_of :: "tenant_state \<Rightarrow> candidate" where
  "candidate_of st = (tp_tenant_id (ts_policy st), ts_virtual_finish_time st, tp_weight (ts_policy st), ts_tokens st)"

definition keyed :: "(string \<rightharpoonup> tenant_state) \<Rightarrow> bool" where
  "keyed m \<longleftrightarrow> (\<forall>t st. m t = Some st \<longrightarrow> tp_tenant_id (ts_policy st) = t)"

definition refill_all :: "(string \<Rightarrow> nat) \<Rightarrow> string list \<Rightarrow> (string \<rightharpoonup> tenant_state) \<Rightarrow> (string \<rightharpoonup> tenant_state)" where
  "refill_all now order m = (\<lambda>t. if t \<in> set order \<and> eligible_at m t then map_option (refill (now t)) (m t) else m t)"

lemma refill_fields [simp]:
  "ts_policy (refill n st) = ts_policy st" "ts_inflight (refill n st) = ts_inflight st"
  "ts_paused (refill n st) = ts_paused st" "ts_virtual_finish_time (refill n st) = ts_virtual_finish_time st"
  by (simp_all add: refill_def Let_def)

lemma collect_candidates_eq:
  "distinct order \<Longrightarrow> collect_candidates now order m cs =
     (refill_all now order m, cs @ map (\<lambda>t. candidate_of (refill (now t) (the (m t)))) (filter (eligible_at m) order))"
proof (induction order arbitrary: m cs)
  case Nil
  then show ?case by (simp add: refill_all_def)
next
  case (Cons t order)
  show ?case
  proof (cases "eligible_at m t")
    case False
    then have "refill_all now (t # order) m = refill_all now order m" by (auto simp: refill_all_def)
    with False Cons show ?thesis
      by (auto simp: eligible_at_def eligible_def split: option.splits)
  next
    case True
    then obtain st where st: "m t = Some st" "\<not> ts_paused st" "ts_inflight st < tp_max_inflight (ts_policy st)"
      by (auto simp: eligible_at_def eligible_def split: option.splits)
    let ?m = "m(t \<mapsto> refill (now t) st)"
    have "t \<notin> set order" using Cons.prems by simp
    then have "eligible_at ?m u = eligible_at m u" if "u \<in> set order" for u
      using that by (auto simp: eligible_at_def)
    then have "filter (eligible_at ?m) order = filter (eligible_at m) order"
      by (auto intro: filter_cong)
    moreover have "map (\<lambda>u. candidate_of (refill (now u) (the (?m u)))) (filter (eligible_at m) order) =
           map (\<lambda>u. candidate_of (refill (now u) (the (m u)))) (filter (eligible_at m) order)"
      using \<open>t \<notin> set order\<close> by auto
    moreover have "refill_all now order ?m = refill_all now (t # order) m"
      using True st \<open>t \<notin> set order\<close> by (auto simp: eligible_at_def refill_all_def)
    ultimately show ?thesis
      using Cons True st by (simp add: Let_def candidate_of_def)
  qed
qed

section \<open>The allocation loop\<close>

definition backed :: "(string \<rightharpoonup> tenant_state) \<Rightarrow> candidate list \<Rightarrow> bool" where
  "backed m cs \<longleftrightarrow> distinct (map fst cs) \<and> (\<forall>c \<in> set cs. \<exists>st. m (fst c) = Some st \<and> c = candidate_of st)"

definition granted ::
  "f64 \<Rightarrow> (string \<rightharpoonup> tenant_state) \<Rightarrow> (string \<times> nat) list \<Rightarrow> (string \<rightharpoonup> tenant_state)" where
  "granted vt m al = (\<lambda>t. case map_of al t of None \<Rightarrow> m t
     | Some n \<Rightarrow> map_option (\<lambda>st. grant vt (tp_weight (ts_policy st)) n st) (m t))"

lemma granted_Nil [simp]: "granted vt m [] = m"
  by (simp add: granted_def)

lemma granted_Cons:
  "m t = Some st \<Longrightarrow> t \<notin> fst ` set al \<Longrightarrow>
   granted vt (m(t \<mapsto> grant vt (tp_weight (ts_policy st)) n st)) al = granted vt m ((t, n) # al)"
  by (auto simp: granted_def fun_eq_iff map_of_eq_None_iff [symmetric] split: option.splits)

text \<open>What the loop gives out: part of the candidates, in their order, within their tokens.\<close>

definition sound_grants :: "candidate list \<Rightarrow> nat \<Rightarrow> (string \<times> nat) list \<Rightarrow> bool" where
  "sound_grants cs r al \<longleftrightarrow> subseq (map fst al) (map fst cs) \<and> sum_list (map snd al) \<le> r \<and>
     (\<forall>(t, n) \<in> set al. 0 < n \<and> (\<exists>vft w tok. (t, vft, w, tok) \<in> set cs \<and> n \<le> f64_to_usize (f64_floor tok)))"

lemma slots_for_le:
  "slots_for total_slots tw w tok r \<le> r" "slots_for total_slots tw w tok r \<le> f64_to_usize (f64_floor tok)"
  by (simp_all add: slots_for_def Let_def)

lemma backed_Cons: "backed m (c # cs) \<Longrightarrow> backed m cs"
  by (simp add: backed_def)

lemma backed_upd: "backed m cs \<Longrightarrow> t \<notin> fst ` set cs \<Longrightarrow> backed (m(t \<mapsto> st)) cs"
  by (auto simp: backed_def image_iff)

lemma sound_grants_skip: "sound_grants cs r al \<Longrightarrow> sound_grants (c # cs) r al"
  by (fastforce simp: sound_grants_def intro: subseq_Cons')

lemma sound_grants_take:
  "sound_grants cs (r - n) al \<Longrightarrow> 0 < n \<Longrightarrow> n \<le> r \<Longrightarrow> n \<le> f64_to_usize (f64_floor tok) \<Longrightarrow>
   sound_grants ((t, vft, w, tok) # cs) r ((t, n) # al)"
  by (fastforce simp: sound_grants_def)

lemma sound_grants_names: "sound_grants cs r al \<Longrightarrow> fst ` set al \<subseteq> fst ` set cs"
proof -
  assume "sound_grants cs r al"
  then have "subseq (map fst al) (map fst cs)" by (simp add: sound_grants_def)
  then have "set (map fst al) \<subseteq> set (map fst cs)" by (rule subseq_set)
  then show ?thesis by simp
qed

lemma allocate_loop_spec:
  "backed m cs \<Longrightarrow> \<exists>new. sound_grants cs r new \<and>
     allocate_loop total_slots tw vt cs m al r = (granted vt m new, al @ new, r - sum_list (map snd new))"
proof (induction cs arbitrary: m al r)
  case Nil
  then show ?case by (auto simp: sound_grants_def intro!: exI [of _ "[]"])
next
  case (Cons c cs)
  obtain t vft w tok where c: "c = (t, vft, w, tok)" by (cases c)
  have zero: "sound_grants (c # cs) r []" by (simp add: sound_grants_def)
  let ?n = "slots_for total_slots tw w tok r"
  show ?case
  proof (cases "r = 0")
    case True
    with zero c show ?thesis by (auto intro!: exI [of _ "[]"])
  next
    case r: False
    show ?thesis
    proof (cases "?n = 0")
      case True
      from Cons.IH [OF backed_Cons [OF Cons.prems], of r al] obtain new where
        "sound_grants cs r new"
        "allocate_loop total_slots tw vt cs m al r = (granted vt m new, al @ new, r - sum_list (map snd new))" by blast
      with True r c show ?thesis by (auto intro!: exI [of _ new] sound_grants_skip)
    next
      case False
      from Cons.prems c obtain st where st: "m t = Some st" "w = tp_weight (ts_policy st)"
        and fresh: "t \<notin> fst ` set cs" by (auto simp: backed_def candidate_of_def)
      let ?m = "m(t \<mapsto> grant vt w ?n st)"
      from Cons.IH [OF backed_upd [OF backed_Cons [OF Cons.prems] fresh], of "r - ?n" "grant vt w ?n st" "al @ [(t, ?n)]"]
      obtain new where new: "sound_grants cs (r - ?n) new"
        "allocate_loop total_slots tw vt cs ?m (al @ [(t, ?n)]) (r - ?n) =
          (granted vt ?m new, (al @ [(t, ?n)]) @ new, r - ?n - sum_list (map snd new))" by blast
      have "t \<notin> fst ` set new"
        using fresh sound_grants_names [OF new(1)] by auto
      then have "granted vt ?m new = granted vt m ((t, ?n) # new)"
        using granted_Cons st by simp
      with new r False c st show ?thesis
        by (intro exI [of _ "(t, ?n) # new"]) (auto simp: Let_def slots_for_le intro!: sound_grants_take)
    qed
  qed
qed

section \<open>A scheduling round\<close>

lemma grant_fields [simp]:
  "ts_policy (grant vt w n st) = ts_policy st" "ts_inflight (grant vt w n st) = ts_inflight st + n"
  "ts_paused (grant vt w n st) = ts_paused st"
  by (simp_all add: grant_def)

text \<open>
  The specification of a round that grants something: \<open>new\<close> is what the loop gave, the first
  entry receives what it left over.
\<close>

definition round_result ::
  "f64 \<Rightarrow> (string \<rightharpoonup> tenant_state) \<Rightarrow> nat \<Rightarrow> (string \<times> nat) list \<Rightarrow> (string \<rightharpoonup> tenant_state) \<times> (string \<times> nat) list" where
  "round_result vt m total_slots new =
     give_leftover (granted vt m new) new (total_slots - sum_list (map snd new))"

definition round_candidates :: "string list \<Rightarrow> (string \<Rightarrow> nat) \<Rightarrow> wfq_scheduler \<Rightarrow> candidate list" where
  "round_candidates order now s = stable_sort (\<lambda>a b. f64_less (fst (snd a)) (fst (snd b)))
     (map (\<lambda>t. candidate_of (refill (now t) (the (sc_tenants s t)))) (filter (eligible_at (sc_tenants s)) order))"

lemma candidate_name: "keyed m \<Longrightarrow> eligible_at m t \<Longrightarrow> fst (candidate_of (refill n (the (m t)))) = t"
  by (auto simp: keyed_def eligible_at_def candidate_of_def split: option.splits)

lemma round_backed:
  assumes "keyed (sc_tenants s)" "distinct order"
  shows "backed (refill_all now order (sc_tenants s)) (round_candidates order now s)"
proof -
  let ?m = "sc_tenants s"
  let ?cs = "map (\<lambda>t. candidate_of (refill (now t) (the (?m t)))) (filter (eligible_at ?m) order)"
  have "map fst ?cs = filter (eligible_at ?m) order"
    using candidate_name [OF assms(1)] by (auto intro!: map_idI)
  then have "distinct (map fst ?cs)" using assms(2) by simp
  moreover have "\<exists>st. refill_all now order ?m (fst c) = Some st \<and> c = candidate_of st" if "c \<in> set ?cs" for c
  proof -
    from that obtain t where t: "t \<in> set order" "eligible_at ?m t" "c = candidate_of (refill (now t) (the (?m t)))" by auto
    then obtain st where "?m t = Some st" by (auto simp: eligible_at_def split: option.splits)
    with t candidate_name [OF assms(1) t(2)] show ?thesis by (auto simp: refill_all_def)
  qed
  ultimately show ?thesis
    by (simp only: backed_def round_candidates_def distinct_map_stable_sort set_stable_sort) blast
qed

lemma schedule_cases:
  assumes "keyed (sc_tenants s)" "distinct order"
  obtains (idle) "schedule order now s total_slots = ([], s)"
  | (busy) vt new m al where
      "sound_grants (round_candidates order now s) total_slots new"
      "round_result vt (refill_all now order (sc_tenants s)) total_slots new = (m, al)"
      "vt = f64_of_nat (unat (sc_virtual_time s))"
      "schedule order now s total_slots = (al, s\<lparr>sc_tenants := m, sc_virtual_time := f64_to_u64 (f64_add vt (Fin 1))\<rparr>)"
proof (cases "total_slots = 0 \<or> total_weight order (sc_tenants s) = 0")
  case True
  then have "schedule order now s total_slots = ([], s)" by (auto simp: schedule_def Let_def)
  then show thesis by (rule idle)
next
  case False
  let ?vt = "f64_of_nat (unat (sc_virtual_time s))" and ?tw = "total_weight order (sc_tenants s)"
  from allocate_loop_spec [OF round_backed [OF assms], of now total_slots total_slots ?tw ?vt "[]"] obtain new where
    new: "sound_grants (round_candidates order now s) total_slots new"
      "allocate_loop total_slots ?tw ?vt (round_candidates order now s) (refill_all now order (sc_tenants s)) [] total_slots =
        (granted ?vt (refill_all now order (sc_tenants s)) new, new, total_slots - sum_list (map snd new))" by auto
  obtain m al' where r: "round_result ?vt (refill_all now order (sc_tenants s)) total_slots new = (m, al')" by fastforce
  have "schedule order now s total_slots = (al', s\<lparr>sc_tenants := m, sc_virtual_time := f64_to_u64 (f64_add ?vt (Fin 1))\<rparr>)"
    using False new(2) r assms(2)
    by (simp add: schedule_def Let_def collect_candidates_eq round_candidates_def round_result_def)
  with new(1) r show thesis by (intro busy [OF _ _ refl])
qed

section \<open>What a round grants\<close>

definition alloc_of :: "(string \<times> nat) list \<Rightarrow> string \<Rightarrow> nat" where
  "alloc_of al t = (case map_of al t of None \<Rightarrow> 0 | Some n \<Rightarrow> n)"

definition more_inflight :: "nat \<Rightarrow> tenant_state \<Rightarrow> tenant_state" where
  "more_inflight n st = st\<lparr>ts_inflight := ts_inflight st + n\<rparr>"

lemma more_inflight_fields [simp]:
  "ts_policy (more_inflight n st) = ts_policy st" "ts_inflight (more_inflight n st) = ts_inflight st + n"
  "ts_paused (more_inflight n st) = ts_paused st" "ts_tokens (more_inflight n st) = ts_tokens st"
  "ts_virtual_finish_time (more_inflight n st) = ts_virtual_finish_time st" "more_inflight 0 st = st"
  by (simp_all add: more_inflight_def)

lemma give_leftover_spec:
  assumes "give_leftover m new r = (m', al)"
  shows "map fst al = map fst new" "sum_list (map snd al) = sum_list (map snd new) + (if new = [] then 0 else r)"
    "m' t = map_option (more_inflight (alloc_of al t - alloc_of new t)) (m t)" "alloc_of new t \<le> alloc_of al t"
    "\<forall>(t, n) \<in> set new. 0 < n \<Longrightarrow> \<forall>(t, n) \<in> set al. 0 < n"
proof -
  have "map fst al = map fst new \<and> sum_list (map snd al) = sum_list (map snd new) + (if new = [] then 0 else r) \<and>
    m' t = map_option (more_inflight (alloc_of al t - alloc_of new t)) (m t) \<and> alloc_of new t \<le> alloc_of al t \<and>
    ((\<forall>(t, n) \<in> set new. 0 < n) \<longrightarrow> (\<forall>(t, n) \<in> set al. 0 < n))"
  proof (cases new)
    case Nil
    with assms show ?thesis by (cases "m t") (auto simp: give_leftover_def alloc_of_def)
  next
    case (Cons x rest)
    with assms show ?thesis
      by (cases x; cases "m t") (auto simp: give_leftover_def alloc_of_def more_inflight_def split: if_splits option.splits)
  qed
  then show "map fst al = map fst new" "sum_list (map snd al) = sum_list (map snd new) + (if new = [] then 0 else r)"
    "m' t = map_option (more_inflight (alloc_of al t - alloc_of new t)) (m t)" "alloc_of new t \<le> alloc_of al t"
    "\<forall>(t, n) \<in> set new. 0 < n \<Longrightarrow> \<forall>(t, n) \<in> set al. 0 < n" by blast+
qed

lemma granted_spec:
  "granted vt m new t = map_option (\<lambda>st. if t \<in> fst ` set new
     then grant vt (tp_weight (ts_policy st)) (alloc_of new t) st else st) (m t)"
proof (cases "map_of new t")
  case None
  then have "t \<notin> fst ` set new" by (simp add: map_of_eq_None_iff)
  with None show ?thesis by (cases "m t") (simp_all add: granted_def)
next
  case (Some n)
  then have "t \<in> fst ` set new" by (metis map_of_eq_None_iff option.distinct(1))
  with Some show ?thesis by (cases "m t") (auto simp: granted_def alloc_of_def)
qed

lemma alloc_of_absent: "t \<notin> fst ` set al \<Longrightarrow> alloc_of al t = 0"
  by (simp add: alloc_of_def map_of_eq_None_iff [THEN iffD2])

text \<open>The fields of a tenant that a round changes only through the grants.\<close>

definition account :: "tenant_state \<Rightarrow> tenant_policy \<times> bool \<times> nat" where
  "account st = (ts_policy st, ts_paused st, ts_inflight st)"

definition charge :: "nat \<Rightarrow> tenant_state \<Rightarrow> tenant_policy \<times> bool \<times> nat" where
  "charge n st = (ts_policy st, ts_paused st, ts_inflight st + n)"

lemma charge_0 [simp]: "charge 0 = account"
  by (simp add: charge_def account_def fun_eq_iff)

lemma round_charges:
  assumes "round_result vt (refill_all now order m) total_slots new = (m', al)"
  shows "map_option account (m' t) = map_option (charge (alloc_of al t)) (m t)"
proof -
  note g = give_leftover_spec [OF assms [unfolded round_result_def]]
  have "map fst al = map fst new" by (rule g(1))
  then have absent: "t \<notin> fst ` set new \<Longrightarrow> alloc_of al t = 0"
    by (metis alloc_of_absent list.set_map)
  show ?thesis
    using g(4) [of t] absent unfolding g(3) [of t]
    by (cases "m t") (auto simp: granted_spec refill_all_def account_def charge_def alloc_of_absent)
qed

lemma round_candidates_names:
  assumes "keyed (sc_tenants s)"
  shows "fst ` set (round_candidates order now s) = {t \<in> set order. eligible_at (sc_tenants s) t}"
  using candidate_name [OF assms] by (force simp: round_candidates_def image_iff)

lemma schedule_contract:
  assumes "keyed (sc_tenants s)" "distinct order" "schedule order now s total_slots = (al, s')"
  shows "sum_list (map snd al) \<le> total_slots" "al \<noteq> [] \<Longrightarrow> sum_list (map snd al) = total_slots"
    "distinct (map fst al)" "\<forall>(t, n) \<in> set al. 0 < n \<and> eligible_at (sc_tenants s) t"
    "map_option account (sc_tenants s' t) = map_option (charge (alloc_of al t)) (sc_tenants s t)"
proof -
  have "sum_list (map snd al) \<le> total_slots \<and> (al \<noteq> [] \<longrightarrow> sum_list (map snd al) = total_slots) \<and>
    distinct (map fst al) \<and> (\<forall>(t, n) \<in> set al. 0 < n \<and> eligible_at (sc_tenants s) t) \<and>
    map_option account (sc_tenants s' t) = map_option (charge (alloc_of al t)) (sc_tenants s t)"
  proof (cases rule: schedule_cases [OF assms(1,2), of now total_slots, case_names idle busy])
    case idle
    with assms(3) show ?thesis by (simp add: alloc_of_def)
  next
    case (busy vt new m al')
    then have eq: "al' = al" "sc_tenants s' = m" using assms(3) by auto
    note g = give_leftover_spec [OF busy(2) [unfolded round_result_def]]
    have sub: "subseq (map fst new) (map fst (round_candidates order now s))"
      and le: "sum_list (map snd new) \<le> total_slots" and pos: "\<forall>(t, n) \<in> set new. 0 < n"
      using busy(1) by (auto simp: sound_grants_def)
    have "distinct (map fst (round_candidates order now s))"
      using round_backed [OF assms(1,2), of now] by (simp add: backed_def)
    then have dist: "distinct (map fst al)"
      using sub g(1) eq by (metis subseq_distinct)
    have names: "fst ` set al = fst ` set new" using g(1) eq by (metis list.set_map)
    then have elig: "eligible_at (sc_tenants s) t" if "t \<in> fst ` set al" for t
      using sound_grants_names [OF busy(1)] that round_candidates_names [OF assms(1), of order now] by auto
    have "sum_list (map snd al) = sum_list (map snd new) + (if new = [] then 0 else total_slots - sum_list (map snd new))"
      using g(2) eq by simp
    moreover have "al = [] \<longleftrightarrow> new = []" using g(1) eq by (metis list.map_disc_iff)
    ultimately have sums: "sum_list (map snd al) \<le> total_slots" "al \<noteq> [] \<longrightarrow> sum_list (map snd al) = total_slots"
      using le by (auto split: if_splits)
    have "\<forall>(t, n) \<in> set al. 0 < n" using g(5) [OF pos] eq by simp
    with elig have "\<forall>(t, n) \<in> set al. 0 < n \<and> eligible_at (sc_tenants s) t" by force
    with sums dist round_charges [OF busy(2), of t] eq show ?thesis by simp
  qed
  then show "sum_list (map snd al) \<le> total_slots" "al \<noteq> [] \<Longrightarrow> sum_list (map snd al) = total_slots"
    "distinct (map fst al)" "\<forall>(t, n) \<in> set al. 0 < n \<and> eligible_at (sc_tenants s) t"
    "map_option account (sc_tenants s' t) = map_option (charge (alloc_of al t)) (sc_tenants s t)" by blast+
qed

section \<open>Releasing what was granted\<close>

definition release_all :: "(string \<times> nat) list \<Rightarrow> wfq_scheduler \<Rightarrow> wfq_scheduler" where
  "release_all al s = fold (\<lambda>(t, n) s. sched_release s t n) al s"

lemma sched_release_account:
  "map_option account (sc_tenants (sched_release s t n) u) =
   map_option (\<lambda>st. (ts_policy st, ts_paused st, ts_inflight st - (if u = t then n else 0))) (sc_tenants s u)"
  by (cases "sc_tenants s t"; cases "sc_tenants s u") (auto simp: sched_release_def account_def)

lemma release_all_account:
  "distinct (map fst al) \<Longrightarrow> map_option account (sc_tenants (release_all al s) u) =
   map_option (\<lambda>st. (ts_policy st, ts_paused st, ts_inflight st - alloc_of al u)) (sc_tenants s u)"
proof (induction al arbitrary: s)
  case Nil
  then show ?case by (simp add: release_all_def alloc_of_def account_def)
next
  case (Cons x al)
  obtain t n where x: "x = (t, n)" by (cases x)
  have "map_option account (sc_tenants (release_all (x # al) s) u) =
    map_option account (sc_tenants (release_all al (sched_release s t n)) u)"
    by (simp add: release_all_def x)
  also have "\<dots> = map_option (\<lambda>st. (ts_policy st, ts_paused st, ts_inflight st - alloc_of al u)) (sc_tenants (sched_release s t n) u)"
    using Cons by simp
  also have "\<dots> = map_option (\<lambda>a. (fst a, fst (snd a), snd (snd a) - alloc_of al u))
      (map_option account (sc_tenants (sched_release s t n) u))"
    by (simp add: option.map_comp comp_def account_def)
  also have "\<dots> = map_option (\<lambda>st. (ts_policy st, ts_paused st, ts_inflight st - alloc_of (x # al) u)) (sc_tenants s u)"
    using Cons.prems alloc_of_absent [of t al] unfolding sched_release_account
    by (cases "sc_tenants s u") (auto simp: x alloc_of_def)
  finally show ?case .
qed

lemma schedule_release_all:
  assumes "keyed (sc_tenants s)" "distinct order" "schedule order now s total_slots = (al, s')"
  shows "map_option account (sc_tenants (release_all al s') t) = map_option account (sc_tenants s t)"
  using schedule_contract(5) [OF assms, of t]
  unfolding release_all_account [OF schedule_contract(3) [OF assms]]
  by (cases "sc_tenants s t"; cases "sc_tenants s' t") (auto simp: account_def charge_def)

section \<open>The invariant\<close>

definition tenant_ok :: "tenant_state \<Rightarrow> bool" where
  "tenant_ok st \<longleftrightarrow> between 0 (2 ^ 32) (ts_tokens st) \<and> ts_virtual_finish_time st \<noteq> NaN \<and>
     f64_nonneg (ts_virtual_finish_time st)"

definition sched_inv :: "wfq_scheduler \<Rightarrow> bool" where
  "sched_inv s \<longleftrightarrow> keyed (sc_tenants s) \<and> (\<forall>t st. sc_tenants s t = Some st \<longrightarrow> tenant_ok st)"

lemma sched_inv_keyed: "sched_inv s \<Longrightarrow> keyed (sc_tenants s)"
  by (simp add: sched_inv_def)

lemma tenant_ok_new: "tenant_ok (tenant_state_new now p)"
  by (simp add: tenant_ok_def tenant_state_new_def between_of_u32 [simplified])

lemma new_policy [simp]: "ts_policy (tenant_state_new now p) = p"
  by (simp add: tenant_state_new_def)

lemma tenant_ok_upd [simp]:
  "tenant_ok (st\<lparr>ts_policy := p\<rparr>) = tenant_ok st" "tenant_ok (st\<lparr>ts_paused := b\<rparr>) = tenant_ok st"
  "tenant_ok (st\<lparr>ts_inflight := n\<rparr>) = tenant_ok st" "tenant_ok (more_inflight n st) = tenant_ok st"
  by (simp_all add: tenant_ok_def)

lemma sched_inv_upd:
  "sched_inv s \<Longrightarrow> tenant_ok st \<Longrightarrow> tp_tenant_id (ts_policy st) = t \<Longrightarrow> sched_inv (s\<lparr>sc_tenants := (sc_tenants s)(t \<mapsto> st)\<rparr>)"
  by (auto simp: sched_inv_def keyed_def)

lemma inv_scheduler_new: "sched_inv scheduler_new"
  by (simp add: sched_inv_def keyed_def scheduler_new_def)

lemma inv_register: "sched_inv s \<Longrightarrow> sched_inv (sched_register now s p)"
  unfolding sched_register_def by (rule sched_inv_upd) (simp_all add: tenant_ok_new)

lemma inv_deregister: "sched_inv s \<Longrightarrow> sched_inv (sched_deregister s t)"
  by (auto simp: sched_inv_def keyed_def sched_deregister_def)

lemma sched_inv_get: "sched_inv s \<Longrightarrow> sc_tenants s t = Some st \<Longrightarrow> tenant_ok st \<and> tp_tenant_id (ts_policy st) = t"
  by (simp add: sched_inv_def keyed_def)

lemma inv_update_policy: "sched_inv s \<Longrightarrow> sched_inv (sched_update_policy now s p)"
proof (cases "sc_tenants s (tp_tenant_id p)")
  case None
  assume "sched_inv s"
  then show ?thesis
    using sched_inv_upd [of s "tenant_state_new now p"] None
    by (simp add: sched_update_policy_def tenant_ok_new)
next
  case (Some st)
  assume "sched_inv s"
  with Some show ?thesis
    using sched_inv_upd [of s "st\<lparr>ts_policy := p\<rparr>"] by (auto simp: sched_update_policy_def dest: sched_inv_get)
qed

lemma inv_set_paused: "sched_inv s \<Longrightarrow> sched_inv (snd (set_paused s t b))"
  by (auto simp: set_paused_def split: option.splits intro!: sched_inv_upd dest: sched_inv_get)

lemma inv_release: "sched_inv s \<Longrightarrow> sched_inv (sched_release s t n)"
  by (auto simp: sched_release_def split: option.splits intro!: sched_inv_upd dest: sched_inv_get)

text \<open>
  Refilling never overfills: whatever the elapsed time, the minimum with the burst size is a
  number between zero and it.
\<close>

lemma refill_ok: "tenant_ok st \<Longrightarrow> tenant_ok (refill now st)"
proof -
  assume ok: "tenant_ok st"
  define x where "x = f64_add (ts_tokens st) (f64_mul (as_secs_f64 (now - ts_last_refill st)) (f64_of_u32 (tp_rate_per_sec (ts_policy st))))"
  have "f64_nonneg (ts_tokens st)" using ok by (auto simp: tenant_ok_def elim: between_elim)
  then have x: "f64_nonneg x" unfolding x_def by (intro nonneg_add nonneg_mul) simp_all
  obtain b where b: "f64_of_u32 (tp_burst_tokens (ts_policy st)) = Fin b" "0 \<le> b" "b \<le> 2 ^ 32"
    by (rule between_elim [OF between_of_u32])
  have "between 0 (2 ^ 32) (f64_min x (Fin b))" using x b by (cases x) (auto simp: f64_min_def)
  with ok b show ?thesis by (simp add: tenant_ok_def refill_def Let_def x_def)
qed

lemma grant_ok:
  assumes ok: "tenant_ok st" and vt: "vt \<noteq> NaN" "f64_nonneg vt" and n: "n \<le> f64_to_usize (f64_floor (ts_tokens st))"
  shows "tenant_ok (grant vt w n st)"
proof -
  obtain a where a: "ts_tokens st = Fin a" "0 \<le> a" "a \<le> 2 ^ 32" using ok by (auto simp: tenant_ok_def elim: between_elim)
  have "int n \<le> \<lfloor>a\<rfloor>" using n a by (simp add: f64_to_usize_def le_nat_iff)
  then have na: "of_nat n \<le> a" by linarith
  with a have "of_nat n \<le> (of_nat (2 ^ 53) :: rat)" by simp
  then have "n \<le> 2 ^ 53" by (simp only: of_nat_le_iff)
  then have "f64_sub (ts_tokens st) (f64_of_nat n) = f64_of_rat (a - of_nat n)"
    by (simp add: f64_sub_def a f64_of_nat_exact)
  moreover have "between 0 (2 ^ 32) (f64_of_rat (a - of_nat n))"
    using a na bound_power2 [of 32] by (intro between_of_rat) auto
  ultimately have tok: "between 0 (2 ^ 32) (f64_sub (ts_tokens st) (f64_of_nat n))" by simp
  let ?v = "f64_max vt (ts_virtual_finish_time st)" and ?d = "f64_div (f64_of_nat n) (f64_of_u32 (max w 1))"
  have v: "?v \<noteq> NaN" "f64_nonneg ?v" using ok vt by (auto simp: tenant_ok_def f64_max_def)
  have w: "unat (max w 1) \<noteq> 0" by (auto simp: max_def unat_eq_zero)
  have d: "?d \<noteq> NaN" "f64_nonneg ?d"
    using w \<open>n \<le> 2 ^ 53\<close> by (auto simp: f64_of_u32_exact f64_of_nat_exact nonneg_of_rat simp del: of_nat_unat)
  from v d have "f64_add ?v ?d \<noteq> NaN" by (cases ?v; cases ?d) auto
  with tok nonneg_add [OF v(2) d(2)] show ?thesis by (simp add: tenant_ok_def grant_def)
qed

lemma inv_schedule:
  assumes inv: "sched_inv s" and "distinct order"
  shows "sched_inv (snd (schedule order now s total_slots))"
proof (cases rule: schedule_cases [OF sched_inv_keyed [OF inv] assms(2), of now total_slots, case_names idle busy])
  case idle
  with inv show ?thesis by simp
next
  case (busy vt new m al)
  let ?r = "refill_all now order (sc_tenants s)"
  note g = give_leftover_spec(3) [OF busy(2) [unfolded round_result_def]]
  have vt: "vt \<noteq> NaN" "f64_nonneg vt" unfolding busy(3) by (simp add: f64_of_nat_def, rule nonneg_of_nat)
  have key: "tenant_ok st \<and> tp_tenant_id (ts_policy st) = t" if "?r t = Some st" for t st
    using that sched_inv_get [OF inv, of t] by (auto simp: refill_all_def refill_ok split: if_splits)
  have "tenant_ok (grant vt (tp_weight (ts_policy st)) (alloc_of new t) st)"
    if st: "?r t = Some st" and t: "t \<in> fst ` set new" for t st
  proof (rule grant_ok [OF _ vt])
    show "tenant_ok st" using key st by blast
    obtain n where n: "map_of new t = Some n" using t by (cases "map_of new t") (auto simp: map_of_eq_None_iff)
    then have "(t, n) \<in> set new" "alloc_of new t = n" by (simp_all add: map_of_SomeD alloc_of_def)
    then obtain vft w tok where c: "(t, vft, w, tok) \<in> set (round_candidates order now s)" "n \<le> f64_to_usize (f64_floor tok)"
      using busy(1) by (fastforce simp: sound_grants_def)
    then have "tok = ts_tokens st"
      using round_backed [OF sched_inv_keyed [OF inv] assms(2), of now] st by (fastforce simp: backed_def candidate_of_def)
    with c \<open>alloc_of new t = n\<close> show "alloc_of new t \<le> f64_to_usize (f64_floor (ts_tokens st))" by simp
  qed
  note granted_ok = this
  have "tenant_ok st' \<and> tp_tenant_id (ts_policy st') = t" if m: "m t = Some st'" for t st'
  proof (cases "t \<in> fst ` set new")
    case True
    then show ?thesis
      using m key [of t] granted_ok [of t] unfolding g [of t] granted_spec by auto
  next
    case False
    then show ?thesis using m key [of t] unfolding g [of t] granted_spec by auto
  qed
  with busy(4) show ?thesis by (auto simp: sched_inv_def keyed_def)
qed

end
