(* ===== verification/Rq_Stats.thy ===== *)
theory Rq_Stats
  imports Rq_Scheduler
begin

text \<open>
  \<open>src/stats.rs\<close>: the statistics collector. Cycle counters are atomics, which wrap around;
  \<open>refresh\<close> folds them into exponential moving averages; \<open>allocate_slots\<close> divides the workers'
  slots. Durations and instants are nanoseconds. \<open>refresh\<close> treats every tenant alone, so the
  order of its iteration does not matter; the one of \<open>allocate_slots\<close> is an argument.
\<close>

section \<open>Data\<close>

record tenant_stats =
  st_tenant_id :: string
  arrival_rate :: f64
  processing_rate :: f64
  avg_task_latency :: f64
  burst_score :: f64
  backlog_ratio :: f64
  last_enqueue_at :: nat
  last_dequeue_at :: nat
  last_alloc_fraction :: f64
  is_new :: bool
  total_enqueued :: u64
  total_acked :: u64
  total_nacked :: u64
  stats_version :: u64

record tenant_counters =
  c_enqueue_count :: u64
  c_ack_count :: u64
  c_nack_count :: u64
  c_latency_sum_ms :: u64
  c_total_enqueued :: u64
  c_total_acked :: u64
  c_total_nacked :: u64

definition tenant_counters_new :: tenant_counters where
  "tenant_counters_new = \<lparr>c_enqueue_count = 0, c_ack_count = 0, c_nack_count = 0, c_latency_sum_ms = 0,
     c_total_enqueued = 0, c_total_acked = 0, c_total_nacked = 0\<rparr>"

record tenant_stats_state =
  ss_stats :: tenant_stats
  ss_counters :: tenant_counters

record stats_collector =
  co_tenants :: "string \<rightharpoonup> tenant_stats_state"
  co_alpha :: f64
  co_dormancy_threshold_secs :: f64
  co_min_guarantee_slots :: nat
  co_burst_penalty :: f64

definition collector_new :: stats_collector where
  "collector_new = \<lparr>co_tenants = Map.empty, co_alpha = f64_of_rat (2 / 10), co_dormancy_threshold_secs = Fin 30,
     co_min_guarantee_slots = 5, co_burst_penalty = Fin 2\<rparr>"

definition fresh_stats :: "nat \<Rightarrow> string \<Rightarrow> tenant_stats" where
  "fresh_stats now t =
     \<lparr>st_tenant_id = t, arrival_rate = Fin 0, processing_rate = Fin 0, avg_task_latency = Fin 0,
      burst_score = Fin 0, backlog_ratio = Fin 0, last_enqueue_at = now, last_dequeue_at = now,
      last_alloc_fraction = Fin 0, is_new = True, total_enqueued = 0, total_acked = 0, total_nacked = 0,
      stats_version = 0\<rparr>"

definition col_register :: "nat \<Rightarrow> stats_collector \<Rightarrow> string \<Rightarrow> stats_collector" where
  "col_register now c t = c\<lparr>co_tenants := (co_tenants c)(t \<mapsto>
     \<lparr>ss_stats = fresh_stats now t, ss_counters = tenant_counters_new\<rparr>)\<rparr>"

definition col_deregister :: "stats_collector \<Rightarrow> string \<Rightarrow> stats_collector" where
  "col_deregister c t = c\<lparr>co_tenants := (co_tenants c)(t := None)\<rparr>"

section \<open>Recording\<close>

text \<open>An update of the entry of a tenant; nothing happens when there is none.\<close>

definition col_modify :: "(tenant_stats_state \<Rightarrow> tenant_stats_state) \<Rightarrow> stats_collector \<Rightarrow> string \<Rightarrow> stats_collector" where
  "col_modify f c t =
     (case co_tenants c t of None \<Rightarrow> c | Some s \<Rightarrow> c\<lparr>co_tenants := (co_tenants c)(t \<mapsto> f s)\<rparr>)"

definition record_enqueue :: "stats_collector \<Rightarrow> string \<Rightarrow> u64 \<Rightarrow> stats_collector" where
  "record_enqueue c t count = col_modify (\<lambda>s. s\<lparr>ss_counters := (ss_counters s)
     \<lparr>c_enqueue_count := c_enqueue_count (ss_counters s) + count,
      c_total_enqueued := c_total_enqueued (ss_counters s) + count\<rparr>\<rparr>) c t"

definition as_millis :: "nat \<Rightarrow> nat" where
  "as_millis ns = ns div 10 ^ 6"

definition record_ack_count :: "stats_collector \<Rightarrow> string \<Rightarrow> u64 \<Rightarrow> nat \<Rightarrow> stats_collector" where
  "record_ack_count c t count latency = col_modify (\<lambda>s. s\<lparr>ss_counters := (ss_counters s)
     \<lparr>c_ack_count := c_ack_count (ss_counters s) + count,
      c_latency_sum_ms := c_latency_sum_ms (ss_counters s) + word_of_nat (as_millis latency) * count,
      c_total_acked := c_total_acked (ss_counters s) + count\<rparr>\<rparr>) c t"

definition record_ack :: "stats_collector \<Rightarrow> string \<Rightarrow> nat \<Rightarrow> stats_collector" where
  "record_ack c t latency = record_ack_count c t 1 latency"

definition record_nack :: "stats_collector \<Rightarrow> string \<Rightarrow> stats_collector" where
  "record_nack c t = col_modify (\<lambda>s. s\<lparr>ss_counters := (ss_counters s)
     \<lparr>c_nack_count := c_nack_count (ss_counters s) + 1,
      c_total_nacked := c_total_nacked (ss_counters s) + 1\<rparr>\<rparr>) c t"

definition record_backlog :: "stats_collector \<Rightarrow> string \<Rightarrow> nat \<Rightarrow> nat \<Rightarrow> stats_collector" where
  "record_backlog c t pending inflight = col_modify (\<lambda>s. s\<lparr>ss_stats := (ss_stats s)
     \<lparr>backlog_ratio := (if pending + inflight > 0
        then f64_div (f64_of_nat pending) (f64_of_nat (pending + inflight)) else Fin 0)\<rparr>\<rparr>) c t"

section \<open>The refresh\<close>

text \<open>\<open>alpha * x + (1.0 - alpha) * y\<close>.\<close>

definition ema :: "f64 \<Rightarrow> f64 \<Rightarrow> f64 \<Rightarrow> f64" where
  "ema alpha x y = f64_add (f64_mul alpha x) (f64_mul (f64_sub (Fin 1) alpha) y)"

definition refresh_tenant :: "f64 \<Rightarrow> tenant_stats_state \<Rightarrow> tenant_stats_state" where
  "refresh_tenant alpha s =
     (let n = ss_counters s; st = ss_stats s;
          enqueued = c_enqueue_count n; acked = c_ack_count n; nacked = c_nack_count n; latency_sum = c_latency_sum_ms n;
          new_arrival = f64_of_nat (unat enqueued);
          arrival = ema alpha new_arrival (arrival_rate st);
          new_proc = f64_of_nat (unat (acked + nacked));
          new_lat = f64_div (f64_div (f64_of_nat (unat latency_sum)) (f64_of_nat (unat acked))) (Fin 1000);
          deviation = f64_sub new_arrival arrival
      in \<lparr>ss_stats = st\<lparr>
            arrival_rate := arrival,
            processing_rate := ema alpha new_proc (processing_rate st),
            avg_task_latency := (if acked > 0 then ema alpha new_lat (avg_task_latency st) else avg_task_latency st),
            burst_score := ema alpha (f64_mul deviation deviation) (burst_score st),
            total_enqueued := c_total_enqueued n, total_acked := c_total_acked n, total_nacked := c_total_nacked n,
            stats_version := stats_version st + 1,
            is_new := (if is_new st \<and> enqueued > 0 then False else is_new st)\<rparr>,
          ss_counters = n\<lparr>c_enqueue_count := 0, c_ack_count := 0, c_nack_count := 0, c_latency_sum_ms := 0\<rparr>\<rparr>)"

definition col_refresh :: "stats_collector \<Rightarrow> stats_collector" where
  "col_refresh c = c\<lparr>co_tenants := (\<lambda>t. map_option (refresh_tenant (co_alpha c)) (co_tenants c t))\<rparr>"

section \<open>Slot allocation\<close>

definition dormant :: "stats_collector \<Rightarrow> nat \<Rightarrow> tenant_stats \<Rightarrow> bool" where
  "dormant c now s \<longleftrightarrow> f64_less (co_dormancy_threshold_secs c) (as_secs_f64 (now - last_enqueue_at s))"

definition col_all_snapshots :: "string list \<Rightarrow> stats_collector \<Rightarrow> tenant_stats list" where
  "col_all_snapshots order c = List.map_filter (\<lambda>t. map_option ss_stats (co_tenants c t)) order"

definition slot_score :: "stats_collector \<Rightarrow> tenant_stats \<Rightarrow> f64" where
  "slot_score c s =
     (let backlog_pressure = f64_add (Fin 1) (backlog_ratio s);
          burst_damp = f64_add (Fin 1) (f64_mul (co_burst_penalty c) (f64_sqrt (burst_score s)))
      in f64_div (f64_mul (arrival_rate s) backlog_pressure) burst_damp)"

fun share_loop :: "nat \<Rightarrow> f64 \<Rightarrow> (tenant_stats \<times> f64) list \<Rightarrow> (string \<times> nat) list \<Rightarrow> nat \<Rightarrow> (string \<times> nat) list \<times> nat" where
  "share_loop budget total_score [] allocations leftover = (allocations, leftover)"
| "share_loop budget total_score ((s, score) # scored) allocations leftover =
     (let fraction = f64_div score total_score;
          slots = f64_to_usize (f64_floor (f64_mul (f64_of_nat budget) fraction))
      in share_loop budget total_score scored (allocations @ [(st_tenant_id s, slots)]) (leftover - slots))"

text \<open>\<open>iter_mut().find(..)\<close> and an update of what it found.\<close>

fun add_to_first :: "string \<Rightarrow> nat \<Rightarrow> (string \<times> nat) list \<Rightarrow> (string \<times> nat) list" where
  "add_to_first t n [] = []"
| "add_to_first t n ((u, k) # al) = (if u = t then (u, k + n) # al else (u, k) # add_to_first t n al)"

definition allocate_slots ::
  "string list \<Rightarrow> (string \<Rightarrow> nat) \<Rightarrow> (string \<Rightarrow> nat) \<Rightarrow> stats_collector \<Rightarrow> nat \<Rightarrow> (string \<times> nat) list" where
  "allocate_slots order now1 now2 c total_slots =
     (if total_slots = 0 then []
      else let all = col_all_snapshots order c;
               guaranteed = filter (\<lambda>s. is_new s \<or> dormant c (now1 (st_tenant_id s)) s) all;
               normal = filter (\<lambda>s. \<not> (is_new s \<or> dormant c (now2 (st_tenant_id s)) s)) all;
               guaranteed_budget = min (co_min_guarantee_slots c * length guaranteed) total_slots;
               normal_budget = total_slots - guaranteed_budget;
               scored = map (\<lambda>s. (s, slot_score c s)) normal;
               total_score = foldl f64_add (Fin 0) (map snd scored)
           in case (if f64_less (Fin 0) total_score
                    then share_loop normal_budget total_score scored [] normal_budget
                    else ([], normal_budget)) of
                (allocations, leftover) \<Rightarrow>
                let allocations =
                      (if leftover > 0 \<and> scored \<noteq> []
                       then let sorted = stable_sort (\<lambda>a b. f64_less (backlog_ratio (fst b)) (backlog_ratio (fst a))) scored
                            in add_to_first (st_tenant_id (fst (hd sorted))) leftover allocations
                       else allocations)
                in filter (\<lambda>(t, n). n > 0)
                     (allocations @ map (\<lambda>s. (st_tenant_id s, co_min_guarantee_slots c)) guaranteed))"

definition col_snapshot :: "stats_collector \<Rightarrow> string \<Rightarrow> tenant_stats option" where
  "col_snapshot c t = map_option ss_stats (co_tenants c t)"

end
