(* ===== verification/Rq_Stats_Facts.thy ===== *)
theory Rq_Stats_Facts
  imports Rq_Stats Rq_Scheduler_Facts
begin

text \<open>
  Facts on the statistics: the moving averages stay finite and nonnegative whatever is recorded,
  the backlog ratio is a fraction, shares of a slot allocation never exceed the budget, the
  published totals are what was recorded.
\<close>

section \<open>The moving average\<close>

definition EMA_ALPHA :: f64 where
  "EMA_ALPHA = f64_of_rat (2 / 10)"

lemma bound_scaled: "n \<le> 900 \<Longrightarrow> f64_bound (7 * 2 ^ n)" "f64_bound (1 / 8)" "f64_bound (1 / 4)" "f64_bound (3 / 4)" "f64_bound (7 / 8)"
proof -
  assume "n \<le> 900"
  then show "f64_bound (7 * 2 ^ n)" using bound_dyadic [of 7 "int n"] by simp
qed (use bound_dyadic [of 1 "- 3"] bound_dyadic [of 1 "- 2"] bound_dyadic [of 3 "- 2"] bound_dyadic [of 7 "- 3"]
     in \<open>simp_all add: power_int_def power_divide\<close>)

lemma alpha_between: "between (1 / 8) (1 / 4) EMA_ALPHA" "between (3 / 4) (7 / 8) (f64_sub (Fin 1) EMA_ALPHA)"
proof -
  show a: "between (1 / 8) (1 / 4) EMA_ALPHA"
    unfolding EMA_ALPHA_def by (rule between_of_rat) (simp_all add: bound_scaled)
  have "between 1 1 (Fin 1)" by simp
  from between_sub [OF this a bound_scaled(4,5)] show "between (3 / 4) (7 / 8) (f64_sub (Fin 1) EMA_ALPHA)"
    by simp
qed

lemma ema_between:
  assumes "between 0 (2 ^ (k + 2)) x" "between 0 (2 ^ (k + 3)) y" "k \<le> 900"
  shows "between 0 (2 ^ (k + 3)) (ema EMA_ALPHA x y)"
proof -
  have "between 0 (2 ^ k) (f64_mul EMA_ALPHA x)"
    using between_mono [OF alpha_between(1), of 0 "1 / 4"] assms(1)
    by (rule between_mul) (use assms(3) bound_power2 in \<open>auto simp: power_add\<close>)
  moreover have "between 0 (7 * 2 ^ k) (f64_mul (f64_sub (Fin 1) EMA_ALPHA) y)"
    using between_mono [OF alpha_between(2), of 0 "7 / 8"] assms(2)
    by (rule between_mul) (use assms(3) in \<open>auto simp: power_add bound_scaled\<close>)
  ultimately show ?thesis
    unfolding ema_def by (rule between_add) (use assms(3) bound_power2 [of "k + 3"] in \<open>auto simp: power_add\<close>)
qed

lemma between_of_u64: "between 0 (2 ^ 64) (f64_of_nat (unat (w :: u64)))"
proof -
  have "unat w < 2 ^ LENGTH(64)" by (rule unsigned_less)
  then have "of_nat (unat w) \<le> (of_nat (2 ^ 64) :: rat)" by (subst of_nat_le_iff) simp
  then have "of_nat (unat w) \<le> (2 :: rat) ^ 64" by (simp only: of_nat_power of_nat_numeral)
  then show ?thesis using bound_power2 [of 64] by (intro between_of_nat) simp_all
qed

section \<open>The invariant of the statistics\<close>

definition stats_ok :: "tenant_stats \<Rightarrow> bool" where
  "stats_ok s \<longleftrightarrow> between 0 (2 ^ 65) (arrival_rate s) \<and> between 0 (2 ^ 65) (processing_rate s) \<and>
     between 0 (2 ^ 65) (avg_task_latency s) \<and> between 0 (2 ^ 131) (burst_score s) \<and> between 0 1 (backlog_ratio s)"

definition collector_ok :: "stats_collector \<Rightarrow> bool" where
  "collector_ok c \<longleftrightarrow> co_alpha c = EMA_ALPHA \<and> co_burst_penalty c = Fin 2 \<and>
     (\<forall>t s. co_tenants c t = Some s \<longrightarrow> st_tenant_id (ss_stats s) = t \<and> stats_ok (ss_stats s))"

lemma fresh_stats_ok: "stats_ok (fresh_stats now t)"
  by (simp add: stats_ok_def fresh_stats_def)

lemma deviation_square: "between 0 (2 ^ 64) x \<Longrightarrow> between 0 (2 ^ 65) y \<Longrightarrow>
   between 0 (2 ^ 130) (f64_mul (f64_sub x y) (f64_sub x y))"
proof -
  assume "between 0 (2 ^ 64) x" "between 0 (2 ^ 65) y"
  then have "between (- (2 ^ 65)) (2 ^ 65) (f64_sub x y)"
    by (rule between_sub) (use bound_power2 [of 65] in \<open>auto intro: bound_neg\<close>)
  then show ?thesis by (rule between_square) (use bound_power2 [of 130] in auto)
qed

lemma latency_between:
  assumes "0 < (acked :: u64)"
  shows "between 0 (2 ^ 64) (f64_div (f64_div (f64_of_nat (unat (latency :: u64))) (f64_of_nat (unat acked))) (Fin 1000))"
proof -
  have "1 \<le> unat acked" using assms by (simp add: word_greater_zero_iff unat_gt_0 Suc_leI)
  then have "(1 :: rat) \<le> of_nat (unat acked)" by (metis of_nat_1 of_nat_le_iff)
  moreover have "of_nat (unat acked) \<le> (2 :: rat) ^ 64"
  proof -
    have "unat acked < 2 ^ LENGTH(64)" by (rule unsigned_less)
    then have "of_nat (unat acked) \<le> (of_nat (2 ^ 64) :: rat)" by (subst of_nat_le_iff) simp
    then show ?thesis by (simp only: of_nat_power of_nat_numeral)
  qed
  ultimately have "between 1 (2 ^ 64) (f64_of_nat (unat acked))"
    unfolding f64_of_nat_def using bound_power2 [of 64] by (intro between_of_rat) auto
  with between_of_u64 have "between 0 (2 ^ 64) (f64_div (f64_of_nat (unat latency)) (f64_of_nat (unat acked)))"
    by (rule between_div_le) (use bound_power2 [of 64] in auto)
  then show ?thesis
    by (rule between_div_le [where c = 1000 and d = 1000]) (use bound_power2 [of 64] in auto)
qed

lemma refresh_tenant_ok:
  assumes "stats_ok (ss_stats s)"
  shows "stats_ok (ss_stats (refresh_tenant EMA_ALPHA s))"
proof -
  note ok = assms [unfolded stats_ok_def]
  have n: "(2 :: rat) ^ 64 = 2 ^ (62 + 2)" "(2 :: rat) ^ 65 = 2 ^ (62 + 3)"
    "(2 :: rat) ^ 130 = 2 ^ (128 + 2)" "(2 :: rat) ^ 131 = 2 ^ (128 + 3)" by simp_all
  have e: "between 0 (2 ^ 65) (ema EMA_ALPHA x y)" if "between 0 (2 ^ 64) x" "between 0 (2 ^ 65) y" for x y
    using ema_between [of 62 x y] that unfolding n by simp
  let ?a = "ema EMA_ALPHA (f64_of_nat (unat (c_enqueue_count (ss_counters s)))) (arrival_rate (ss_stats s))"
  have a: "between 0 (2 ^ 65) ?a" using ok between_of_u64 by (intro e) auto
  have b: "between 0 (2 ^ 131) (ema EMA_ALPHA (f64_mul (f64_sub (f64_of_nat (unat (c_enqueue_count (ss_counters s)))) ?a)
      (f64_sub (f64_of_nat (unat (c_enqueue_count (ss_counters s)))) ?a)) (burst_score (ss_stats s)))"
    using ema_between [of 128] deviation_square [OF between_of_u64 a] ok unfolding n by simp
  show ?thesis
    using ok a b e between_of_u64 latency_between by (simp add: stats_ok_def refresh_tenant_def Let_def)
qed

lemma collector_ok_get: "collector_ok c \<Longrightarrow> co_tenants c t = Some s \<Longrightarrow> st_tenant_id (ss_stats s) = t \<and> stats_ok (ss_stats s)"
  by (simp add: collector_ok_def)

lemma col_modify_ok:
  assumes "collector_ok c"
    and "\<And>s. co_tenants c t = Some s \<Longrightarrow> stats_ok (ss_stats s) \<Longrightarrow>
      stats_ok (ss_stats (f s)) \<and> st_tenant_id (ss_stats (f s)) = st_tenant_id (ss_stats s)"
  shows "collector_ok (col_modify f c t)"
  using assms by (auto simp: collector_ok_def col_modify_def split: option.splits)

lemma ok_collector_new: "collector_ok collector_new"
  by (simp add: collector_ok_def collector_new_def EMA_ALPHA_def)

lemma ok_register: "collector_ok c \<Longrightarrow> collector_ok (col_register now c t)"
  by (auto simp: collector_ok_def col_register_def fresh_stats_ok) (simp add: fresh_stats_def)

lemma ok_deregister: "collector_ok c \<Longrightarrow> collector_ok (col_deregister c t)"
  by (simp add: collector_ok_def col_deregister_def)

lemma ok_record:
  "collector_ok c \<Longrightarrow> collector_ok (record_enqueue c t k)"
  "collector_ok c \<Longrightarrow> collector_ok (record_ack_count c t k l)"
  "collector_ok c \<Longrightarrow> collector_ok (record_ack c t l)"
  "collector_ok c \<Longrightarrow> collector_ok (record_nack c t)"
  unfolding record_enqueue_def record_ack_def record_ack_count_def record_nack_def
  by (rule col_modify_ok; simp)+

text \<open>The counts of \<open>record_backlog\<close> are of type \<open>usize\<close>, and so is their sum.\<close>

lemma backlog_fraction:
  assumes "0 < p + i" "p + i < 2 ^ 64"
  shows "between 0 1 (f64_div (f64_of_nat p) (f64_of_nat (p + i)))"
proof -
  let ?x = "round64 (of_nat p)" and ?y = "round64 (of_nat (p + i))"
  have "round64 1 \<le> ?y" using assms(1) by (intro round64_mono) (metis of_nat_1 of_nat_le_iff Suc_leI One_nat_def)
  then have y: "1 \<le> ?y" using bound_1 by (simp add: f64_bound_def)
  have xy: "0 \<le> ?x" "?x \<le> ?y" by (auto intro: round64_nonneg round64_mono)
  have "of_nat (p + i) \<le> (of_nat (2 ^ 64) :: rat)" using assms(2) by (subst of_nat_le_iff) simp
  then have "of_nat (p + i) \<le> (2 :: rat) ^ 64" by (simp only: of_nat_power of_nat_numeral)
  then have "?y \<le> 2 ^ 64" using round64_mono round64_power2 by metis
  with xy have "f64_of_nat p = Fin ?x" "f64_of_nat (p + i) = Fin ?y"
    by (auto simp: f64_of_nat_def f64_of_rat_def Let_def)
  moreover have "?x / ?y \<le> 1" "0 \<le> ?x / ?y" using xy y by (auto simp: divide_le_eq)
  ultimately show ?thesis using y by (auto intro!: between_of_rat)
qed

lemma ok_record_backlog: "collector_ok c \<Longrightarrow> p + i < 2 ^ 64 \<Longrightarrow> collector_ok (record_backlog c t p i)"
  unfolding record_backlog_def
  by (rule col_modify_ok) (use backlog_fraction [of p i] in \<open>auto simp: stats_ok_def\<close>)

lemma refresh_tenant_id [simp]: "st_tenant_id (ss_stats (refresh_tenant a s)) = st_tenant_id (ss_stats s)"
  by (simp add: refresh_tenant_def Let_def)

lemma ok_refresh: "collector_ok c \<Longrightarrow> collector_ok (col_refresh c)"
  by (auto simp: collector_ok_def col_refresh_def refresh_tenant_ok)

section \<open>Scores and shares\<close>

lemma isqrt_loop_nonneg: "0 \<le> r \<Longrightarrow> 0 \<le> isqrt_loop k n r"
  by (induction k n r rule: isqrt_loop.induct) auto

lemma sqrt_nonneg: "between 0 b x \<Longrightarrow> f64_nonneg (f64_sqrt x) \<and> f64_sqrt x \<noteq> NaN"
  by (elim between_elim) (auto simp: Let_def isqrt_def isqrt_loop_nonneg intro!: nonneg_of_rat mult_nonneg_nonneg add_nonneg_nonneg)

lemma one_plus_ge: "f64_nonneg x \<Longrightarrow> x \<noteq> NaN \<Longrightarrow> f64_add (Fin 1) x = PInf \<or> (\<exists>a. f64_add (Fin 1) x = Fin a \<and> 1 \<le> a)"
proof (cases x)
  case (Fin a)
  assume "f64_nonneg x" "x \<noteq> NaN"
  with Fin have "0 \<le> a" by simp
  then have "round64 1 \<le> round64 (1 + a)" by (intro round64_mono) simp
  with Fin bound_1 show ?thesis by (auto simp: f64_of_rat_def Let_def f64_bound_def)
qed auto

lemma slot_score_between:
  assumes "stats_ok s" "co_burst_penalty c = Fin 2"
  shows "between 0 (2 ^ 66) (slot_score c s)"
proof -
  note ok = assms(1) [unfolded stats_ok_def]
  have "between 0 2 (f64_add (Fin 1) (backlog_ratio s))"
    using between_add [of 1 1 "Fin 1" 0 1 "backlog_ratio s" 0 2] ok bound_numeral [of "num.Bit0 num.One"] by simp
  with ok have num: "between 0 (2 ^ 66) (f64_mul (arrival_rate s) (f64_add (Fin 1) (backlog_ratio s)))"
    using bound_power2 [of 66] by (intro between_mul [of "2 ^ 65" _ 2]) auto
  obtain r where r: "f64_sqrt (burst_score s) = r" "f64_nonneg r" "r \<noteq> NaN" using sqrt_nonneg ok by blast
  then have "f64_nonneg (f64_mul (Fin 2) r)" "f64_mul (Fin 2) r \<noteq> NaN"
    by (cases r; auto simp: signed_inf_def intro: nonneg_of_rat)+
  from one_plus_ge [OF this] show ?thesis
  proof (elim disjE exE conjE)
    assume "f64_add (Fin 1) (f64_mul (Fin 2) r) = PInf"
    with num r(1) assms(2) show ?thesis by (auto simp: slot_score_def elim!: between_elim)
  next
    fix a assume a: "f64_add (Fin 1) (f64_mul (Fin 2) r) = Fin a" "1 \<le> a"
    then have "between 1 a (Fin a)" by simp
    with num have "between 0 (2 ^ 66) (f64_div (f64_mul (arrival_rate s) (f64_add (Fin 1) (backlog_ratio s))) (Fin a))"
      by (rule between_div_le) (use bound_power2 [of 66] in auto)
    with a r(1) assms(2) show ?thesis by (simp add: slot_score_def)
  qed
qed

text \<open>A sum of nonnegative floats is at least every summand.\<close>

lemma add_ge:
  assumes "f64_nonneg x" "x \<noteq> NaN" "between 0 b y" "f64_bound z" "\<not> f64_less x (Fin z) \<or> y = Fin z"
  shows "f64_nonneg (f64_add x y) \<and> f64_add x y \<noteq> NaN \<and> \<not> f64_less (f64_add x y) (Fin z)"
proof -
  obtain q where q: "y = Fin q" "0 \<le> q" using assms(3) by (elim between_elim)
  show ?thesis
  proof (cases x)
    case (Fin p)
    with assms q have "z \<le> p + q" "0 \<le> p + q" by auto
    then have "round64 z \<le> round64 (p + q)" by (intro round64_mono)
    with Fin q \<open>0 \<le> p + q\<close> assms(4) nonneg_of_rat [of "p + q"] show ?thesis
      by (auto simp: f64_of_rat_def Let_def f64_bound_def)
  qed (use assms q in auto)
qed

lemma round64_idem: "round64 (round64 x) = round64 x"
proof (cases "x = 0")
  case False
  let ?e = "f64_exponent x"
  have "\<bar>x\<bar> < 2 powi (ilog2 \<bar>x\<bar> + 1)" using False ilog2_bounds [of "\<bar>x\<bar>"] by simp
  also have "\<dots> \<le> 2 powi (53 + ?e)" by (rule power_int_increasing) (auto simp: f64_exponent_def)
  finally have "\<bar>x\<bar> / 2 powi ?e \<le> 2 powi (53 + ?e) / 2 powi ?e" by (intro divide_right_mono) auto
  then have q: "\<bar>x / 2 powi ?e\<bar> \<le> of_int (2 ^ 53)" by (simp add: power_int_add)
  have "x / 2 powi ?e \<le> of_int (2 ^ 53)" using q by (rule order_trans [OF abs_ge_self])
  moreover have "of_int (- (2 ^ 53)) \<le> x / 2 powi ?e" using q unfolding of_int_minus by (simp only: abs_le_iff) linarith
  ultimately have "rne (x / 2 powi ?e) \<le> rne (of_int (2 ^ 53))" "rne (of_int (- (2 ^ 53))) \<le> rne (x / 2 powi ?e)"
    by (blast intro: rne_mono)+
  then have "\<bar>rne (x / 2 powi ?e)\<bar> \<le> 2 ^ 53" unfolding rne_of_int by linarith
  then show ?thesis
    using False by (intro round64_dyadic [where e = ?e]) (auto simp: round64_def f64_exponent_def)
qed simp

lemma of_rat_bound: "f64_of_rat q = Fin a \<Longrightarrow> f64_bound a"
  by (auto simp: f64_of_rat_def f64_bound_def Let_def round64_idem split: if_splits)

lemma div_bound: "f64_div x y = Fin a \<Longrightarrow> f64_bound a"
  by (cases x; cases y) (auto simp: signed_inf_def intro: of_rat_bound split: if_splits)

definition score_ok :: "f64 \<Rightarrow> bool" where
  "score_ok x \<longleftrightarrow> (\<exists>a. x = Fin a \<and> 0 \<le> a \<and> f64_bound a)"

lemma slot_score_ok: "stats_ok s \<Longrightarrow> co_burst_penalty c = Fin 2 \<Longrightarrow> score_ok (slot_score c s)"
  using slot_score_between [of s c] by (auto simp: score_ok_def slot_score_def Let_def intro: div_bound elim!: between_elim)

lemma foldl_add_ge:
  assumes "\<forall>y \<in> set ys. score_ok y" "f64_nonneg x" "x \<noteq> NaN"
  shows "f64_nonneg (foldl f64_add x ys) \<and> foldl f64_add x ys \<noteq> NaN \<and>
     (\<forall>z. f64_bound z \<longrightarrow> \<not> f64_less x (Fin z) \<or> Fin z \<in> set ys \<longrightarrow> \<not> f64_less (foldl f64_add x ys) (Fin z))"
  using assms
proof (induction ys arbitrary: x)
  case (Cons y ys)
  then obtain a where a: "y = Fin a" "0 \<le> a" by (auto simp: score_ok_def)
  then have "between 0 a y" by simp
  note step = add_ge [OF Cons.prems(2,3) this]
  have pos: "f64_nonneg (f64_add x y)" "f64_add x y \<noteq> NaN"
    using step [of 0] Cons.prems(2) by (cases x; auto)+
  note IH = Cons.IH [OF _ pos]
  show ?case
    using IH Cons.prems(1) step a by auto
qed simp

lemma share_le_budget:
  assumes "score_ok score" "score \<in> set scores" "\<forall>y \<in> set scores. score_ok y" "budget \<le> 2 ^ 53"
    and "total_score = foldl f64_add (Fin 0) scores" "f64_less (Fin 0) total_score"
  shows "f64_to_usize (f64_floor (f64_mul (f64_of_nat budget) (f64_div score total_score))) \<le> budget"
proof -
  obtain a where a: "score = Fin a" "0 \<le> a" "f64_bound a" using assms(1) by (auto simp: score_ok_def)
  have t: "f64_nonneg total_score" "total_score \<noteq> NaN" "\<not> f64_less total_score (Fin a)"
    using foldl_add_ge [OF assms(3), of "Fin 0"] assms(2,5) a by auto
  have "between 0 1 (f64_div score total_score)"
  proof (cases total_score)
    case (Fin T)
    with assms(6) t(3) have "0 < T" "a \<le> T" by auto
    with a Fin show ?thesis by (auto intro!: between_of_rat simp: divide_le_eq)
  qed (use t a in auto)
  moreover have "between 0 (of_nat budget) (f64_of_nat budget)"
    using bound_nat assms(4) by (intro between_of_nat) auto
  ultimately have "between 0 (of_nat budget) (f64_mul (f64_of_nat budget) (f64_div score total_score))"
    using bound_nat assms(4) by (intro between_mul [of "of_nat budget" _ 1]) auto
  then obtain x where x: "f64_mul (f64_of_nat budget) (f64_div score total_score) = Fin x" "0 \<le> x" "x \<le> of_nat budget"
    by (elim between_elim)
  then have "\<lfloor>x\<rfloor> \<le> int budget" by linarith
  with x(1) show ?thesis by (simp add: f64_to_usize_def)
qed

section \<open>A slot allocation\<close>

lemma share_loop_spec:
  "share_loop budget total_score scored al leftover =
     (al @ map (\<lambda>(s, score). (st_tenant_id s, f64_to_usize (f64_floor (f64_mul (f64_of_nat budget) (f64_div score total_score))))) scored,
      leftover - sum_list (map (\<lambda>(s, score). f64_to_usize (f64_floor (f64_mul (f64_of_nat budget) (f64_div score total_score)))) scored))"
  by (induction budget total_score scored al leftover rule: share_loop.induct) (auto simp: Let_def)

lemma add_to_first_names [simp]: "map fst (add_to_first t n al) = map fst al"
  by (induction t n al rule: add_to_first.induct) auto

lemma add_to_first_sum: "sum_list (map snd (add_to_first t n al)) \<le> sum_list (map snd al) + n"
  by (induction t n al rule: add_to_first.induct) auto

lemma add_to_first_present: "t \<in> fst ` set al \<Longrightarrow> sum_list (map snd (add_to_first t n al)) = sum_list (map snd al) + n"
  by (induction t n al rule: add_to_first.induct) auto

lemma add_to_first_bound: "(u, k) \<in> set (add_to_first t n al) \<Longrightarrow> \<exists>j. (u, j) \<in> set al \<and> k \<le> j + n"
proof (induction t n al rule: add_to_first.induct)
  case (2 t n u' k' al)
  then show ?case by (cases "u' = t") (auto intro: exI [of _ k] exI [of _ k'])
qed simp

definition registered :: "stats_collector \<Rightarrow> string \<Rightarrow> tenant_stats \<Rightarrow> bool" where
  "registered c t s \<longleftrightarrow> (\<exists>x. co_tenants c t = Some x \<and> ss_stats x = s)"

lemma set_snapshots: "s \<in> set (col_all_snapshots order c) \<longleftrightarrow> (\<exists>t \<in> set order. registered c t s)"
  by (induction order) (auto simp: col_all_snapshots_def registered_def map_filter_simps split: option.splits)

lemma snapshot_names:
  assumes "collector_ok c"
  shows "map st_tenant_id (col_all_snapshots order c) = filter (\<lambda>t. co_tenants c t \<noteq> None) order"
  using collector_ok_get [OF assms]
  by (induction order) (auto simp: col_all_snapshots_def map_filter_simps split: option.splits)

text \<open>
  The pieces of an allocation: the tenants with a guarantee, the others with their scores, and
  the two budgets.
\<close>

definition alloc_guaranteed :: "string list \<Rightarrow> (string \<Rightarrow> nat) \<Rightarrow> stats_collector \<Rightarrow> tenant_stats list" where
  "alloc_guaranteed order now1 c =
     filter (\<lambda>s. is_new s \<or> dormant c (now1 (st_tenant_id s)) s) (col_all_snapshots order c)"

definition alloc_normal :: "string list \<Rightarrow> (string \<Rightarrow> nat) \<Rightarrow> stats_collector \<Rightarrow> tenant_stats list" where
  "alloc_normal order now2 c =
     filter (\<lambda>s. \<not> (is_new s \<or> dormant c (now2 (st_tenant_id s)) s)) (col_all_snapshots order c)"

definition normal_budget :: "string list \<Rightarrow> (string \<Rightarrow> nat) \<Rightarrow> stats_collector \<Rightarrow> nat \<Rightarrow> nat" where
  "normal_budget order now1 c total_slots =
     total_slots - min (co_min_guarantee_slots c * length (alloc_guaranteed order now1 c)) total_slots"

definition total_score :: "stats_collector \<Rightarrow> tenant_stats list \<Rightarrow> f64" where
  "total_score c ss = foldl f64_add (Fin 0) (map (slot_score c) ss)"

definition share :: "nat \<Rightarrow> stats_collector \<Rightarrow> tenant_stats list \<Rightarrow> tenant_stats \<Rightarrow> nat" where
  "share budget c ss s =
     f64_to_usize (f64_floor (f64_mul (f64_of_nat budget) (f64_div (slot_score c s) (total_score c ss))))"

definition busiest :: "stats_collector \<Rightarrow> tenant_stats list \<Rightarrow> string" where
  "busiest c ss = st_tenant_id (fst (hd (stable_sort (\<lambda>a b. f64_less (backlog_ratio (fst b)) (backlog_ratio (fst a)))
     (map (\<lambda>s. (s, slot_score c s)) ss))))"

definition normal_allocation :: "nat \<Rightarrow> stats_collector \<Rightarrow> tenant_stats list \<Rightarrow> (string \<times> nat) list" where
  "normal_allocation budget c ss =
     (if f64_less (Fin 0) (total_score c ss)
      then let al = map (\<lambda>s. (st_tenant_id s, share budget c ss s)) ss;
               leftover = budget - sum_list (map snd al)
           in if leftover > 0 then add_to_first (busiest c ss) leftover al else al
      else [])"

lemma total_score_Nil [simp]: "total_score c [] = Fin 0"
  by (simp add: total_score_def)

lemma allocate_slots_eq:
  assumes "0 < total_slots"
  shows "allocate_slots order now1 now2 c total_slots =
     filter (\<lambda>(t, n). n > 0)
       (normal_allocation (normal_budget order now1 c total_slots) c (alloc_normal order now2 c) @
        map (\<lambda>s. (st_tenant_id s, co_min_guarantee_slots c)) (alloc_guaranteed order now1 c))"
proof -
  let ?ss = "alloc_normal order now2 c" and ?b = "normal_budget order now1 c total_slots"
  have m: "map (\<lambda>(s, score). (st_tenant_id s, f64_to_usize (f64_floor (f64_mul (f64_of_nat ?b) (f64_div score (total_score c ?ss))))))
      (map (\<lambda>s. (s, slot_score c s)) ?ss) = map (\<lambda>s. (st_tenant_id s, share ?b c ?ss s)) ?ss"
    and l: "map (\<lambda>(s, score). f64_to_usize (f64_floor (f64_mul (f64_of_nat ?b) (f64_div score (total_score c ?ss)))))
      (map (\<lambda>s. (s, slot_score c s)) ?ss) = map snd (map (\<lambda>s. (st_tenant_id s, share ?b c ?ss s)) ?ss)"
    by (simp_all add: share_def)
  have t: "foldl f64_add (Fin 0) (map snd (map (\<lambda>s. (s, slot_score c s)) ?ss)) = total_score c ?ss"
    by (simp add: total_score_def comp_def)
  show ?thesis
    unfolding allocate_slots_def Let_def alloc_normal_def [symmetric] alloc_guaranteed_def [symmetric]
      normal_budget_def [symmetric] t share_loop_spec m l
    using assms by (cases "?ss = []") (auto simp: normal_allocation_def Let_def busiest_def)
qed

lemma normal_members: "s \<in> set (alloc_normal order now2 c) \<longleftrightarrow>
   (\<exists>t \<in> set order. registered c t s) \<and> \<not> (is_new s \<or> dormant c (now2 (st_tenant_id s)) s)"
  by (simp add: alloc_normal_def set_snapshots)

lemma guaranteed_members: "s \<in> set (alloc_guaranteed order now1 c) \<longleftrightarrow>
   (\<exists>t \<in> set order. registered c t s) \<and> (is_new s \<or> dormant c (now1 (st_tenant_id s)) s)"
  by (simp add: alloc_guaranteed_def set_snapshots)

lemma registered_ok: "collector_ok c \<Longrightarrow> registered c t s \<Longrightarrow> stats_ok s \<and> st_tenant_id s = t"
  by (auto simp: registered_def dest: collector_ok_get)

lemma share_le:
  assumes "collector_ok c" "\<And>s. s \<in> set ss \<Longrightarrow> stats_ok s" "s \<in> set ss" "budget \<le> 2 ^ 53"
    and "f64_less (Fin 0) (total_score c ss)"
  shows "share budget c ss s \<le> budget"
  unfolding share_def
proof (rule share_le_budget [where scores = "map (slot_score c) ss"])
  have p: "co_burst_penalty c = Fin 2" using assms(1) by (simp add: collector_ok_def)
  show "score_ok (slot_score c s)" using assms(2,3) slot_score_ok p by blast
  show "\<forall>y \<in> set (map (slot_score c) ss). score_ok y" using assms(2) slot_score_ok p by auto
qed (use assms in \<open>auto simp: total_score_def\<close>)

lemma normal_allocation_bound:
  assumes "collector_ok c" "\<And>s. s \<in> set ss \<Longrightarrow> stats_ok s" "budget \<le> 2 ^ 53"
    and "(t, n) \<in> set (normal_allocation budget c ss)"
  shows "n \<le> budget \<and> (\<exists>s \<in> set ss. st_tenant_id s = t)"
proof -
  let ?al = "map (\<lambda>s. (st_tenant_id s, share budget c ss s)) ss"
  have pos: "f64_less (Fin 0) (total_score c ss)" using assms(4) by (simp add: normal_allocation_def split: if_splits)
  have le: "k \<le> budget \<and> k \<le> sum_list (map snd ?al) \<and> (\<exists>s \<in> set ss. st_tenant_id s = u)" if "(u, k) \<in> set ?al" for u k
    using that share_le [OF assms(1,2) _ assms(3) pos] member_le_sum_list [of k "map snd ?al"] by force
  show ?thesis
  proof (cases "budget - sum_list (map snd ?al) > 0")
    case True
    with assms(4) pos obtain j where "(t, j) \<in> set ?al" "n \<le> j + (budget - sum_list (map snd ?al))"
      by (auto simp: normal_allocation_def Let_def dest: add_to_first_bound)
    with le [of t j] True show ?thesis by auto
  next
    case False
    with assms(4) pos have "(t, n) \<in> set ?al" by (auto simp: normal_allocation_def Let_def)
    with le show ?thesis by blast
  qed
qed

text \<open>When rounding has not pushed the shares over the budget, the budget is used up.\<close>

lemma normal_allocation_sum:
  assumes "f64_less (Fin 0) (total_score c ss)" "ss \<noteq> []" "sum_list (map (share budget c ss) ss) \<le> budget"
  shows "sum_list (map snd (normal_allocation budget c ss)) = budget"
proof -
  let ?al = "map (\<lambda>s. (st_tenant_id s, share budget c ss s)) ss"
  have sum: "sum_list (map snd ?al) \<le> budget" using assms(3) by (simp add: comp_def)
  let ?sorted = "stable_sort (\<lambda>a b. f64_less (backlog_ratio (fst b)) (backlog_ratio (fst a))) (map (\<lambda>s. (s, slot_score c s)) ss)"
  have "set ?sorted = set (map (\<lambda>s. (s, slot_score c s)) ss)" by simp
  moreover from this assms(2) have "?sorted \<noteq> []" by fastforce
  ultimately have "hd ?sorted \<in> set (map (\<lambda>s. (s, slot_score c s)) ss)" by (metis hd_in_set)
  then have "busiest c ss \<in> fst ` set ?al" by (auto simp: busiest_def image_image)
  with sum add_to_first_present [of "busiest c ss" ?al] assms(1) show ?thesis
    by (simp add: normal_allocation_def Let_def)
qed

lemma allocate_slots_sound:
  assumes "collector_ok c" "total_slots \<le> 2 ^ 53" "(t, n) \<in> set (allocate_slots order now1 now2 c total_slots)"
  shows "0 < n \<and> t \<in> set order \<and> (\<exists>s. registered c t s \<and>
     (if is_new s \<or> dormant c (now2 t) s then n = co_min_guarantee_slots c
      else n \<le> total_slots - min (co_min_guarantee_slots c * length (alloc_guaranteed order now1 c)) total_slots
           \<or> n = co_min_guarantee_slots c \<and> dormant c (now1 t) s))"
proof (cases "total_slots = 0")
  case True
  with assms(3) show ?thesis by (simp add: allocate_slots_def)
next
  case False
  have ok: "stats_ok s" if "s \<in> set (alloc_normal order now2 c)" for s
    using that registered_ok [OF assms(1)] by (auto simp: normal_members)
  have b: "normal_budget order now1 c total_slots \<le> 2 ^ 53" using assms(2) by (simp add: normal_budget_def)
  from False assms(3) have n: "0 < n" and cases: "(t, n) \<in> set (normal_allocation (normal_budget order now1 c total_slots) c (alloc_normal order now2 c)) \<or>
      (\<exists>s \<in> set (alloc_guaranteed order now1 c). t = st_tenant_id s \<and> n = co_min_guarantee_slots c)"
    by (auto simp: allocate_slots_eq)
  from cases show ?thesis
  proof
    assume "(t, n) \<in> set (normal_allocation (normal_budget order now1 c total_slots) c (alloc_normal order now2 c))"
    from normal_allocation_bound [OF assms(1) ok b this] obtain s where
      s: "s \<in> set (alloc_normal order now2 c)" "st_tenant_id s = t" and le: "n \<le> normal_budget order now1 c total_slots" by blast
    then obtain u where "u \<in> set order" "registered c u s" "\<not> (is_new s \<or> dormant c (now2 t) s)"
      by (auto simp: normal_members)
    with registered_ok [OF assms(1)] s(2) le n show ?thesis by (auto simp: normal_budget_def)
  next
    assume "\<exists>s \<in> set (alloc_guaranteed order now1 c). t = st_tenant_id s \<and> n = co_min_guarantee_slots c"
    then obtain s u where "u \<in> set order" "registered c u s" "is_new s \<or> dormant c (now1 t) s" "t = st_tenant_id s"
      "n = co_min_guarantee_slots c" by (auto simp: guaranteed_members)
    with registered_ok [OF assms(1)] n show ?thesis by auto
  qed
qed

section \<open>Dormancy\<close>

lemma of_rat_ge: "f64_bound z \<Longrightarrow> z \<le> q \<Longrightarrow> \<not> f64_less (f64_of_rat q) (Fin z)"
  using round64_mono [of z q] by (auto simp: f64_of_rat_def f64_bound_def Let_def)

lemma as_secs_ge: "31 * 10 ^ 9 \<le> ns \<Longrightarrow> f64_less (Fin 30) (as_secs_f64 ns)"
proof -
  assume "31 * 10 ^ 9 \<le> ns"
  then have "31 \<le> ns div 10 ^ 9" by (simp add: less_eq_div_iff_mult_less_eq)
  then have "(31 :: rat) \<le> of_nat (ns div 10 ^ 9)" by (metis of_nat_le_iff of_nat_numeral)
  moreover have b: "f64_bound 31" by (rule bound_numeral) simp
  ultimately have s: "\<not> f64_less (f64_of_nat (ns div 10 ^ 9)) (Fin 31)"
    unfolding f64_of_nat_def by (intro of_rat_ge)
  have n: "f64_of_nat (10 ^ 9) = Fin (10 ^ 9)" "f64_of_nat (ns mod 10 ^ 9) = Fin (of_nat (ns mod 10 ^ 9))"
    using mod_less_divisor [of "10 ^ 9" ns] by (simp_all add: f64_of_nat_exact)
  have "of_nat (ns mod 10 ^ 9) \<le> (of_nat (10 ^ 9) :: rat)" using mod_less_divisor [of "10 ^ 9" ns] by (subst of_nat_le_iff) simp
  then have "of_nat (ns mod 10 ^ 9) \<le> (10 :: rat) ^ 9" by (simp only: of_nat_power of_nat_numeral)
  then have "between 0 1 (f64_div (Fin (of_nat (ns mod 10 ^ 9))) (Fin (10 ^ 9)))"
    by (intro between_div_le [where c = "10 ^ 9" and d = "10 ^ 9" and b = "10 ^ 9"]) auto
  then have "\<not> f64_less (as_secs_f64 ns) (Fin 31)" "as_secs_f64 ns \<noteq> NaN" 
    using add_ge [OF nonneg_of_nat(1) _ _ b, of "ns div 10 ^ 9"] s n unfolding as_secs_f64_def
    by (auto simp: f64_of_nat_def)
  then show ?thesis by (cases "as_secs_f64 ns") auto
qed

lemma dormant_after: "co_dormancy_threshold_secs c = Fin 30 \<Longrightarrow> last_enqueue_at s + 31 * 10 ^ 9 \<le> now \<Longrightarrow> dormant c now s"
  by (simp add: dormant_def as_secs_ge)

text \<open>Once every tenant is dormant, each gets the guarantee, however few slots there are.\<close>

lemma allocate_all_dormant:
  assumes "0 < total_slots" "\<And>t s. t \<in> set order \<Longrightarrow> registered c t s \<Longrightarrow> dormant c (now1 (st_tenant_id s)) s \<and> dormant c (now2 (st_tenant_id s)) s"
    and "0 < co_min_guarantee_slots c"
  shows "allocate_slots order now1 now2 c total_slots =
    map (\<lambda>s. (st_tenant_id s, co_min_guarantee_slots c)) (col_all_snapshots order c)"
proof -
  have "alloc_normal order now2 c = []" "alloc_guaranteed order now1 c = col_all_snapshots order c"
    using assms(2) by (auto simp: alloc_normal_def alloc_guaranteed_def filter_empty_conv filter_id_conv set_snapshots)
  with assms(1,3) show ?thesis
    by (simp add: allocate_slots_eq normal_allocation_def filter_id_conv)
qed

section \<open>Totals\<close>

definition counted :: "tenant_stats_state \<Rightarrow> u64 \<times> u64 \<times> u64" where
  "counted s = (c_total_enqueued (ss_counters s), c_total_acked (ss_counters s), c_total_nacked (ss_counters s))"

definition published :: "tenant_stats_state \<Rightarrow> u64 \<times> u64 \<times> u64" where
  "published s = (total_enqueued (ss_stats s), total_acked (ss_stats s), total_nacked (ss_stats s))"

lemma refresh_publishes:
  "published (refresh_tenant a s) = counted s" "counted (refresh_tenant a s) = counted s"
  by (simp_all add: published_def counted_def refresh_tenant_def Let_def)

end
