(* ===== verification/Rq_Runtime_Samples.thy ===== *)
theory Rq_Runtime_Samples
  imports Rq_Scheduler_Facts Rq_Stats_Facts
begin

text \<open>
  Small concrete instances of the scheduler and the collector at which the properties are
  exercised, and the float computations they need.
\<close>

lemma bound_halves: "n \<le> 2 ^ 53 \<Longrightarrow> f64_bound (of_nat n / 2)"
  using bound_dyadic [of "int n" "- 1"] by (simp add: power_int_def)

lemma exact_small [simp]:
  "f64_of_rat 0 = Fin 0" "f64_of_rat 1 = Fin 1" "numeral k \<le> (2 :: nat) ^ 53 \<Longrightarrow> f64_of_rat (numeral k) = Fin (numeral k)"
  "f64_of_rat (1 / 2) = Fin (1 / 2)" "numeral k \<le> (2 :: nat) ^ 53 \<Longrightarrow> f64_of_rat (numeral k / 2) = Fin (numeral k / 2)"
  using bound_halves [of 1] bound_halves [of "numeral k"] by (simp_all add: f64_of_rat_exact bound_numeral)

definition sample_sched :: wfq_scheduler where
  "sample_sched = sched_register 0 (sched_register 0 scheduler_new (tenant_policy_standard ''a'')) (tenant_policy_standard ''b'')"

lemma sample_sched_inv: "sched_inv sample_sched"
  unfolding sample_sched_def by (intro inv_register inv_scheduler_new)

lemma of_nat_small [simp]: "numeral k \<le> (2 :: nat) ^ 53 \<Longrightarrow> f64_of_nat (numeral k) = Fin (numeral k)"
  "f64_of_nat 0 = Fin 0" "f64_of_nat 1 = Fin 1" "f64_of_nat (Suc 0) = Fin 1"
  using f64_of_nat_exact [of "numeral k"] f64_of_nat_exact [of 0] f64_of_nat_exact [of 1] by simp_all

lemma floor_halves [simp]: "\<lfloor>(7 :: rat) / 2\<rfloor> = 3"
  by (simp add: floor_eq_iff)

text \<open>Seven slots for two tenants of equal weight: three each, the first receives the odd one.\<close>

lemma sample_schedule: "fst (schedule [''a'', ''b''] (\<lambda>_. 0) sample_sched 7) = [(''a'', 4), (''b'', 3)]"
  by (simp add: schedule_def sample_sched_def sched_register_def scheduler_new_def tenant_policy_standard_def
      total_weight_def eligible_def tenant_state_new_def refill_def as_secs_f64_def stable_sort_def slots_for_def
      f64_of_u32_def f64_min_def f64_to_usize_def give_leftover_def grant_def Let_def)

end
