(* ===== verification/Rq_Scheduler_Properties.thy ===== *)
theory Rq_Scheduler_Properties
  imports Rq_Runtime_Samples
begin

text \<open>
  The properties of the weighted fair scheduler: what a round grants, in which order, that
  releasing undoes a round, and the invariant of its state.
\<close>

section \<open>A round\<close>

text \<open>
  C15. A round never grants more slots than there are, and exactly all of them when it grants any;
  every tenant is served at most once and only if it is registered, not paused and below its
  inflight limit; and afterwards its inflight count has grown by its grant while policies, pause
  flags and all other counts are unchanged.
\<close>

theorem schedule_round:
  assumes "sched_inv s" and "distinct order" and "schedule order now s total_slots = (al, s')"
  shows "sum_list (map snd al) \<le> total_slots \<and> (al \<noteq> [] \<longrightarrow> sum_list (map snd al) = total_slots) \<and>
    distinct (map fst al) \<and>
    (\<forall>(t, n) \<in> set al. 0 < n \<and> (\<exists>st. sc_tenants s t = Some st \<and> eligible st)) \<and>
    (\<forall>t. map_option account (sc_tenants s' t) = map_option (charge (alloc_of al t)) (sc_tenants s t))"
proof -
  note c = schedule_contract [OF sched_inv_keyed [OF assms(1)] assms(2,3)]
  have "\<exists>st. sc_tenants s t = Some st \<and> eligible st" if "eligible_at (sc_tenants s) t" for t
    using that by (auto simp: eligible_at_def split: option.splits)
  then have "\<forall>(t, n) \<in> set al. 0 < n \<and> (\<exists>st. sc_tenants s t = Some st \<and> eligible st)" using c(4) by auto
  with c(1,2,3,5) show ?thesis by blast
qed

theorem schedule_round_witness:
  "\<exists>s'. schedule [''a'', ''b''] (\<lambda>_. 0) sample_sched 7 = ([(''a'', 4), (''b'', 3)], s') \<and>
     map_option ts_inflight (sc_tenants s' ''a'') = Some 4"
proof -
  obtain s' where s': "schedule [''a'', ''b''] (\<lambda>_. 0) sample_sched 7 = ([(''a'', 4), (''b'', 3)], s')"
    using sample_schedule by (metis prod.collapse)
  have "map_option account (sc_tenants s' ''a'') = map_option (charge (alloc_of [(''a'', 4), (''b'', 3)] ''a'')) (sc_tenants sample_sched ''a'')"
    using schedule_round [OF sample_sched_inv _ s'] by simp
  with s' show ?thesis
    by (auto simp: sample_sched_def sched_register_def tenant_policy_standard_def tenant_state_new_def account_def charge_def alloc_of_def)
qed

definition finish_time :: "wfq_scheduler \<Rightarrow> string \<Rightarrow> f64" where
  "finish_time s t = (case sc_tenants s t of Some st \<Rightarrow> ts_virtual_finish_time st | None \<Rightarrow> NaN)"

lemma candidate_finish_time:
  assumes "sched_inv s" "c \<in> set (round_candidates order now s)"
  shows "fst (snd c) = finish_time s (fst c) \<and> fst (snd c) \<noteq> NaN"
proof -
  from assms(2) obtain t where t: "eligible_at (sc_tenants s) t" "c = candidate_of (refill (now t) (the (sc_tenants s t)))"
    by (auto simp: round_candidates_def)
  then obtain st where st: "sc_tenants s t = Some st" by (auto simp: eligible_at_def split: option.splits)
  with sched_inv_get [OF assms(1) st] t show ?thesis
    by (auto simp: candidate_of_def finish_time_def tenant_ok_def)
qed

text \<open>
  Tenants are served in the order of their virtual finish times: whoever appears earlier in the
  allocation has not finished later.
\<close>

theorem schedule_in_finish_order:
  assumes "sched_inv s" and "distinct order" and "schedule order now s total_slots = (al, s')"
  shows "sorted_wrt (\<lambda>t u. \<not> f64_less (finish_time s u) (finish_time s t)) (map fst al)"
proof (cases rule: schedule_cases [OF sched_inv_keyed [OF assms(1)] assms(2), of now total_slots, case_names idle busy])
  case idle
  with assms(3) show ?thesis by simp
next
  case (busy vt new m al')
  let ?cs = "round_candidates order now s"
  have "fst (snd x) \<noteq> NaN" if "x \<in> set ?cs" for x using candidate_finish_time [OF assms(1) that] by blast
  then have "sorted_wrt (\<lambda>a b. \<not> f64_less (fst (snd b)) (fst (snd a))) ?cs"
    unfolding round_candidates_def by (intro stable_sort_f64) simp
  then have "sorted_wrt (\<lambda>a b. \<not> f64_less (finish_time s (fst b)) (finish_time s (fst a))) ?cs"
    by (rule sorted_wrt_mono_rel [rotated]) (use candidate_finish_time [OF assms(1)] in metis)
  then have "sorted_wrt (\<lambda>t u. \<not> f64_less (finish_time s u) (finish_time s t)) (map fst ?cs)"
    by (simp add: sorted_wrt_map)
  moreover have "subseq (map fst new) (map fst ?cs)" using busy(1) by (simp add: sound_grants_def)
  moreover have "map fst al = map fst new"
    using give_leftover_spec(1) [OF busy(2) [unfolded round_result_def]] busy(4) assms(3) by simp
  ultimately show ?thesis using subseq_sorted_wrt by metis
qed

theorem schedule_in_finish_order_witness:
  "\<not> f64_less (finish_time sample_sched ''b'') (finish_time sample_sched ''a'')"
proof -
  obtain s' where s': "schedule [''a'', ''b''] (\<lambda>_. 0) sample_sched 7 = ([(''a'', 4), (''b'', 3)], s')"
    using sample_schedule by (metis prod.collapse)
  show ?thesis using schedule_in_finish_order [OF sample_sched_inv _ s'] by simp
qed

text \<open>
  C39. Releasing the granted slots undoes a round: every tenant has the inflight count, policy and
  pause flag it had before.
\<close>

theorem schedule_then_release:
  assumes "sched_inv s" and "distinct order" and "schedule order now s total_slots = (al, s')"
  shows "map_option account (sc_tenants (fold (\<lambda>(t, n) s. sched_release s t n) al s') t) = map_option account (sc_tenants s t)"
  using schedule_release_all [OF sched_inv_keyed [OF assms(1)] assms(2,3), of t] by (simp add: release_all_def)

theorem schedule_then_release_witness:
  "\<exists>s'. schedule [''a'', ''b''] (\<lambda>_. 0) sample_sched 7 = ([(''a'', 4), (''b'', 3)], s') \<and>
     map_option account (sc_tenants (sched_release (sched_release s' ''a'' 4) ''b'' 3) ''a'') =
       Some (tenant_policy_standard ''a'', False, 0)"
proof -
  obtain s' where s': "schedule [''a'', ''b''] (\<lambda>_. 0) sample_sched 7 = ([(''a'', 4), (''b'', 3)], s')"
    using sample_schedule by (metis prod.collapse)
  from schedule_then_release [OF sample_sched_inv _ s', of "''a''"] s' show ?thesis
    by (auto simp: sample_sched_def sched_register_def tenant_policy_standard_def tenant_state_new_def account_def)
qed

section \<open>The scheduler over time\<close>

inductive sched_step :: "wfq_scheduler \<Rightarrow> wfq_scheduler \<Rightarrow> bool" where
  step_register: "sched_step s (sched_register now s p)"
| step_deregister: "sched_step s (sched_deregister s t)"
| step_update_policy: "sched_step s (sched_update_policy now s p)"
| step_schedule: "distinct order \<Longrightarrow> sched_step s (snd (schedule order clk s n))"
| step_set_paused: "sched_step s (snd (set_paused s t b))"
| step_release: "sched_step s (sched_release s t n)"

inductive_cases sched_stepE: "sched_step s s'"

lemma sched_step_inv: "sched_step s s' \<Longrightarrow> sched_inv s \<Longrightarrow> sched_inv s'"
  by (elim sched_stepE)
    (auto intro: inv_register inv_deregister inv_update_policy inv_schedule inv_set_paused inv_release)

text \<open>
  C38. In every state the scheduler reaches, a tenant is filed under the name in its policy, its
  token bucket is a number between zero and the largest burst (no overdraft, no overflow, no NaN,
  however long it was idle), and its virtual finish time can be compared with any other.
\<close>

theorem scheduler_invariant:
  assumes "sched_step\<^sup>*\<^sup>* scheduler_new s" and "sc_tenants s t = Some st"
  shows "tp_tenant_id (ts_policy st) = t \<and> between 0 (2 ^ 32) (ts_tokens st) \<and>
    ts_virtual_finish_time st \<noteq> NaN \<and> f64_nonneg (ts_virtual_finish_time st)"
proof -
  have "sched_inv s"
    using assms(1) by (induction rule: rtranclp_induct) (auto intro: inv_scheduler_new sched_step_inv)
  from sched_inv_get [OF this assms(2)] show ?thesis by (simp add: tenant_ok_def)
qed

theorem scheduler_invariant_witness:
  "\<exists>st. sc_tenants (sched_register 0 scheduler_new (tenant_policy_premium ''p'')) ''p'' = Some st \<and>
     between 0 (2 ^ 32) (ts_tokens st)"
proof -
  let ?s = "sched_register 0 scheduler_new (tenant_policy_premium ''p'')"
  have "sched_step\<^sup>*\<^sup>* scheduler_new ?s" by (rule r_into_rtranclp) (rule step_register)
  moreover have "sc_tenants ?s ''p'' = Some (tenant_state_new 0 (tenant_policy_premium ''p''))"
    by (simp add: sched_register_def tenant_policy_premium_def)
  ultimately show ?thesis using scheduler_invariant by blast
qed

section \<open>Limits a round does not observe\<close>

text \<open>
  The inflight limit is tested before a round, not for the slots granted: a tenant below its limit
  can be pushed above it, and the leftover is granted without tokens.
\<close>

definition small_policy :: tenant_policy where
  "small_policy = \<lparr>tp_tenant_id = ''a'', tp_weight = 1, tp_max_inflight = 1, tp_burst_tokens = 2, tp_rate_per_sec = 0\<rparr>"

lemma schedule_exceeds_limits:
  "fst (schedule [''a''] (\<lambda>_. 0) (sched_register 0 scheduler_new small_policy) 7) = [(''a'', 7)] \<and>
   tp_max_inflight small_policy = 1 \<and> tp_burst_tokens small_policy = 2"
  by (simp add: schedule_def sched_register_def scheduler_new_def small_policy_def
      total_weight_def eligible_def tenant_state_new_def refill_def as_secs_f64_def stable_sort_def slots_for_def
      f64_of_u32_def f64_min_def f64_to_usize_def give_leftover_def grant_def Let_def)

end
