(* ===== verification/Rq_Baseline.thy ===== *)
theory Rq_Baseline
  imports Rq_Float
begin

text \<open>
  \<open>src/baseline.rs\<close>, the part without the store: the CUSUM detector and a tenant's baseline with
  its short and long moving averages, rolling peak and spike threshold. The registry of
  baselines is in \<open>Rq_Baselines\<close>.
\<close>

record cusum_state =
  cs_cusum :: f64
  cs_h_threshold :: f64
  cs_k_slack :: f64
  cs_consecutive_calm :: u32

definition cusum_new :: "f64 \<Rightarrow> cusum_state" where
  "cusum_new baseline = \<lparr>cs_cusum = Fin 0, cs_h_threshold = Fin 50,
     cs_k_slack = f64_mul baseline (f64_of_rat (3 / 10)), cs_consecutive_calm = 0\<rparr>"

definition cusum_update :: "cusum_state \<Rightarrow> f64 \<Rightarrow> f64 \<Rightarrow> bool \<times> cusum_state" where
  "cusum_update c x mu =
     (let s = f64_sub (f64_sub x mu) (cs_k_slack c);
          c = c\<lparr>cs_cusum := f64_max (f64_add (cs_cusum c) s) (Fin 0)\<rparr>
      in if f64_less (cs_h_threshold c) (cs_cusum c) then (True, c)
         else (False, c\<lparr>cs_consecutive_calm := cs_consecutive_calm c + 1,
                        cs_cusum := f64_mul (cs_cusum c) (f64_of_rat (9 / 10))\<rparr>))"

definition cusum_reset :: "cusum_state \<Rightarrow> f64 \<Rightarrow> cusum_state" where
  "cusum_reset c new_baseline = c\<lparr>cs_cusum := Fin 0,
     cs_k_slack := f64_mul new_baseline (f64_of_rat (3 / 10)), cs_consecutive_calm := 0\<rparr>"

record baseline_promotion =
  bp_tenant_id :: string
  bp_old_threshold :: f64
  bp_new_threshold :: f64
  bp_new_baseline :: f64
  bp_promoted_at_ms :: u64

record tenant_baseline =
  bl_tenant_id :: string
  bl_short_ema :: f64
  bl_long_ema :: f64
  bl_rolling_peak :: f64
  bl_spike_threshold :: f64
  bl_cusum :: cusum_state
  bl_promotions :: "baseline_promotion list"
  bl_last_updated_ms :: u64
  bl_peak_window :: "(u64 \<times> f64) list"

definition tenant_baseline_new :: "u64 \<Rightarrow> string \<Rightarrow> f64 \<Rightarrow> tenant_baseline" where
  "tenant_baseline_new now t initial_rate =
     (let initial_threshold = f64_mul initial_rate (Fin 3)
      in \<lparr>bl_tenant_id = t, bl_short_ema = initial_rate, bl_long_ema = initial_rate,
          bl_rolling_peak = initial_rate, bl_spike_threshold = f64_max initial_threshold (Fin 10),
          bl_cusum = cusum_new initial_rate, bl_promotions = [], bl_last_updated_ms = now, bl_peak_window = []\<rparr>)"

text \<open>The averages and the rolling peak over the last five minutes.\<close>

definition baseline_observe :: "u64 \<Rightarrow> tenant_baseline \<Rightarrow> f64 \<Rightarrow> f64 \<Rightarrow> f64 \<Rightarrow> tenant_baseline" where
  "baseline_observe now b rate short_alpha long_alpha =
     (let cutoff = saturating_sub now (5 * 60 * 1000);
          window = filter (\<lambda>(ts, r). ts \<ge> cutoff) (bl_peak_window b @ [(now, rate)])
      in b\<lparr>bl_short_ema := f64_add (f64_mul short_alpha rate) (f64_mul (f64_sub (Fin 1) short_alpha) (bl_short_ema b)),
           bl_long_ema := f64_add (f64_mul long_alpha rate) (f64_mul (f64_sub (Fin 1) long_alpha) (bl_long_ema b)),
           bl_peak_window := window,
           bl_rolling_peak := f64_max (foldl f64_max NInf (map snd window)) (Fin 0)\<rparr>)"

definition baseline_update ::
  "u64 \<Rightarrow> tenant_baseline \<Rightarrow> f64 \<Rightarrow> f64 \<Rightarrow> f64 \<Rightarrow> f64 \<Rightarrow> baseline_promotion option \<times> tenant_baseline" where
  "baseline_update now b rate short_alpha long_alpha spike_factor =
     (let b = baseline_observe now b rate short_alpha long_alpha
      in case cusum_update (bl_cusum b) (bl_short_ema b) (bl_long_ema b) of
           (drift, cu) \<Rightarrow>
           let b = b\<lparr>bl_cusum := cu\<rparr>
           in if drift then
                let new_baseline = f64_mul (bl_rolling_peak b) (f64_of_rat (8 / 10));
                    new_threshold = f64_mul new_baseline spike_factor
                in if f64_less (f64_mul (bl_spike_threshold b) (f64_of_rat (105 / 100))) new_threshold
                   then let promotion = \<lparr>bp_tenant_id = bl_tenant_id b, bp_old_threshold = bl_spike_threshold b,
                              bp_new_threshold = new_threshold, bp_new_baseline = new_baseline, bp_promoted_at_ms = now\<rparr>;
                            promotions = bl_promotions b @ [promotion];
                            promotions = (if length promotions > 20 then drop 1 promotions else promotions)
                        in (Some promotion,
                            b\<lparr>bl_spike_threshold := new_threshold, bl_long_ema := new_baseline,
                              bl_cusum := cusum_reset (bl_cusum b) new_baseline, bl_promotions := promotions\<rparr>)
                   else (None, b\<lparr>bl_cusum := cusum_reset (bl_cusum b) (bl_long_ema b), bl_last_updated_ms := now\<rparr>)
              else (None, b\<lparr>bl_last_updated_ms := now\<rparr>))"

end
