(* ===== verification/Rq_Stats_Store.thy ===== *)
theory Rq_Stats_Store
  imports Rq_Registry Rq_Stats Rq_Baseline
begin

text \<open>
  \<open>src/stats_store.rs\<close>: statistics, throttle records and baselines persisted in the system column
  family. The three record types are serialised with their own codecs. A missing column family
  panics (\<open>None\<close>); a failed write, read or decoding is logged and skipped. The precision of
  \<open>f64::powf\<close> is not specified, so it is an argument.
\<close>

section \<open>Records\<close>

record persisted_stats =
  ps_tenant_id :: string
  ps_arrival_rate :: f64
  ps_processing_rate :: f64
  ps_avg_task_latency :: f64
  ps_burst_score :: f64
  ps_backlog_ratio :: f64
  ps_total_enqueued :: u64
  ps_total_acked :: u64
  ps_total_nacked :: u64
  ps_stats_version :: u64
  ps_flushed_at_ms :: u64

record persisted_throttle =
  pt_tenant_id :: string
  pt_throttled :: bool
  pt_reason :: string
  pt_original_rate :: u32
  pt_applied_rate :: u32
  pt_triggered_at_ms :: u64
  pt_cooldown_until_ms :: u64

record baseline_record =
  br_tenant_id :: string
  br_short_ema :: f64
  br_long_ema :: f64
  br_spike_threshold :: f64
  br_saved_at_ms :: u64

text \<open>The codecs of the three record types, and \<open>powf\<close>.\<close>

record store_env =
  stats_codec :: "persisted_stats codec"
  throttle_codec :: "persisted_throttle codec"
  baseline_codec :: "baseline_record codec"
  powf :: "f64 \<Rightarrow> f64 \<Rightarrow> f64"

section \<open>Single records\<close>

definition sync_write_opts :: write_options where
  "sync_write_opts = \<lparr>wo_sync = True, wo_disable_wal = False\<rparr>"

definition store_put :: "'db rocksdb \<Rightarrow> 'db \<Rightarrow> bytes \<Rightarrow> string + bytes \<Rightarrow> 'db" where
  "store_put R d key encoded =
     (case encoded of
        Inl e \<Rightarrow> d
      | Inr value \<Rightarrow>
          (case put_cf_opt R d sync_write_opts CF_SYSTEM key value of Inl e \<Rightarrow> d | Inr d' \<Rightarrow> d'))"

definition store_delete :: "'db rocksdb \<Rightarrow> 'db \<Rightarrow> bytes \<Rightarrow> 'db" where
  "store_delete R d key =
     (case delete_cf_opt R d sync_write_opts CF_SYSTEM key of Inl e \<Rightarrow> d | Inr d' \<Rightarrow> d')"

definition stats_key :: "string \<Rightarrow> bytes" where
  "stats_key t = as_bytes (''stats:'' @ t)"

definition throttle_key :: "string \<Rightarrow> bytes" where
  "throttle_key t = as_bytes (''throttle:'' @ t)"

definition baseline_key :: "string \<Rightarrow> bytes" where
  "baseline_key t = as_bytes (''baseline:'' @ t)"

section \<open>Statistics\<close>

definition stats_record :: "u64 \<Rightarrow> tenant_stats \<Rightarrow> persisted_stats" where
  "stats_record now s =
     \<lparr>ps_tenant_id = st_tenant_id s, ps_arrival_rate = arrival_rate s, ps_processing_rate = processing_rate s,
      ps_avg_task_latency = avg_task_latency s, ps_burst_score = burst_score s, ps_backlog_ratio = backlog_ratio s,
      ps_total_enqueued = total_enqueued s, ps_total_acked = total_acked s, ps_total_nacked = total_nacked s,
      ps_stats_version = stats_version s, ps_flushed_at_ms = now\<rparr>"

definition flush_stats :: "'db rocksdb \<Rightarrow> store_env \<Rightarrow> u64 \<Rightarrow> 'db \<Rightarrow> tenant_stats list \<Rightarrow> 'db option" where
  "flush_stats R E now d stats =
     (if \<not> cf_handle R d CF_SYSTEM then None
      else Some (fold (\<lambda>s d. store_put R d (stats_key (st_tenant_id s)) (bc_serialize (stats_codec E) (stats_record now s))) stats d))"

text \<open>The time decay of a record read back after an offline period.\<close>

definition decay_stats :: "store_env \<Rightarrow> u64 \<Rightarrow> persisted_stats \<Rightarrow> persisted_stats" where
  "decay_stats E now r =
     (let offline_secs = f64_div (f64_of_nat (unat (saturating_sub now (ps_flushed_at_ms r)))) (Fin 1000);
          offline_mins = f64_div offline_secs (Fin 60);
          decay = powf E (Fin 2) (f64_neg offline_mins);
          half = f64_div (f64_add decay (Fin 1)) (Fin 2)
      in r\<lparr>ps_arrival_rate := f64_mul (ps_arrival_rate r) decay,
           ps_burst_score := f64_mul (ps_burst_score r) decay,
           ps_backlog_ratio := f64_mul (ps_backlog_ratio r) decay,
           ps_processing_rate := f64_mul (ps_processing_rate r) half,
           ps_avg_task_latency := f64_mul (ps_avg_task_latency r) half\<rparr>)"

text \<open>
  The scan both loaders share: it stops at the first key without the prefix and skips records
  and items that cannot be read.
\<close>

fun load_records :: "'a codec \<Rightarrow> bytes \<Rightarrow> (string + bytes \<times> bytes) list \<Rightarrow> 'a list" where
  "load_records C p [] = []"
| "load_records C p (Inl e # items) = load_records C p items"
| "load_records C p (Inr (k, v) # items) =
     (if \<not> prefix p k then []
      else case bc_deserialize C v of
        Inl e \<Rightarrow> load_records C p items
      | Inr r \<Rightarrow> r # load_records C p items)"

definition load_all_stats :: "'db rocksdb \<Rightarrow> store_env \<Rightarrow> u64 \<Rightarrow> 'db \<Rightarrow> persisted_stats list option" where
  "load_all_stats R E now d =
     (if \<not> cf_handle R d CF_SYSTEM then None
      else Some (map (decay_stats E now)
        (load_records (stats_codec E) (as_bytes ''stats:'') (iterator_from R d CF_SYSTEM (as_bytes ''stats:'')))))"

section \<open>Throttle records\<close>

definition persist_throttle :: "'db rocksdb \<Rightarrow> store_env \<Rightarrow> 'db \<Rightarrow> persisted_throttle \<Rightarrow> 'db option" where
  "persist_throttle R E d r =
     (if \<not> cf_handle R d CF_SYSTEM then None
      else Some (store_put R d (throttle_key (pt_tenant_id r)) (bc_serialize (throttle_codec E) r)))"

definition clear_throttle :: "'db rocksdb \<Rightarrow> 'db \<Rightarrow> string \<Rightarrow> 'db option" where
  "clear_throttle R d t =
     (if \<not> cf_handle R d CF_SYSTEM then None else Some (store_delete R d (throttle_key t)))"

definition load_all_throttles :: "'db rocksdb \<Rightarrow> store_env \<Rightarrow> 'db \<Rightarrow> persisted_throttle list option" where
  "load_all_throttles R E d =
     (if \<not> cf_handle R d CF_SYSTEM then None
      else Some (load_records (throttle_codec E) (as_bytes ''throttle:'')
        (iterator_from R d CF_SYSTEM (as_bytes ''throttle:''))))"

section \<open>Baselines\<close>

definition baseline_record_of :: "u64 \<Rightarrow> tenant_baseline \<Rightarrow> baseline_record" where
  "baseline_record_of now b =
     \<lparr>br_tenant_id = bl_tenant_id b, br_short_ema = bl_short_ema b, br_long_ema = bl_long_ema b,
      br_spike_threshold = bl_spike_threshold b, br_saved_at_ms = now\<rparr>"

definition flush_baselines :: "'db rocksdb \<Rightarrow> store_env \<Rightarrow> u64 \<Rightarrow> 'db \<Rightarrow> tenant_baseline list \<Rightarrow> 'db option" where
  "flush_baselines R E now d bs =
     (if \<not> cf_handle R d CF_SYSTEM then None
      else Some (fold (\<lambda>b d. store_put R d (baseline_key (bl_tenant_id b))
        (bc_serialize (baseline_codec E) (baseline_record_of now b))) bs d))"

definition load_baseline :: "'db rocksdb \<Rightarrow> store_env \<Rightarrow> 'db \<Rightarrow> string \<Rightarrow> baseline_record option option" where
  "load_baseline R E d t =
     (if \<not> cf_handle R d CF_SYSTEM then None
      else Some (case get_cf R d CF_SYSTEM (baseline_key t) of
             Inl e \<Rightarrow> None
           | Inr None \<Rightarrow> None
           | Inr (Some v) \<Rightarrow> (case bc_deserialize (baseline_codec E) v of Inl e \<Rightarrow> None | Inr r \<Rightarrow> Some r)))"

definition clear_baseline :: "'db rocksdb \<Rightarrow> 'db \<Rightarrow> string \<Rightarrow> 'db option" where
  "clear_baseline R d t =
     (if \<not> cf_handle R d CF_SYSTEM then None else Some (store_delete R d (baseline_key t)))"

section \<open>Warming the collector\<close>

definition warm_tenant :: "persisted_stats \<Rightarrow> tenant_stats_state \<Rightarrow> tenant_stats_state" where
  "warm_tenant p s = s\<lparr>ss_stats := (ss_stats s)
     \<lparr>arrival_rate := ps_arrival_rate p, processing_rate := ps_processing_rate p,
      avg_task_latency := ps_avg_task_latency p, burst_score := ps_burst_score p, backlog_ratio := ps_backlog_ratio p,
      total_enqueued := ps_total_enqueued p, total_acked := ps_total_acked p, total_nacked := ps_total_nacked p,
      stats_version := ps_stats_version p, is_new := False\<rparr>\<rparr>"

definition warm_from_store ::
  "'db rocksdb \<Rightarrow> store_env \<Rightarrow> u64 \<Rightarrow> 'db \<Rightarrow> stats_collector \<Rightarrow> stats_collector option" where
  "warm_from_store R E now d c =
     map_option (\<lambda>rs. fold (\<lambda>p c. col_modify (warm_tenant p) c (ps_tenant_id p)) rs c) (load_all_stats R E now d)"

end
