(* ===== verification/Rq_Baselines.thy ===== *)
theory Rq_Baselines
  imports Rq_Stats_Store
begin

text \<open>
  \<open>src/baseline.rs\<close>, the registry: one baseline per tenant, warmed from the store at
  registration. A \<open>None\<close> result stands for the panic of a store without its column family.
\<close>

type_synonym baselines = "string \<rightharpoonup> tenant_baseline"

definition bl_register ::
  "'db rocksdb \<Rightarrow> store_env \<Rightarrow> u64 \<Rightarrow> 'db \<Rightarrow> baselines \<Rightarrow> string \<Rightarrow> f64 \<Rightarrow> baselines option" where
  "bl_register R E now d bs t initial_rate =
     (case load_baseline R E d t of
        None \<Rightarrow> None
      | Some (Some r) \<Rightarrow> Some (bs(t \<mapsto> (tenant_baseline_new now t (br_long_ema r))
            \<lparr>bl_short_ema := br_short_ema r, bl_long_ema := br_long_ema r, bl_spike_threshold := br_spike_threshold r\<rparr>))
      | Some None \<Rightarrow> Some (bs(t \<mapsto> tenant_baseline_new now t initial_rate)))"

definition bl_deregister :: "baselines \<Rightarrow> string \<Rightarrow> baselines" where
  "bl_deregister bs t = bs(t := None)"

definition bl_update :: "u64 \<Rightarrow> baselines \<Rightarrow> string \<Rightarrow> f64 \<Rightarrow> baseline_promotion option \<times> baselines" where
  "bl_update now bs t rate =
     (case bs t of
        None \<Rightarrow> (None, bs)
      | Some b \<Rightarrow>
          (case baseline_update now b rate (f64_of_rat (2 / 10)) (f64_of_rat (1 / 100)) (Fin 3) of
             (p, b') \<Rightarrow> (p, bs(t \<mapsto> b'))))"

definition is_spike :: "baselines \<Rightarrow> string \<Rightarrow> f64 \<Rightarrow> bool" where
  "is_spike bs t rate = (case bs t of Some b \<Rightarrow> f64_less (bl_spike_threshold b) rate | None \<Rightarrow> False)"

definition spike_threshold :: "baselines \<Rightarrow> string \<Rightarrow> f64 option" where
  "spike_threshold bs t = map_option bl_spike_threshold (bs t)"

definition bl_snapshot :: "baselines \<Rightarrow> string \<Rightarrow> tenant_baseline option" where
  "bl_snapshot bs t = bs t"

definition bl_all_snapshots :: "string list \<Rightarrow> baselines \<Rightarrow> tenant_baseline list" where
  "bl_all_snapshots order bs = List.map_filter bs order"

definition bl_flush :: "'db rocksdb \<Rightarrow> store_env \<Rightarrow> u64 \<Rightarrow> string list \<Rightarrow> 'db \<Rightarrow> baselines \<Rightarrow> 'db option" where
  "bl_flush R E now order d bs = flush_baselines R E now d (bl_all_snapshots order bs)"

end
