(* ===== verification/Rq_Throttle.thy ===== *)
theory Rq_Throttle
  imports Rq_Baselines
begin

text \<open>
  \<open>src/throttle.rs\<close>: the automatic throttle. Its object shares the scheduler, the baselines and
  the store with the rest of the process, so its operations act on the record \<open>node\<close> of all the
  components of a running process.

  A call can return, panic, or never return: \<open>DashMap\<close> documents that removing a key while
  holding a reference into the map deadlocks, and \<open>evaluate\<close> calls \<open>release_throttle\<close> inside the
  scope of the reference it looked the state up with. \<open>Blocked\<close> carries the state in which the
  call hangs.
\<close>

section \<open>Configuration and state\<close>

record throttle_config =
  tc_burst_threshold :: f64
  tc_rate_spike_factor :: f64
  tc_backlog_threshold :: f64
  tc_reduction_factor :: f64
  tc_min_rate_floor :: u32
  tc_cooldown_secs :: u64
  tc_baseline_window_secs :: u64

definition throttle_config_default :: throttle_config where
  "throttle_config_default =
     \<lparr>tc_burst_threshold = Fin 5, tc_rate_spike_factor = Fin 3, tc_backlog_threshold = f64_of_rat (85 / 100),
      tc_reduction_factor = Fin (1 / 4), tc_min_rate_floor = 5, tc_cooldown_secs = 30,
      tc_baseline_window_secs = 300\<rparr>"

record throttle_state =
  th_tenant_id :: string
  th_throttled :: bool
  th_reason :: string
  th_original_rate :: u32
  th_applied_rate :: u32
  th_triggered_at_ms :: u64
  th_cooldown_until_ms :: u64

record 'db node =
  nd_registry :: "'db registry"
  nd_scheduler :: wfq_scheduler
  nd_collector :: stats_collector
  nd_throttles :: "string \<rightharpoonup> throttle_state"
  nd_baselines :: baselines

datatype 'a run = Done 'a | Blocked 'a | Panicked

fun and_then :: "'a run \<Rightarrow> ('a \<Rightarrow> 'a run) \<Rightarrow> 'a run" where
  "and_then (Done s) f = f s"
| "and_then (Blocked s) f = Blocked s"
| "and_then Panicked f = Panicked"

text \<open>A store operation of the node, on the database the registry holds.\<close>

definition on_store :: "('db \<Rightarrow> 'db option) \<Rightarrow> 'db node \<Rightarrow> 'db node run" where
  "on_store f n = (case f (db (nd_registry n)) of
     None \<Rightarrow> Panicked | Some d \<Rightarrow> Done (n\<lparr>nd_registry := (nd_registry n)\<lparr>db := d\<rparr>\<rparr>))"

section \<open>Restoring\<close>

definition restore_throttle ::
  "'db rocksdb \<Rightarrow> u64 \<Rightarrow> nat \<Rightarrow> persisted_throttle \<Rightarrow> 'db node \<Rightarrow> 'db node run" where
  "restore_throttle R now inow p n =
     (if \<not> pt_throttled p then Done n
      else if pt_cooldown_until_ms p > now
      then let n = (case sched_policy (nd_scheduler n) (pt_tenant_id p) of
                      Some policy \<Rightarrow> n\<lparr>nd_scheduler := sched_update_policy inow (nd_scheduler n)
                        (policy\<lparr>tp_rate_per_sec := pt_applied_rate p, tp_burst_tokens := max (pt_applied_rate p) 1\<rparr>)\<rparr>
                    | None \<Rightarrow> n)
           in Done (n\<lparr>nd_throttles := (nd_throttles n)(pt_tenant_id p \<mapsto>
                \<lparr>th_tenant_id = pt_tenant_id p, th_throttled = True, th_reason = pt_reason p,
                 th_original_rate = pt_original_rate p, th_applied_rate = pt_applied_rate p,
                 th_triggered_at_ms = pt_triggered_at_ms p, th_cooldown_until_ms = pt_cooldown_until_ms p\<rparr>)\<rparr>)
      else on_store (\<lambda>d. clear_throttle R d (pt_tenant_id p)) n)"

text \<open>The clock is read once per record that is marked as throttled: \<open>clk i\<close> for the record at \<open>i\<close>.\<close>

fun restore_loop ::
  "'db rocksdb \<Rightarrow> (nat \<Rightarrow> u64) \<Rightarrow> nat \<Rightarrow> persisted_throttle list \<Rightarrow> 'db node \<Rightarrow> 'db node run" where
  "restore_loop R clk inow [] n = Done n"
| "restore_loop R clk inow (p # ps) n =
     and_then (restore_throttle R (clk 0) inow p n) (restore_loop R (\<lambda>i. clk (Suc i)) inow ps)"

definition restore_from_store ::
  "'db rocksdb \<Rightarrow> store_env \<Rightarrow> (nat \<Rightarrow> u64) \<Rightarrow> nat \<Rightarrow> 'db node \<Rightarrow> 'db node run" where
  "restore_from_store R E clk inow n =
     (case load_all_throttles R E (db (nd_registry n)) of
        None \<Rightarrow> Panicked
      | Some ps \<Rightarrow> restore_loop R clk inow ps n)"

section \<open>Throttling and releasing\<close>

definition throttled_rate :: "throttle_config \<Rightarrow> u32 \<Rightarrow> u32" where
  "throttled_rate cfg rate = max (f64_to_u32 (f64_mul (f64_of_u32 rate) (tc_reduction_factor cfg))) (tc_min_rate_floor cfg)"

definition throttled_policy :: "throttle_config \<Rightarrow> tenant_policy \<Rightarrow> tenant_policy" where
  "throttled_policy cfg policy =
     (let applied = throttled_rate cfg (tp_rate_per_sec policy)
      in policy\<lparr>tp_rate_per_sec := applied, tp_burst_tokens := max applied 1,
                tp_max_inflight := f64_to_usize (f64_mul (f64_of_nat (tp_max_inflight policy)) (tc_reduction_factor cfg))\<rparr>)"

definition apply_throttle ::
  "'db rocksdb \<Rightarrow> store_env \<Rightarrow> throttle_config \<Rightarrow> nat \<Rightarrow> string \<Rightarrow> string \<Rightarrow> u64 \<Rightarrow> 'db node \<Rightarrow> 'db node run" where
  "apply_throttle R E cfg inow t reason now n =
     (case sched_policy (nd_scheduler n) t of
        None \<Rightarrow> Done n
      | Some policy \<Rightarrow>
          let original_rate = tp_rate_per_sec policy;
              applied_rate = throttled_rate cfg original_rate;
              until = now + tc_cooldown_secs cfg * 1000;
              n = n\<lparr>nd_scheduler := sched_update_policy inow (nd_scheduler n) (throttled_policy cfg policy)\<rparr>
          in and_then (on_store (\<lambda>d. persist_throttle R E d
               \<lparr>pt_tenant_id = t, pt_throttled = True, pt_reason = reason, pt_original_rate = original_rate,
                pt_applied_rate = applied_rate, pt_triggered_at_ms = now, pt_cooldown_until_ms = until\<rparr>) n)
             (\<lambda>n. Done (n\<lparr>nd_throttles := (nd_throttles n)(t \<mapsto>
               \<lparr>th_tenant_id = t, th_throttled = True, th_reason = reason, th_original_rate = original_rate,
                th_applied_rate = applied_rate, th_triggered_at_ms = now, th_cooldown_until_ms = until\<rparr>)\<rparr>)))"

text \<open>
  \<open>release_throttle\<close>: the policy is restored, the persisted record deleted and the state removed.
  \<open>guard\<close> tells whether the caller still holds a reference to the entry being removed.
\<close>

definition release_throttle ::
  "'db rocksdb \<Rightarrow> nat \<Rightarrow> bool \<Rightarrow> string \<Rightarrow> u32 \<Rightarrow> 'db node \<Rightarrow> 'db node run" where
  "release_throttle R inow guard t original_rate n =
     (let n = (case sched_policy (nd_scheduler n) t of
                 Some policy \<Rightarrow> n\<lparr>nd_scheduler := sched_update_policy inow (nd_scheduler n)
                   (policy\<lparr>tp_rate_per_sec := original_rate, tp_burst_tokens := original_rate\<rparr>)\<rparr>
               | None \<Rightarrow> n)
      in and_then (on_store (\<lambda>d. clear_throttle R d t) n)
           (\<lambda>n. if guard then Blocked n else Done (n\<lparr>nd_throttles := (nd_throttles n)(t := None)\<rparr>)))"

definition release_due :: "throttle_config \<Rightarrow> u64 \<Rightarrow> baselines \<Rightarrow> tenant_stats \<Rightarrow> throttle_state \<Rightarrow> bool" where
  "release_due cfg now bs s existing \<longleftrightarrow>
     (let cooldown_done = now \<ge> th_cooldown_until_ms existing;
          burst_ok = f64_less (burst_score s) (f64_mul (tc_burst_threshold cfg) (f64_of_rat (5 / 10)));
          backlog_ok = f64_less (backlog_ratio s) (f64_mul (tc_backlog_threshold cfg) (f64_of_rat (7 / 10)));
          threshold = (case spike_threshold bs (st_tenant_id s) of Some x \<Rightarrow> x | None \<Rightarrow> F64_MAX);
          rate_ok = f64_less (arrival_rate s) (f64_mul threshold (f64_of_rat (7 / 10)))
      in cooldown_done \<and> burst_ok \<and> backlog_ok \<and> rate_ok)"

definition should_throttle :: "throttle_config \<Rightarrow> baselines \<Rightarrow> tenant_stats \<Rightarrow> bool" where
  "should_throttle cfg bs s \<longleftrightarrow>
     f64_less (tc_burst_threshold cfg) (burst_score s) \<or> f64_less (tc_backlog_threshold cfg) (backlog_ratio s) \<or>
     is_spike bs (st_tenant_id s) (arrival_rate s)"

definition throttle_reason :: "throttle_config \<Rightarrow> tenant_stats \<Rightarrow> string" where
  "throttle_reason cfg s =
     (if f64_less (tc_burst_threshold cfg) (burst_score s) then ''burst_score_exceeded''
      else if f64_less (tc_backlog_threshold cfg) (backlog_ratio s) then ''backlog_threshold_exceeded''
      else ''rate_spike_detected'')"

definition evaluate_one ::
  "'db rocksdb \<Rightarrow> store_env \<Rightarrow> throttle_config \<Rightarrow> nat \<Rightarrow> u64 \<Rightarrow> tenant_stats \<Rightarrow> 'db node \<Rightarrow> 'db node run" where
  "evaluate_one R E cfg inow now s n =
     (let t = st_tenant_id s;
          throttle = (if should_throttle cfg (nd_baselines n) s
                      then apply_throttle R E cfg inow t (throttle_reason cfg s) now n else Done n)
      in case nd_throttles n t of
           Some existing \<Rightarrow>
             if th_throttled existing
             then (if release_due cfg now (nd_baselines n) s existing
                   then release_throttle R inow True t (th_original_rate existing) n else Done n)
             else throttle
         | None \<Rightarrow> throttle)"

fun evaluate_loop ::
  "'db rocksdb \<Rightarrow> store_env \<Rightarrow> throttle_config \<Rightarrow> nat \<Rightarrow> u64 \<Rightarrow> tenant_stats list \<Rightarrow> 'db node \<Rightarrow> 'db node run" where
  "evaluate_loop R E cfg inow now [] n = Done n"
| "evaluate_loop R E cfg inow now (s # ss) n =
     and_then (evaluate_one R E cfg inow now s n) (evaluate_loop R E cfg inow now ss)"

definition evaluate ::
  "'db rocksdb \<Rightarrow> store_env \<Rightarrow> throttle_config \<Rightarrow> nat \<Rightarrow> u64 \<Rightarrow> tenant_stats list \<Rightarrow> 'db node \<Rightarrow> 'db node run" where
  "evaluate R E cfg inow now all_stats n = evaluate_loop R E cfg inow now all_stats n"

text \<open>\<open>force_release\<close> drops its reference before it calls \<open>release_throttle\<close>.\<close>

definition force_release :: "'db rocksdb \<Rightarrow> nat \<Rightarrow> string \<Rightarrow> 'db node \<Rightarrow> 'db node run" where
  "force_release R inow t n =
     (case nd_throttles n t of
        Some state \<Rightarrow> release_throttle R inow False t (th_original_rate state) n
      | None \<Rightarrow> on_store (\<lambda>d. clear_throttle R d t) n)"

definition th_snapshot :: "'db node \<Rightarrow> string \<Rightarrow> throttle_state option" where
  "th_snapshot n t = nd_throttles n t"

definition th_all_snapshots :: "string list \<Rightarrow> 'db node \<Rightarrow> throttle_state list" where
  "th_all_snapshots order n = List.map_filter (nd_throttles n) order"

end
