(* ===== verification/Rq_Daemon.thy ===== *)
theory Rq_Daemon
  imports Rq_Throttle Rq_Queue
begin

text \<open>
  \<open>src/stats_daemon.rs\<close> and \<open>src/fair_worker.rs\<close>: the two background tasks that tie the
  components together. \<open>daemon_cycle\<close> is the body of the daemon's loop and \<open>worker_tick\<close> the one
  of a worker's; both run once per timer tick, for ever. The record \<open>cycle_env\<close> collects what a
  cycle observes of its surroundings: iteration orders and clock readings.
\<close>

section \<open>The statistics daemon\<close>

record cycle_env =
  ce_tenants :: "string list"
  ce_snapshots :: "string list"
  ce_baselines :: "string list"
  ce_update_ms :: "string \<Rightarrow> u64"
  ce_promotion_ms :: "string \<Rightarrow> u64"
  ce_evaluate_ms :: u64
  ce_flush_ms :: u64
  ce_flush_baselines_ms :: u64
  ce_instant :: nat

definition record_depth :: "'db rocksdb \<Rightarrow> string \<Rightarrow> string \<Rightarrow> 'db node \<Rightarrow> 'db node" where
  "record_depth R t q n =
     (case depth R (nd_registry n) t q of
        Inl e \<Rightarrow> n
      | Inr (pending, inflight, _) \<Rightarrow> n\<lparr>nd_collector := record_backlog (nd_collector n) t pending inflight\<rparr>)"

definition record_depths :: "'db rocksdb \<Rightarrow> string list \<Rightarrow> string list \<Rightarrow> 'db node \<Rightarrow> 'db node" where
  "record_depths R order queues n =
     fold (\<lambda>t n. fold (\<lambda>q n. record_depth R t q n) queues n) (list_tenants order (nd_registry n)) n"

text \<open>A promotion is flushed at once.\<close>

definition update_baseline ::
  "'db rocksdb \<Rightarrow> store_env \<Rightarrow> cycle_env \<Rightarrow> tenant_stats \<Rightarrow> 'db node \<Rightarrow> 'db node run" where
  "update_baseline R E K s n =
     (let t = st_tenant_id s
      in case bl_update (ce_update_ms K t) (nd_baselines n) t (arrival_rate s) of
           (promotion, bs) \<Rightarrow>
           let n = n\<lparr>nd_baselines := bs\<rparr>
           in case promotion of
                None \<Rightarrow> Done n
              | Some p \<Rightarrow>
                  (case bl_snapshot (nd_baselines n) t of
                     None \<Rightarrow> Done n
                   | Some b \<Rightarrow> on_store (\<lambda>d. flush_baselines R E (ce_promotion_ms K t) d [b]) n))"

fun update_baselines ::
  "'db rocksdb \<Rightarrow> store_env \<Rightarrow> cycle_env \<Rightarrow> tenant_stats list \<Rightarrow> 'db node \<Rightarrow> 'db node run" where
  "update_baselines R E K [] n = Done n"
| "update_baselines R E K (s # ss) n = and_then (update_baseline R E K s n) (update_baselines R E K ss)"

definition daemon_cycle ::
  "'db rocksdb \<Rightarrow> store_env \<Rightarrow> throttle_config \<Rightarrow> cycle_env \<Rightarrow> string list \<Rightarrow> u64 \<times> 'db node \<Rightarrow> u64 \<times> 'db node run" where
  "daemon_cycle R E cfg K queues = (\<lambda>(cycle_count, n).
     let cycle_count = cycle_count + 1;
         n = n\<lparr>nd_collector := col_refresh (nd_collector n)\<rparr>;
         n = record_depths R (ce_tenants K) queues n;
         snapshots = col_all_snapshots (ce_snapshots K) (nd_collector n)
     in (cycle_count,
         and_then (update_baselines R E K snapshots n) (\<lambda>n.
         and_then (evaluate R E cfg (ce_instant K) (ce_evaluate_ms K) snapshots n) (\<lambda>n.
         if cycle_count mod 10 = 0
         then and_then (on_store (\<lambda>d. flush_stats R E (ce_flush_ms K) d snapshots) n)
                (on_store (\<lambda>d. bl_flush R E (ce_flush_baselines_ms K) (ce_baselines K) d (nd_baselines n)))
         else Done n))))"

section \<open>The worker pool\<close>

text \<open>
  The handler is code of the embedding application: a function from the tenant and the task to
  its result. \<open>latency\<close> is what \<open>start.elapsed()\<close> reads after it, \<open>now\<close> the clock of \<open>nack\<close>.
\<close>

type_synonym handler = "string \<Rightarrow> task \<Rightarrow> queue_error + unit"

definition process_task ::
  "'db rocksdb \<Rightarrow> task codec \<Rightarrow> handler \<Rightarrow> nat \<Rightarrow> u64 \<Rightarrow> 'db node \<Rightarrow> string \<Rightarrow> bytes \<Rightarrow> task \<Rightarrow> 'db node" where
  "process_task R C handler latency now n t key task =
     (case handler t task of
        Inr () \<Rightarrow>
          (case ack R (nd_registry n) t key of
             (Inr acked, g) \<Rightarrow>
               if acked then n\<lparr>nd_registry := g, nd_collector := record_ack (nd_collector n) t latency\<rparr>
               else n\<lparr>nd_registry := g\<rparr>
           | (Inl e, g) \<Rightarrow> n\<lparr>nd_registry := g\<rparr>)
      | Inl e \<Rightarrow>
          (case nack R C now (nd_registry n) t key of
             (_, g) \<Rightarrow> n\<lparr>nd_collector := record_nack (nd_collector n) t, nd_registry := g\<rparr>))"

fun process_tasks ::
  "'db rocksdb \<Rightarrow> task codec \<Rightarrow> handler \<Rightarrow> (bytes \<Rightarrow> nat) \<Rightarrow> (bytes \<Rightarrow> u64) \<Rightarrow> string \<Rightarrow> (bytes \<times> task) list
   \<Rightarrow> 'db node \<Rightarrow> 'db node" where
  "process_tasks R C handler latency now t [] n = n"
| "process_tasks R C handler latency now t ((key, task) # tasks) n =
     process_tasks R C handler latency now t tasks (process_task R C handler (latency key) (now key) n t key task)"

definition work_queue ::
  "'db rocksdb \<Rightarrow> task codec \<Rightarrow> handler \<Rightarrow> (bytes \<Rightarrow> nat) \<Rightarrow> (bytes \<Rightarrow> u64) \<Rightarrow> (nat \<Rightarrow> u64) \<Rightarrow> nat \<Rightarrow> string \<Rightarrow> string
   \<Rightarrow> 'db node \<Rightarrow> 'db node" where
  "work_queue R C handler latency now clk slots t q n =
     (case dequeue R C clk (nd_registry n) t q slots of
        (Inr tasks, g) \<Rightarrow> process_tasks R C handler latency now t tasks (n\<lparr>nd_registry := g\<rparr>)
      | (Inl e, g) \<Rightarrow> n\<lparr>nd_registry := g\<rparr>)"

definition worker_slots :: "nat \<Rightarrow> nat \<Rightarrow> nat" where
  "worker_slots total_slots concurrency = max (total_slots div concurrency) 1"

text \<open>One tick of a worker; \<open>clk t q\<close> are the clock readings of the dequeue from a queue.\<close>

definition worker_tick ::
  "'db rocksdb \<Rightarrow> task codec \<Rightarrow> handler \<Rightarrow> (bytes \<Rightarrow> nat) \<Rightarrow> (bytes \<Rightarrow> u64) \<Rightarrow> (string \<Rightarrow> string \<Rightarrow> nat \<Rightarrow> u64)
   \<Rightarrow> string list \<Rightarrow> (string \<Rightarrow> nat) \<Rightarrow> (string \<Rightarrow> nat) \<Rightarrow> string list \<Rightarrow> nat \<Rightarrow> nat \<Rightarrow> 'db node \<Rightarrow> 'db node" where
  "worker_tick R C handler latency now clk order now1 now2 queues total_slots concurrency n =
     fold (\<lambda>(t, slots) n. if slots = 0 then n
             else fold (\<lambda>q n. work_queue R C handler latency now (clk t q) slots t q n) queues n)
       (allocate_slots order now1 now2 (nd_collector n) (worker_slots total_slots concurrency)) n"

end
