(* ===== verification/Rq_Control.thy ===== *)
theory Rq_Control
  imports Rq_Daemon
begin

text \<open>
  \<open>src/grpc/control_plane.rs\<close>: the gRPC service. A handler is a function on the \<open>node\<close> whose
  result is a status or a response. The generated message types are records. Encoding of
  acknowledgement keys is done by the \<open>hex\<close> crate, which is not part of the repository: its two
  functions are the record \<open>hex_codec\<close>. \<open>None\<close> stands for a request that gets no answer (the
  registry call does not return, or the store panics). Tasks of the blocking pool do not fail
  to be joined unless they panic, so \<open>offload\<close> only maps errors.
\<close>

section \<open>Statuses\<close>

datatype status_code = NotFound | Internal | ResourceExhausted | InvalidArgument

datatype status = Status (code: status_code) (message: string)

definition error_text :: "queue_error \<Rightarrow> string" where
  "error_text e = (case e of
       RocksDB s \<Rightarrow> ''RocksDB error: '' @ s
     | Serialization s \<Rightarrow> ''Serialization error: '' @ s
     | QueueNotFound s \<Rightarrow> ''Queue not found: '' @ s
     | TaskNotFound s \<Rightarrow> ''Task not found: '' @ s
     | ColumnFamilyMissing s \<Rightarrow> ''Column family missing: '' @ s
     | BacklogQuotaExceeded t q c k i \<Rightarrow>
         ''Backlog quota exceeded for tenant='' @ t @ '' queue='' @ q @ '': current='' @ show_nat c @
         '' quota='' @ show_nat k @ '' incoming='' @ show_nat i
     | Io k s \<Rightarrow> ''IO error: '' @ s)"

definition not_found :: "string \<Rightarrow> status" where
  "not_found msg = Status NotFound msg"

definition internal :: "string \<Rightarrow> status" where
  "internal msg = Status Internal msg"

definition queue_error_status :: "queue_error \<Rightarrow> status" where
  "queue_error_status e = (case e of
       ColumnFamilyMissing _ \<Rightarrow> Status NotFound (error_text e)
     | QueueNotFound _ \<Rightarrow> Status NotFound (error_text e)
     | TaskNotFound _ \<Rightarrow> Status NotFound (error_text e)
     | BacklogQuotaExceeded _ _ _ _ _ \<Rightarrow> Status ResourceExhausted (error_text e)
     | _ \<Rightarrow> Status Internal (error_text e))"

definition queue_or_default :: "string \<Rightarrow> string" where
  "queue_or_default q = (if q = [] then ''default'' else q)"

record hex_codec =
  hex_encode :: "bytes \<Rightarrow> string"
  hex_decode :: "string \<Rightarrow> string + bytes"

definition decode_ack_key :: "hex_codec \<Rightarrow> string \<Rightarrow> status + bytes" where
  "decode_ack_key H k = (case hex_decode H k of
     Inl e \<Rightarrow> Inl (Status InvalidArgument (''invalid ack_key: '' @ e)) | Inr b \<Rightarrow> Inr b)"

type_synonym ('db, 'a) reply = "(status + 'a) \<times> 'db node"

definition offload :: "('db registry, 'a) outcome \<Rightarrow> 'db node \<Rightarrow> ('db, 'a) reply" where
  "offload r n = (case r of
       (Inl e, g) \<Rightarrow> (Inl (queue_error_status e), n\<lparr>nd_registry := g\<rparr>)
     | (Inr x, g) \<Rightarrow> (Inr x, n\<lparr>nd_registry := g\<rparr>))"

definition bind_reply :: "('db, 'a) reply \<Rightarrow> ('a \<Rightarrow> 'db node \<Rightarrow> ('db, 'b) reply) \<Rightarrow> ('db, 'b) reply" where
  "bind_reply r f = (case r of (Inl e, n) \<Rightarrow> (Inl e, n) | (Inr x, n) \<Rightarrow> f x n)"

section \<open>Tenant life cycle\<close>

record tenant_response =
  tr_tenant_id :: string
  tr_success :: bool
  tr_message :: string

definition scheduling_policy :: "string \<Rightarrow> namespace_policy \<Rightarrow> tenant_policy" where
  "scheduling_policy t p = \<lparr>tp_tenant_id = t, tp_weight = np_weight p, tp_max_inflight = np_max_inflight p,
     tp_burst_tokens = np_burst_tokens p, tp_rate_per_sec = np_rate_per_sec p\<rparr>"

text \<open>Scheduler, collector and baselines learn of a tenant.\<close>

definition register_runtime ::
  "'db rocksdb \<Rightarrow> store_env \<Rightarrow> nat \<Rightarrow> u64 \<Rightarrow> string \<Rightarrow> tenant_policy \<Rightarrow> 'db node \<Rightarrow> 'db node option" where
  "register_runtime R E inow now t policy n =
     map_option (\<lambda>bs. n\<lparr>nd_scheduler := sched_register inow (nd_scheduler n) policy,
                        nd_collector := col_register inow (nd_collector n) t, nd_baselines := bs\<rparr>)
       (bl_register R E now (db (nd_registry n)) (nd_baselines n) t (Fin 0))"

definition rpc_provision_tenant ::
  "'db rocksdb \<Rightarrow> namespace_policy codec \<Rightarrow> store_env \<Rightarrow> nat \<Rightarrow> u64 \<Rightarrow> string \<Rightarrow> string \<Rightarrow> 'db node
   \<Rightarrow> ('db, tenant_response) reply option" where
  "rpc_provision_tenant R PC E inow now t tier n =
     (let policy = (if tier = ''premium'' then premium_policy t else standard_policy t)
      in case offload (provision_tenant R PC (nd_registry n) t policy) n of
           (Inl e, n) \<Rightarrow> Some (Inl e, n)
         | (Inr _, n) \<Rightarrow>
             map_option (\<lambda>n. (Inr \<lparr>tr_tenant_id = t, tr_success = True, tr_message = ''provisioned''\<rparr>, n))
               (register_runtime R E inow now t (scheduling_policy t policy) n))"

definition rpc_drop_tenant :: "'db rocksdb \<Rightarrow> string \<Rightarrow> 'db node \<Rightarrow> ('db, tenant_response) reply" where
  "rpc_drop_tenant R t n =
     bind_reply (offload (drop_tenant R (nd_registry n) t) n) (\<lambda>_ n.
       (Inr \<lparr>tr_tenant_id = t, tr_success = True, tr_message = ''dropped''\<rparr>,
        n\<lparr>nd_scheduler := sched_deregister (nd_scheduler n) t, nd_collector := col_deregister (nd_collector n) t,
          nd_baselines := bl_deregister (nd_baselines n) t\<rparr>))"

section \<open>Policies\<close>

record policy_msg =
  pm_weight :: u32
  pm_max_inflight :: u32
  pm_burst_tokens :: u32
  pm_rate_per_sec :: u32

definition rpc_update_policy ::
  "nat \<Rightarrow> string \<Rightarrow> policy_msg option \<Rightarrow> 'db node \<Rightarrow> ('db, tenant_response) reply" where
  "rpc_update_policy inow t policy n =
     (case policy of
        None \<Rightarrow> (Inl (Status InvalidArgument ''policy required''), n)
      | Some p \<Rightarrow>
          (Inr \<lparr>tr_tenant_id = t, tr_success = True, tr_message = ''policy updated''\<rparr>,
           n\<lparr>nd_scheduler := sched_update_policy inow (nd_scheduler n)
             \<lparr>tp_tenant_id = t, tp_weight = pm_weight p, tp_max_inflight = unat (pm_max_inflight p),
              tp_burst_tokens = pm_burst_tokens p, tp_rate_per_sec = pm_rate_per_sec p\<rparr>\<rparr>))"

definition rpc_get_policy :: "string \<Rightarrow> 'db node \<Rightarrow> status + string \<times> policy_msg" where
  "rpc_get_policy t n =
     (case sched_policy (nd_scheduler n) t of
        None \<Rightarrow> Inl (not_found ''tenant not found'')
      | Some p \<Rightarrow> Inr (t, \<lparr>pm_weight = tp_weight p, pm_max_inflight = word_of_nat (tp_max_inflight p),
          pm_burst_tokens = tp_burst_tokens p, pm_rate_per_sec = tp_rate_per_sec p\<rparr>))"

record namespace_policy_request =
  nr_tenant_id :: string
  nr_backlog_quota :: u64
  nr_backlog_policy :: string
  nr_block_timeout_ms :: u64
  nr_pending_retention_secs :: u64
  nr_dlq_retention_secs :: u64
  nr_inflight_stale_secs :: u64

definition namespace_policy_of :: "namespace_policy_request \<Rightarrow> namespace_policy" where
  "namespace_policy_of req =
     \<lparr>np_tenant_id = nr_tenant_id req, np_namespace = nr_tenant_id req, np_weight = 10, np_max_inflight = 500,
      np_burst_tokens = 100, np_rate_per_sec = 100,
      np_backlog_quota = (if nr_backlog_quota req = 0 then None else Some (unat (nr_backlog_quota req))),
      np_backlog_policy =
        (if nr_backlog_policy req = ''block'' then Block (nr_block_timeout_ms req)
         else if nr_backlog_policy req = ''evict_oldest'' then EvictOldest else Reject),
      np_retention =
        \<lparr>pending_retention_secs = nr_pending_retention_secs req,
         dlq_retention_secs = (if nr_dlq_retention_secs req = 0 then 7 * 24 * 3600 else nr_dlq_retention_secs req),
         inflight_stale_secs = (if nr_inflight_stale_secs req = 0 then 300 else nr_inflight_stale_secs req)\<rparr>\<rparr>"

definition rpc_set_namespace_policy ::
  "'db rocksdb \<Rightarrow> namespace_policy codec \<Rightarrow> namespace_policy_request \<Rightarrow> 'db node \<Rightarrow> ('db, tenant_response) reply" where
  "rpc_set_namespace_policy R PC req n =
     bind_reply (offload (update_namespace_policy R PC (nd_registry n) (nr_tenant_id req) (namespace_policy_of req)) n)
       (\<lambda>_ n. (Inr \<lparr>tr_tenant_id = nr_tenant_id req, tr_success = True, tr_message = ''namespace policy set''\<rparr>, n))"

record namespace_policy_response =
  nq_tenant_id :: string
  nq_backlog_quota :: u64
  nq_backlog_policy :: string
  nq_pending_retention_secs :: u64
  nq_dlq_retention_secs :: u64
  nq_inflight_stale_secs :: u64

definition rpc_get_namespace_policy :: "string \<Rightarrow> 'db node \<Rightarrow> status + namespace_policy_response" where
  "rpc_get_namespace_policy t n =
     (case get_policy (nd_registry n) t of
        None \<Rightarrow> Inl (not_found ''tenant not found'')
      | Some p \<Rightarrow> Inr
          \<lparr>nq_tenant_id = t,
           nq_backlog_quota = word_of_nat (case np_backlog_quota p of Some q \<Rightarrow> q | None \<Rightarrow> 0),
           nq_backlog_policy = (case np_backlog_policy p of Reject \<Rightarrow> ''reject'' | Block _ \<Rightarrow> ''block'' | EvictOldest \<Rightarrow> ''evict_oldest''),
           nq_pending_retention_secs = pending_retention_secs (np_retention p),
           nq_dlq_retention_secs = dlq_retention_secs (np_retention p),
           nq_inflight_stale_secs = inflight_stale_secs (np_retention p)\<rparr>)"

section \<open>Observability\<close>

record tenant_status =
  tu_tenant_id :: string
  tu_paused :: bool
  tu_pending :: u64
  tu_inflight :: u64
  tu_dlq :: u64

text \<open>\<open>queues.first().cloned().unwrap_or_default()\<close>.\<close>

definition first_queue :: "string list \<Rightarrow> string" where
  "first_queue queues = (case queues of [] \<Rightarrow> [] | q # _ \<Rightarrow> q)"

definition rpc_get_tenant_status ::
  "'db rocksdb \<Rightarrow> string list \<Rightarrow> string \<Rightarrow> 'db node \<Rightarrow> status + tenant_status" where
  "rpc_get_tenant_status R queues t n =
     (case depth R (nd_registry n) t (first_queue queues) of
        Inl e \<Rightarrow> Inl (queue_error_status e)
      | Inr (pending, inflight, dlq) \<Rightarrow> Inr
          \<lparr>tu_tenant_id = t,
           tu_paused = (case tenant_snapshot (nd_scheduler n) t of Some (_, _, paused, _) \<Rightarrow> paused | None \<Rightarrow> False),
           tu_pending = word_of_nat pending, tu_inflight = word_of_nat inflight, tu_dlq = word_of_nat dlq\<rparr>)"

definition rpc_list_tenants :: "string list \<Rightarrow> 'db node \<Rightarrow> string list" where
  "rpc_list_tenants order n = list_tenants order (nd_registry n)"

record queue_depth_event =
  qe_tenant_id :: string
  qe_queue :: string
  qe_pending :: u64
  qe_inflight :: u64
  qe_dlq :: u64
  qe_timestamp :: u64

text \<open>
  One tick of the depth stream: the events sent and whether the stream goes on. \<open>sent q\<close> tells
  whether the receiver still takes the event of a queue.
\<close>

fun watch_depth_tick ::
  "'db rocksdb \<Rightarrow> (string \<Rightarrow> bool) \<Rightarrow> (string \<Rightarrow> u64) \<Rightarrow> string \<Rightarrow> 'db node \<Rightarrow> string list
   \<Rightarrow> (status + queue_depth_event) list \<times> bool" where
  "watch_depth_tick R sent now t n [] = ([], True)"
| "watch_depth_tick R sent now t n (q # queues) =
     (case depth R (nd_registry n) t q of
        Inl e \<Rightarrow> ([Inl (internal (error_text e))], False)
      | Inr (p, i, d) \<Rightarrow>
          if \<not> sent q then ([], False)
          else case watch_depth_tick R sent now t n queues of
            (events, continue) \<Rightarrow>
              (Inr \<lparr>qe_tenant_id = t, qe_queue = q, qe_pending = word_of_nat p, qe_inflight = word_of_nat i,
                    qe_dlq = word_of_nat d, qe_timestamp = now q\<rparr> # events, continue))"

text \<open>
  The stream over its ticks, up to the one that ends it: each tick sees the node as it then is, the
  receiver and the clock. The period of the ticks is at least a second.
\<close>

definition watch_interval :: "u64 \<Rightarrow> u64" where
  "watch_interval secs = max secs 1"

fun watch_queue_depth ::
  "'db rocksdb \<Rightarrow> string \<Rightarrow> string list \<Rightarrow> ((string \<Rightarrow> bool) \<times> (string \<Rightarrow> u64) \<times> 'db node) list
   \<Rightarrow> (status + queue_depth_event) list \<times> bool" where
  "watch_queue_depth R t queues [] = ([], True)"
| "watch_queue_depth R t queues ((sent, now, n) # ticks) =
     (case watch_depth_tick R sent now t n queues of
        (events, False) \<Rightarrow> (events, False)
      | (events, True) \<Rightarrow> (case watch_queue_depth R t queues ticks of (later, alive) \<Rightarrow> (events @ later, alive)))"

section \<open>Queue workload\<close>

definition DEFAULT_DEQUEUE_LIMIT :: nat where
  "DEFAULT_DEQUEUE_LIMIT = 500"

record enqueue_response =
  er_tenant_id :: string
  er_queue :: string
  er_task_ids :: "string list"

definition rpc_enqueue_task ::
  "'db rocksdb \<Rightarrow> task codec \<Rightarrow> (nat \<Rightarrow> u64) \<Rightarrow> (nat \<Rightarrow> 'db registry \<Rightarrow> 'db registry) \<Rightarrow> u64 \<Rightarrow> (nat \<Rightarrow> string)
   \<Rightarrow> string \<Rightarrow> string \<Rightarrow> string \<Rightarrow> 'db node \<Rightarrow> ('db, enqueue_response) reply option" where
  "rpc_enqueue_task R C clk env now uuid t queue text n =
     (let q = queue_or_default queue
      in case get_policy (nd_registry n) t of
           None \<Rightarrow> Some (Inl (not_found ''tenant not found''), n)
         | Some policy \<Rightarrow>
             map_option (\<lambda>r. bind_reply (offload r n) (\<lambda>uid n.
                 (Inr \<lparr>er_tenant_id = t, er_queue = q, er_task_ids = [uid]\<rparr>,
                  n\<lparr>nd_collector := record_enqueue (nd_collector n) t 1\<rparr>)))
               (enqueue R C clk env now uuid (nd_registry n) t q (as_bytes text) policy))"

definition rpc_enqueue_batch ::
  "'db rocksdb \<Rightarrow> task codec \<Rightarrow> (nat \<Rightarrow> u64) \<Rightarrow> (nat \<Rightarrow> 'db registry \<Rightarrow> 'db registry) \<Rightarrow> u64 \<Rightarrow> (nat \<Rightarrow> string)
   \<Rightarrow> string \<Rightarrow> string \<Rightarrow> string list \<Rightarrow> 'db node \<Rightarrow> ('db, enqueue_response) reply option" where
  "rpc_enqueue_batch R C clk env now uuid t queue texts n =
     (if texts = [] then Some (Inl (Status InvalidArgument ''payloads must not be empty''), n)
      else let q = queue_or_default queue
      in case get_policy (nd_registry n) t of
           None \<Rightarrow> Some (Inl (not_found ''tenant not found''), n)
         | Some policy \<Rightarrow>
             map_option (\<lambda>r. bind_reply (offload r n) (\<lambda>ids n.
                 (Inr \<lparr>er_tenant_id = t, er_queue = q, er_task_ids = ids\<rparr>,
                  n\<lparr>nd_collector := record_enqueue (nd_collector n) t (word_of_nat (length texts))\<rparr>)))
               (enqueue_batch_sync R C clk env now uuid (nd_registry n) t q (map as_bytes texts) policy))"

record dequeued_task =
  dt_ack_key :: string
  dt_task_id :: string
  dt_queue :: string
  dt_payload :: string
  dt_enqueued_at :: u64
  dt_attempts :: u32
  dt_deadline :: u64

definition dequeued_task_of :: "hex_codec \<Rightarrow> bytes \<times> task \<Rightarrow> dequeued_task" where
  "dequeued_task_of H = (\<lambda>(key, task).
     \<lparr>dt_ack_key = hex_encode H key, dt_task_id = task_id task, dt_queue = task_queue task,
      dt_payload = from_utf8_lossy (payload task), dt_enqueued_at = enqueued_at task,
      dt_attempts = attempts task, dt_deadline = deadline task\<rparr>)"

definition rpc_dequeue_tasks ::
  "'db rocksdb \<Rightarrow> task codec \<Rightarrow> hex_codec \<Rightarrow> (nat \<Rightarrow> u64) \<Rightarrow> string \<Rightarrow> string \<Rightarrow> u32 \<Rightarrow> 'db node
   \<Rightarrow> ('db, string \<times> string \<times> dequeued_task list) reply" where
  "rpc_dequeue_tasks R C H clk t queue limit n =
     (let q = queue_or_default queue;
          limit = (if limit = 0 then DEFAULT_DEQUEUE_LIMIT else unat limit)
      in case get_policy (nd_registry n) t of
           None \<Rightarrow> (Inl (not_found ''tenant not found''), n)
         | Some policy \<Rightarrow>
             bind_reply (offload (dequeue_with_max_inflight R C clk (nd_registry n) t q limit 60000 (np_max_inflight policy)) n)
               (\<lambda>tasks n. (Inr (t, q, map (dequeued_task_of H) tasks), n)))"

definition rpc_ack_task ::
  "'db rocksdb \<Rightarrow> hex_codec \<Rightarrow> string \<Rightarrow> string \<Rightarrow> 'db node \<Rightarrow> ('db, tenant_response) reply" where
  "rpc_ack_task R H t ack_key n =
     (case decode_ack_key H ack_key of
        Inl e \<Rightarrow> (Inl e, n)
      | Inr key \<Rightarrow>
          bind_reply (offload (ack R (nd_registry n) t key) n) (\<lambda>acked n.
            (Inr \<lparr>tr_tenant_id = t, tr_success = True, tr_message = ''acked''\<rparr>,
             if acked then n\<lparr>nd_collector := record_ack (nd_collector n) t 0\<rparr> else n)))"

text \<open>\<open>collect::<Result<_, _>>()\<close>: the first error ends the iteration.\<close>

fun decode_ack_keys :: "hex_codec \<Rightarrow> string list \<Rightarrow> status + bytes list" where
  "decode_ack_keys H [] = Inr []"
| "decode_ack_keys H (k # ks) =
     (case decode_ack_key H k of
        Inl e \<Rightarrow> Inl e
      | Inr b \<Rightarrow> (case decode_ack_keys H ks of Inl e \<Rightarrow> Inl e | Inr bs \<Rightarrow> Inr (b # bs)))"

definition rpc_ack_batch ::
  "'db rocksdb \<Rightarrow> hex_codec \<Rightarrow> string \<Rightarrow> string list \<Rightarrow> 'db node \<Rightarrow> ('db, tenant_response) reply" where
  "rpc_ack_batch R H t ack_keys n =
     (if ack_keys = [] then (Inl (Status InvalidArgument ''ack_keys must not be empty''), n)
      else case decode_ack_keys H ack_keys of
        Inl e \<Rightarrow> (Inl e, n)
      | Inr keys \<Rightarrow>
          bind_reply (offload (ack_batch R (nd_registry n) t keys) n) (\<lambda>count n.
            (Inr \<lparr>tr_tenant_id = t, tr_success = True, tr_message = ''acked '' @ show_nat count\<rparr>,
             n\<lparr>nd_collector := record_ack_count (nd_collector n) t (word_of_nat count) 0\<rparr>)))"

definition rpc_nack_task ::
  "'db rocksdb \<Rightarrow> task codec \<Rightarrow> hex_codec \<Rightarrow> u64 \<Rightarrow> string \<Rightarrow> string \<Rightarrow> 'db node \<Rightarrow> ('db, tenant_response) reply" where
  "rpc_nack_task R C H now t ack_key n =
     (case decode_ack_key H ack_key of
        Inl e \<Rightarrow> (Inl e, n)
      | Inr key \<Rightarrow>
          bind_reply (offload (nack R C now (nd_registry n) t key) n) (\<lambda>_ n.
            (Inr \<lparr>tr_tenant_id = t, tr_success = True, tr_message = ''nacked''\<rparr>,
             n\<lparr>nd_collector := record_nack (nd_collector n) t\<rparr>)))"

end
