(* ===== verification/Rq_Admin.thy ===== *)
theory Rq_Admin
  imports Rq_Control
begin

text \<open>
  \<open>src/grpc/control_plane.rs\<close>, the rest of the service: statistics, throttle and baseline
  queries, pausing and draining, dead letters and compaction.
\<close>

section \<open>Statistics\<close>

record stats_response =
  sr_tenant_id :: string
  sr_arrival_rate :: f64
  sr_processing_rate :: f64
  sr_avg_task_latency :: f64
  sr_burst_score :: f64
  sr_backlog_ratio :: f64
  sr_total_enqueued :: u64
  sr_total_acked :: u64
  sr_total_nacked :: u64
  sr_stats_version :: u64
  sr_is_new :: bool

definition stats_response_of :: "tenant_stats \<Rightarrow> stats_response" where
  "stats_response_of s =
     \<lparr>sr_tenant_id = st_tenant_id s, sr_arrival_rate = arrival_rate s, sr_processing_rate = processing_rate s,
      sr_avg_task_latency = avg_task_latency s, sr_burst_score = burst_score s, sr_backlog_ratio = backlog_ratio s,
      sr_total_enqueued = total_enqueued s, sr_total_acked = total_acked s, sr_total_nacked = total_nacked s,
      sr_stats_version = stats_version s, sr_is_new = is_new s\<rparr>"

definition rpc_get_tenant_stats :: "string \<Rightarrow> 'db node \<Rightarrow> status + stats_response" where
  "rpc_get_tenant_stats t n =
     (case col_snapshot (nd_collector n) t of
        None \<Rightarrow> Inl (not_found ''tenant stats not found'')
      | Some s \<Rightarrow> Inr (stats_response_of s))"

definition rpc_list_all_stats :: "string list \<Rightarrow> 'db node \<Rightarrow> stats_response list" where
  "rpc_list_all_stats order n = map stats_response_of (col_all_snapshots order (nd_collector n))"

text \<open>One tick of the statistics stream: the event sent, if any, and whether the stream goes on.\<close>

definition watch_stats_tick :: "bool \<Rightarrow> u64 \<Rightarrow> string \<Rightarrow> 'db node \<Rightarrow> (stats_response \<times> u64) option \<times> bool" where
  "watch_stats_tick sent now t n =
     (case col_snapshot (nd_collector n) t of
        None \<Rightarrow> (None, True)
      | Some s \<Rightarrow> if sent then (Some (stats_response_of s, now), True) else (None, False))"

text \<open>The stream over its ticks, up to the one that ends it.\<close>

fun watch_stats :: "string \<Rightarrow> (bool \<times> u64 \<times> 'db node) list \<Rightarrow> (stats_response \<times> u64) list \<times> bool" where
  "watch_stats t [] = ([], True)"
| "watch_stats t ((sent, now, n) # ticks) =
     (case watch_stats_tick sent now t n of
        (_, False) \<Rightarrow> ([], False)
      | (None, True) \<Rightarrow> watch_stats t ticks
      | (Some event, True) \<Rightarrow> (case watch_stats t ticks of (later, alive) \<Rightarrow> (event # later, alive)))"

section \<open>Throttle and baselines\<close>

record throttle_status =
  tq_tenant_id :: string
  tq_throttled :: bool
  tq_reason :: string
  tq_original_rate :: u32
  tq_applied_rate :: u32
  tq_triggered_at_ms :: u64
  tq_cooldown_until_ms :: u64

definition throttle_status_of :: "throttle_state \<Rightarrow> throttle_status" where
  "throttle_status_of s =
     \<lparr>tq_tenant_id = th_tenant_id s, tq_throttled = th_throttled s, tq_reason = th_reason s,
      tq_original_rate = th_original_rate s, tq_applied_rate = th_applied_rate s,
      tq_triggered_at_ms = th_triggered_at_ms s, tq_cooldown_until_ms = th_cooldown_until_ms s\<rparr>"

definition rpc_get_throttle_status :: "string \<Rightarrow> 'db node \<Rightarrow> status + throttle_status" where
  "rpc_get_throttle_status t n =
     (case th_snapshot n t of
        None \<Rightarrow> Inl (not_found ''no throttle state'')
      | Some s \<Rightarrow> Inr (throttle_status_of s))"

definition rpc_list_throttled :: "string list \<Rightarrow> 'db node \<Rightarrow> throttle_status list" where
  "rpc_list_throttled order n = map throttle_status_of (th_all_snapshots order n)"

definition rpc_force_release_throttle ::
  "'db rocksdb \<Rightarrow> nat \<Rightarrow> string \<Rightarrow> 'db node \<Rightarrow> ('db, tenant_response) reply option" where
  "rpc_force_release_throttle R inow t n =
     (case force_release R inow t n of
        Done n \<Rightarrow> Some (Inr \<lparr>tr_tenant_id = t, tr_success = True, tr_message = ''throttle released''\<rparr>, n)
      | _ \<Rightarrow> None)"

record baseline_status =
  bq_tenant_id :: string
  bq_short_ema :: f64
  bq_long_ema :: f64
  bq_rolling_peak :: f64
  bq_spike_threshold :: f64
  bq_last_updated_ms :: u64

definition baseline_status_of :: "tenant_baseline \<Rightarrow> baseline_status" where
  "baseline_status_of b =
     \<lparr>bq_tenant_id = bl_tenant_id b, bq_short_ema = bl_short_ema b, bq_long_ema = bl_long_ema b,
      bq_rolling_peak = bl_rolling_peak b, bq_spike_threshold = bl_spike_threshold b,
      bq_last_updated_ms = bl_last_updated_ms b\<rparr>"

definition rpc_get_baseline_status :: "string \<Rightarrow> 'db node \<Rightarrow> status + baseline_status" where
  "rpc_get_baseline_status t n =
     (case bl_snapshot (nd_baselines n) t of
        None \<Rightarrow> Inl (not_found ''no baseline'')
      | Some b \<Rightarrow> Inr (baseline_status_of b))"

definition rpc_list_all_baselines :: "string list \<Rightarrow> 'db node \<Rightarrow> baseline_status list" where
  "rpc_list_all_baselines order n = map baseline_status_of (bl_all_snapshots order (nd_baselines n))"

section \<open>Pausing and draining\<close>

definition set_paused_reply :: "string \<Rightarrow> bool \<Rightarrow> string \<Rightarrow> 'db node \<Rightarrow> ('db, tenant_response) reply" where
  "set_paused_reply t paused msg n =
     (case set_paused (nd_scheduler n) t paused of
        (None, s) \<Rightarrow> (Inl (not_found ''tenant not found''), n\<lparr>nd_scheduler := s\<rparr>)
      | (Some _, s) \<Rightarrow> (Inr \<lparr>tr_tenant_id = t, tr_success = True, tr_message = msg\<rparr>, n\<lparr>nd_scheduler := s\<rparr>))"

definition rpc_pause_tenant :: "string \<Rightarrow> 'db node \<Rightarrow> ('db, tenant_response) reply" where
  "rpc_pause_tenant t n = set_paused_reply t True ''paused'' n"

definition rpc_resume_tenant :: "string \<Rightarrow> 'db node \<Rightarrow> ('db, tenant_response) reply" where
  "rpc_resume_tenant t n = set_paused_reply t False ''resumed'' n"

record drain_response =
  dr_tenant_id :: string
  dr_drained :: bool
  dr_remaining :: u64

text \<open>
  The loop of \<open>drain_tenant\<close>: poll \<open>i\<close> reads the clock (nanoseconds) as \<open>clk i\<close>; during the sleep
  after it the rest of the process changes the node by \<open>env i\<close>.
\<close>

partial_function (option) drain_wait ::
  "'db rocksdb \<Rightarrow> (nat \<Rightarrow> nat) \<Rightarrow> (nat \<Rightarrow> 'db node \<Rightarrow> 'db node) \<Rightarrow> nat \<Rightarrow> nat \<Rightarrow> string \<Rightarrow> string \<Rightarrow> 'db node
   \<Rightarrow> ('db, drain_response) reply option" where
  "drain_wait R clk env i dl t q n =
     (case depth R (nd_registry n) t q of
        Inl e \<Rightarrow> Some (Inl (queue_error_status e), n)
      | Inr (pending, inflight, _) \<Rightarrow>
          if pending = 0 \<and> inflight = 0
          then Some (Inr \<lparr>dr_tenant_id = t, dr_drained = True, dr_remaining = 0\<rparr>, n)
          else if clk i \<ge> dl
          then Some (Inr \<lparr>dr_tenant_id = t, dr_drained = False, dr_remaining = word_of_nat (pending + inflight)\<rparr>, n)
          else drain_wait R clk env (Suc i) dl t q (env i n))"

declare drain_wait.simps [code]

text \<open>Adding a duration to an \<open>Instant\<close> panics when the seconds exceed an \<open>i64\<close>.\<close>

definition rpc_drain_tenant ::
  "'db rocksdb \<Rightarrow> (nat \<Rightarrow> nat) \<Rightarrow> (nat \<Rightarrow> 'db node \<Rightarrow> 'db node) \<Rightarrow> nat \<Rightarrow> string list \<Rightarrow> string \<Rightarrow> u64 \<Rightarrow> 'db node
   \<Rightarrow> ('db, drain_response) reply option" where
  "rpc_drain_tenant R clk env start queues t timeout_secs n =
     (let n = n\<lparr>nd_scheduler := snd (set_paused (nd_scheduler n) t True)\<rparr>;
          dl = start + unat (max timeout_secs 1) * 10 ^ 9
      in if dl \<ge> 2 ^ 63 * 10 ^ 9 then None
         else drain_wait R clk env 0 dl t (first_queue queues) n)"

section \<open>Dead letters and compaction\<close>

definition rpc_purge_dlq :: "'db rocksdb \<Rightarrow> string \<Rightarrow> 'db node \<Rightarrow> ('db, string \<times> u64) reply" where
  "rpc_purge_dlq R t n =
     bind_reply (offload (purge_dlq R (nd_registry n) t) n) (\<lambda>purged n. (Inr (t, word_of_nat purged), n))"

definition rpc_replay_dlq :: "'db rocksdb \<Rightarrow> task codec \<Rightarrow> string \<Rightarrow> 'db node \<Rightarrow> ('db, string \<times> u64) reply" where
  "rpc_replay_dlq R C t n =
     bind_reply (offload (replay_dlq R C (nd_registry n) t) n) (\<lambda>replayed n. (Inr (t, word_of_nat replayed), n))"

definition rpc_compact_tenant ::
  "'db rocksdb \<Rightarrow> task codec \<Rightarrow> (nat \<Rightarrow> u64) \<Rightarrow> string \<Rightarrow> 'db node \<Rightarrow> ('db, string \<times> bool) reply" where
  "rpc_compact_tenant R C clk t n =
     bind_reply (offload (compact_tenant R C clk (nd_registry n) t) n) (\<lambda>_ n. (Inr (t, True), n))"

text \<open>The counters are those of the whole registry, whatever tenant is asked for.\<close>

definition compaction_counters_of :: "'db registry \<Rightarrow> compaction_counters" where
  "compaction_counters_of g = counters g"

definition rpc_get_compaction_stats :: "string \<Rightarrow> 'db node \<Rightarrow> string \<times> compaction_counters" where
  "rpc_get_compaction_stats t n = (t, compaction_counters_of (nd_registry n))"

end
