(* ===== verification/Rq_Main.thy ===== *)
theory Rq_Main
  imports Rq_Admin Rq_Paths
begin

text \<open>
  \<open>src/config.rs\<close>, \<open>src/ownership.rs\<close> and the parts of \<open>src/main.rs\<close> that decide something: the
  configuration read from the environment, the ownership map, the start of the process and the
  two HTTP handlers. Environment variables are a map; socket addresses are parsed by the standard
  library, whose result is the argument \<open>parse\<close>; \<open>mkdir\<close> is \<open>std::fs::create_dir_all\<close> on a file system of any
  type. The HTTP and gRPC servers, logging and signals are not modelled.
\<close>

section \<open>Configuration\<close>

datatype environment = Local | Production

record 'addr config =
  cf_rocksdb_path :: string
  cf_rocksdb_wal_path :: string
  cf_checkpoint_path :: string
  cf_grpc_addr :: 'addr
  cf_metrics_addr :: 'addr
  cf_s3_bucket :: "string option"
  cf_s3_endpoint :: "string option"
  cf_aws_region :: string
  cf_block_cache_bytes :: nat
  cf_env :: environment

definition env_or :: "(string \<rightharpoonup> string) \<Rightarrow> string \<Rightarrow> string \<Rightarrow> string" where
  "env_or vars name fallback = (case vars name of Some v \<Rightarrow> v | None \<Rightarrow> fallback)"

text \<open>\<open>None\<close>: \<open>expect\<close> panics on an address that does not parse.\<close>

definition config_from_env :: "(string \<rightharpoonup> 'addr) \<Rightarrow> (string \<rightharpoonup> string) \<Rightarrow> 'addr config option" where
  "config_from_env parse vars =
     (let rocksdb_path = env_or vars ''ROCKSDB_PATH'' ''./data/rocksqueue'';
          env = (if path_starts_with rocksdb_path ''/data'' then Production else Local)
      in case parse (env_or vars ''GRPC_ADDR'' ''0.0.0.0:50051'') of
           None \<Rightarrow> None
         | Some grpc_addr \<Rightarrow>
        (case parse (env_or vars ''METRICS_ADDR'' ''0.0.0.0:9090'') of
           None \<Rightarrow> None
         | Some metrics_addr \<Rightarrow> Some
             \<lparr>cf_rocksdb_path = rocksdb_path,
              cf_rocksdb_wal_path = env_or vars ''ROCKSDB_WAL_PATH'' ''./data/rocksqueue-wal'',
              cf_checkpoint_path = env_or vars ''CHECKPOINT_PATH'' ''./data/checkpoints'',
              cf_grpc_addr = grpc_addr, cf_metrics_addr = metrics_addr,
              cf_s3_bucket = vars ''S3_BUCKET'', cf_s3_endpoint = vars ''S3_ENDPOINT'',
              cf_aws_region = env_or vars ''AWS_REGION'' ''us-east-1'',
              cf_block_cache_bytes = (case env of Production \<Rightarrow> 4 * 1024 * 1024 * 1024 | Local \<Rightarrow> 256 * 1024 * 1024),
              cf_env = env\<rparr>))"

definition is_local_env :: "'addr config \<Rightarrow> bool" where
  "is_local_env cfg \<longleftrightarrow> cf_env cfg = Local"

text \<open>The directories are created for a local configuration only; the first error ends it.\<close>

fun create_dirs :: "(string \<Rightarrow> 'fs \<Rightarrow> string + 'fs) \<Rightarrow> string list \<Rightarrow> 'fs \<Rightarrow> string + 'fs" where
  "create_dirs mkdir [] fs = Inr fs"
| "create_dirs mkdir (d # ds) fs = (case mkdir d fs of Inl e \<Rightarrow> Inl e | Inr fs \<Rightarrow> create_dirs mkdir ds fs)"

definition ensure_dirs :: "(string \<Rightarrow> 'fs \<Rightarrow> string + 'fs) \<Rightarrow> 'addr config \<Rightarrow> 'fs \<Rightarrow> string + 'fs" where
  "ensure_dirs mkdir cfg fs =
     (if is_local_env cfg
      then create_dirs mkdir [cf_rocksdb_path cfg, cf_rocksdb_wal_path cfg, cf_checkpoint_path cfg] fs
      else Inr fs)"

section \<open>Ownership\<close>

type_synonym ownership = "string \<rightharpoonup> string"

definition own_assign :: "ownership \<Rightarrow> string \<Rightarrow> string \<Rightarrow> ownership" where
  "own_assign m t node = m(t \<mapsto> node)"

definition owner_of :: "ownership \<Rightarrow> string \<Rightarrow> string option" where
  "owner_of m t = m t"

definition is_local_owner :: "ownership \<Rightarrow> string \<Rightarrow> string \<Rightarrow> bool" where
  "is_local_owner m t local_id = (case m t of Some node \<Rightarrow> node = local_id | None \<Rightarrow> True)"

section \<open>Start of the process\<close>

definition db_config_of :: "'addr config \<Rightarrow> db_config" where
  "db_config_of cfg =
     \<lparr>sst_path = cf_rocksdb_path cfg, wal_path = cf_rocksdb_wal_path cfg,
      cfg_block_cache_bytes = cf_block_cache_bytes cfg, cfg_write_buffer_bytes = 64 * 1024 * 1024,
      cfg_max_write_buffers = 4\<rparr>"

definition node_new :: "'db registry \<Rightarrow> 'db node" where
  "node_new g = \<lparr>nd_registry = g, nd_scheduler = scheduler_new, nd_collector = collector_new,
     nd_throttles = Map.empty, nd_baselines = Map.empty\<rparr>"

fun register_restored ::
  "'db rocksdb \<Rightarrow> store_env \<Rightarrow> (string \<Rightarrow> nat) \<Rightarrow> (string \<Rightarrow> u64) \<Rightarrow> string list \<Rightarrow> 'db node \<Rightarrow> 'db node option" where
  "register_restored R E inow now [] n = Some n"
| "register_restored R E inow now (t # ts) n =
     (case get_policy (nd_registry n) t of
        None \<Rightarrow> register_restored R E inow now ts n
      | Some p \<Rightarrow>
          (case register_runtime R E (inow t) (now t) t (scheduling_policy t p) n of
             None \<Rightarrow> None
           | Some n \<Rightarrow> register_restored R E inow now ts n))"

text \<open>
  Steps 4 to 11 of \<open>main\<close>: open the database, wire the components, restore throttles, register
  the tenants found, warm the statistics. \<open>Inl\<close> is the error of \<open>open\<close>, \<open>Inr None\<close> a panic.
\<close>

definition start_node ::
  "'db rocksdb \<Rightarrow> namespace_policy codec \<Rightarrow> store_env \<Rightarrow> u64 \<Rightarrow> (nat \<Rightarrow> u64) \<Rightarrow> (string \<Rightarrow> nat) \<Rightarrow> (string \<Rightarrow> u64) \<Rightarrow> u64
   \<Rightarrow> string list \<Rightarrow> 'db \<Rightarrow> db_config \<Rightarrow> queue_error + 'db node option" where
  "start_node R PC E now_open clk inow now now_warm order disk cfg =
     (case open_registry R PC now_open disk cfg of
        Inl e \<Rightarrow> Inl e
      | Inr g \<Rightarrow> Inr
          (case restore_from_store R E clk 0 (node_new g) of
             Done n \<Rightarrow>
               (case register_restored R E inow now (list_tenants order (nd_registry n)) n of
                  None \<Rightarrow> None
                | Some n \<Rightarrow> map_option (\<lambda>c. n\<lparr>nd_collector := c\<rparr>)
                    (warm_from_store R E now_warm (db (nd_registry n)) (nd_collector n)))
           | _ \<Rightarrow> None))"

text \<open>
  \<open>main\<close> up to the point where it spawns its tasks, from the environment: \<open>None\<close> is a panic, \<open>Inl\<close>
  the error \<open>main\<close> returns. \<open>disk fs\<close> is the database found at the paths.
\<close>

definition main_start ::
  "(string \<rightharpoonup> 'addr) \<Rightarrow> (string \<rightharpoonup> string) \<Rightarrow> (string \<Rightarrow> 'fs \<Rightarrow> string + 'fs) \<Rightarrow> 'fs \<Rightarrow> ('fs \<Rightarrow> 'db)
   \<Rightarrow> 'db rocksdb \<Rightarrow> namespace_policy codec \<Rightarrow> store_env \<Rightarrow> u64 \<Rightarrow> (nat \<Rightarrow> u64) \<Rightarrow> (string \<Rightarrow> nat) \<Rightarrow> (string \<Rightarrow> u64) \<Rightarrow> u64
   \<Rightarrow> string list \<Rightarrow> (string + 'addr config \<times> 'db node) option" where
  "main_start parse vars mkdir fs disk R PC E now_open clk inow now now_warm order =
     (case config_from_env parse vars of
        None \<Rightarrow> None
      | Some cfg \<Rightarrow>
          (case ensure_dirs mkdir cfg fs of
             Inl e \<Rightarrow> Some (Inl e)
           | Inr fs \<Rightarrow>
               (case start_node R PC E now_open clk inow now now_warm order (disk fs) (db_config_of cfg) of
                  Inl e \<Rightarrow> Some (Inl (error_text e))
                | Inr None \<Rightarrow> None
                | Inr (Some n) \<Rightarrow> Some (Inr (cfg, n)))))"

text \<open>The queues the daemon and the reaper watch, and the ones the control plane reports on.\<close>

definition default_queues :: "string list" where
  "default_queues = [''default'']"

section \<open>HTTP handlers\<close>

definition ready_handler :: "'db rocksdb \<Rightarrow> 'db node \<Rightarrow> string" where
  "ready_handler R n = (case ping R (nd_registry n) of None \<Rightarrow> ''ok'' | Some e \<Rightarrow> ''error'')"

datatype http_status = OK | BAD_REQUEST | INTERNAL_SERVER_ERROR

record checkpoint_response =
  ck_ok :: bool
  ck_path :: string
  ck_error :: "string option"

text \<open>\<open>str::contains\<close>.\<close>

definition contains_str :: "string \<Rightarrow> string \<Rightarrow> bool" where
  "contains_str s w = list_ex (prefix w) (suffixes s)"

definition checkpoint_handler ::
  "'db rocksdb \<Rightarrow> string \<Rightarrow> string \<Rightarrow> 'db node \<Rightarrow> http_status \<times> checkpoint_response" where
  "checkpoint_handler R checkpoint_path path n =
     (case create_checkpoint R (nd_registry n) path checkpoint_path of
        None \<Rightarrow> (OK, \<lparr>ck_ok = True, ck_path = path, ck_error = None\<rparr>)
      | Some e \<Rightarrow>
          (if contains_str (error_text e) ''must'' then BAD_REQUEST else INTERNAL_SERVER_ERROR,
           \<lparr>ck_ok = False, ck_path = path, ck_error = Some (error_text e)\<rparr>))"

text \<open>The routes of the HTTP server; \<open>None\<close> for a request that matches none of them.\<close>

datatype http_method = GET | POST

datatype http_response = Text string | Checkpoint http_status checkpoint_response

definition http_route ::
  "'db rocksdb \<Rightarrow> string \<Rightarrow> http_method \<Rightarrow> string \<Rightarrow> string \<Rightarrow> 'db node \<Rightarrow> http_response option" where
  "http_route R checkpoint_path meth route param n =
     (if meth = GET \<and> route = ''/health'' then Some (Text ''ok'')
      else if meth = GET \<and> route = ''/ready'' then Some (Text (ready_handler R n))
      else if meth = GET \<and> route = ''/metrics'' then Some (Text (''# rocksqueue metrics'' @ [CHR 0x0A]))
      else if meth = POST \<and> route = ''/admin/checkpoint''
      then (case checkpoint_handler R checkpoint_path param n of (st, resp) \<Rightarrow> Some (Checkpoint st resp))
      else None)"

end
