(* ===== verification/Rq_Process.thy ===== *)
theory Rq_Process
  imports Rq_Main Rq_Reaper
begin

text \<open>
  What runs once \<open>main\<close> has started: the requests of the control plane that change state, the tasks
  \<open>main\<close> spawns for its default queue, and the worker pool of \<open>src/fair_worker.rs\<close>, which a program
  that embeds the library runs.
\<close>

section \<open>Requests\<close>

text \<open>
  One request of the control plane. While a producer is blocked at a full queue the others (\<open>env\<close>) leave
  the set of policies alone.
\<close>

inductive request_step ::
  "'db rocksdb \<Rightarrow> task codec \<Rightarrow> namespace_policy codec \<Rightarrow> store_env \<Rightarrow> hex_codec \<Rightarrow> 'db node \<Rightarrow> 'db node \<Rightarrow> bool"
  for R C PC E H where
  request_provision: "rpc_provision_tenant R PC E inow now t tier n = Some (r, n') \<Longrightarrow> request_step R C PC E H n n'"
| request_drop: "rpc_drop_tenant R t n = (r, n') \<Longrightarrow> request_step R C PC E H n n'"
| request_update_policy: "rpc_update_policy inow t p n = (r, n') \<Longrightarrow> request_step R C PC E H n n'"
| request_set_namespace_policy: "rpc_set_namespace_policy R PC req n = (r, n') \<Longrightarrow> request_step R C PC E H n n'"
| request_enqueue: "(\<And>i g. policies (env i g) = policies g) \<Longrightarrow>
    rpc_enqueue_task R C clk env now uuid t queue text n = Some (r, n') \<Longrightarrow> request_step R C PC E H n n'"
| request_enqueue_batch: "(\<And>i g. policies (env i g) = policies g) \<Longrightarrow>
    rpc_enqueue_batch R C clk env now uuid t queue texts n = Some (r, n') \<Longrightarrow> request_step R C PC E H n n'"
| request_dequeue: "rpc_dequeue_tasks R C H clk t queue limit n = (r, n') \<Longrightarrow> request_step R C PC E H n n'"
| request_ack: "rpc_ack_task R H t key n = (r, n') \<Longrightarrow> request_step R C PC E H n n'"
| request_ack_batch: "rpc_ack_batch R H t keys n = (r, n') \<Longrightarrow> request_step R C PC E H n n'"
| request_nack: "rpc_nack_task R C H now t key n = (r, n') \<Longrightarrow> request_step R C PC E H n n'"
| request_force_release: "rpc_force_release_throttle R inow t n = Some (r, n') \<Longrightarrow> request_step R C PC E H n n'"
| request_pause: "rpc_pause_tenant t n = (r, n') \<Longrightarrow> request_step R C PC E H n n'"
| request_resume: "rpc_resume_tenant t n = (r, n') \<Longrightarrow> request_step R C PC E H n n'"
| request_purge: "rpc_purge_dlq R t n = (r, n') \<Longrightarrow> request_step R C PC E H n n'"
| request_replay: "rpc_replay_dlq R C t n = (r, n') \<Longrightarrow> request_step R C PC E H n n'"
| request_compact: "rpc_compact_tenant R C clk t n = (r, n') \<Longrightarrow> request_step R C PC E H n n'"

inductive_cases request_stepE: "request_step R C PC E H n n'"

section \<open>The tasks of \<open>main\<close>\<close>

text \<open>
  The statistics daemon and the reaper over the default queues, the service behind the gRPC server,
  which a drain shares with all the others while it waits. The HTTP handlers change nothing. (The
  daemon counts its cycles to flush every tenth time; here any cycle may be the tenth.)
\<close>

inductive main_step ::
  "'db rocksdb \<Rightarrow> task codec \<Rightarrow> namespace_policy codec \<Rightarrow> store_env \<Rightarrow> hex_codec \<Rightarrow> 'db node \<Rightarrow> 'db node \<Rightarrow> bool"
  for R C PC E H where
  main_daemon: "daemon_cycle R E throttle_config_default K default_queues (cycle, n) = (cycle', Done n') \<Longrightarrow>
     main_step R C PC E H n n'"
| main_reaper: "main_step R C PC E H n (n\<lparr>nd_registry := reaper_tick R C clk order default_queues (nd_registry n)\<rparr>)"
| main_request: "request_step R C PC E H n n' \<Longrightarrow> main_step R C PC E H n n'"
| main_drain: "(\<And>i m. (main_step R C PC E H)\<^sup>*\<^sup>* m (env i m)) \<Longrightarrow>
     rpc_drain_tenant R clk env start default_queues t timeout n = Some (r, n') \<Longrightarrow> main_step R C PC E H n n'"



inductive_cases main_stepE: "main_step R C PC E H n n'"

section \<open>The worker pool\<close>

record fair_worker_pool =
  fp_queues :: "string list"
  fp_concurrency :: nat
  fp_tick_ms :: u64
  fp_total_slots :: nat
  fp_handler :: handler

text \<open>What a worker observes in one tick: clocks and the order of the tenants.\<close>

record tick_env =
  tk_latency :: "bytes \<Rightarrow> nat"
  tk_now :: "bytes \<Rightarrow> u64"
  tk_clk :: "string \<Rightarrow> string \<Rightarrow> nat \<Rightarrow> u64"
  tk_order :: "string list"
  tk_created :: "string \<Rightarrow> nat"
  tk_active :: "string \<Rightarrow> nat"

text \<open>The loop over the ticks of the timer so far; \<open>tk_created\<close>, \<open>tk_active\<close> are the clocks of the allocation.\<close>

fun worker_loop :: "'db rocksdb \<Rightarrow> task codec \<Rightarrow> fair_worker_pool \<Rightarrow> tick_env list \<Rightarrow> 'db node \<Rightarrow> 'db node" where
  "worker_loop R C pool [] n = n"
| "worker_loop R C pool (k # ks) n =
     worker_loop R C pool ks
       (worker_tick R C (fp_handler pool) (tk_latency k) (tk_now k) (tk_clk k) (tk_order k) (tk_created k) (tk_active k)
          (fp_queues pool) (fp_total_slots pool) (fp_concurrency pool) n)"

text \<open>
  The workers are all alike: the pool does the ticks of its workers in the order in which they
  happen, and a pool without workers nothing.
\<close>

definition pool_run :: "'db rocksdb \<Rightarrow> task codec \<Rightarrow> fair_worker_pool \<Rightarrow> tick_env list \<Rightarrow> 'db node \<Rightarrow> 'db node" where
  "pool_run R C pool ticks n = (if fp_concurrency pool = 0 then n else worker_loop R C pool ticks n)"

end
