(* ===== verification/Rq_Store_Facts.thy ===== *)
theory Rq_Store_Facts
  imports Rq_Throttle Rq_Lifecycle
begin

text \<open>
  The statistics store as three tables in one column family. \<open>keyspace p C m T\<close> states that the
  keys of \<open>m\<close> with the prefix \<open>p\<close> hold exactly the records of the table \<open>T\<close>, encoded by \<open>C\<close>; the
  operations of the store are updates of the tables and leave the other keys alone, among them
  the persisted tenants.
\<close>

section \<open>Tables in a column family\<close>

definition keyspace :: "string \<Rightarrow> 'a codec \<Rightarrow> kv \<Rightarrow> (string \<rightharpoonup> 'a) \<Rightarrow> bool" where
  "keyspace p C m T \<longleftrightarrow>
     (\<forall>k v. prefix (as_bytes p) k \<longrightarrow> m k = Some v \<longrightarrow>
        (\<exists>t r. k = as_bytes (p @ t) \<and> T t = Some r \<and> bc_serialize C r = Inr v)) \<and>
     (\<forall>t r. T t = Some r \<longrightarrow> (\<exists>v. bc_serialize C r = Inr v \<and> m (as_bytes (p @ t)) = Some v))"

lemma keyspace_get: "keyspace p C m T \<Longrightarrow> prefix (as_bytes p) k \<Longrightarrow> m k = Some v \<Longrightarrow>
   \<exists>t r. k = as_bytes (p @ t) \<and> T t = Some r \<and> bc_serialize C r = Inr v"
  by (simp add: keyspace_def)

lemma keyspace_has: "keyspace p C m T \<Longrightarrow> T t = Some r \<Longrightarrow> \<exists>v. bc_serialize C r = Inr v \<and> m (as_bytes (p @ t)) = Some v"
  by (simp add: keyspace_def)

lemma keyspace_put:
  assumes "keyspace p C m T" "bc_serialize C r = Inr v"
  shows "keyspace p C (m(as_bytes (p @ t) \<mapsto> v)) (T(t \<mapsto> r))"
  unfolding keyspace_def
proof (intro conjI allI impI)
  fix k w
  assume k: "prefix (as_bytes p) k" "(m(as_bytes (p @ t) \<mapsto> v)) k = Some w"
  show "\<exists>u r'. k = as_bytes (p @ u) \<and> (T(t \<mapsto> r)) u = Some r' \<and> bc_serialize C r' = Inr w"
  proof (cases "k = as_bytes (p @ t)")
    case True
    with k assms(2) show ?thesis by (intro exI [of _ t]) auto
  next
    case False
    with k keyspace_get [OF assms(1) k(1)] obtain u r' where "k = as_bytes (p @ u)" "T u = Some r'" "bc_serialize C r' = Inr w"
      by auto
    with False show ?thesis by (intro exI [of _ u] exI [of _ r']) auto
  qed
next
  fix u r' assume "(T(t \<mapsto> r)) u = Some r'"
  with keyspace_has [OF assms(1), of u] assms(2)
  show "\<exists>w. bc_serialize C r' = Inr w \<and> (m(as_bytes (p @ t) \<mapsto> v)) (as_bytes (p @ u)) = Some w"
    by (auto simp del: as_bytes_append split: if_splits)
qed

lemma keyspace_delete:
  assumes "keyspace p C m T"
  shows "keyspace p C (m(as_bytes (p @ t) := None)) (T(t := None))"
  unfolding keyspace_def
proof (intro conjI allI impI)
  fix k w
  assume "prefix (as_bytes p) k" "(m(as_bytes (p @ t) := None)) k = Some w"
  with keyspace_get [OF assms, of k w] show "\<exists>u r. k = as_bytes (p @ u) \<and> (T(t := None)) u = Some r \<and> bc_serialize C r = Inr w"
    by (auto simp del: as_bytes_append split: if_splits)
next
  fix u r assume "(T(t := None)) u = Some r"
  with keyspace_has [OF assms, of u r]
  show "\<exists>v. bc_serialize C r = Inr v \<and> (m(as_bytes (p @ t) := None)) (as_bytes (p @ u)) = Some v"
    by (auto simp del: as_bytes_append split: if_splits)
qed

lemma keyspace_other: "keyspace p C m T \<Longrightarrow> \<not> prefix (as_bytes p) k \<Longrightarrow> keyspace p C (m(k := x)) T"
proof -
  assume ks: "keyspace p C m T" and k: "\<not> prefix (as_bytes p) k"
  have "as_bytes (p @ t) \<noteq> k" for t using k by (auto simp: prefix_def)
  then show ?thesis using ks k by (auto simp: keyspace_def simp del: as_bytes_append)
qed

lemma load_records_takeWhile:
  "load_records C p (map Inr xs) = load_records C p (map Inr (takeWhile (\<lambda>(k, v). prefix p k) xs))"
  by (induction xs) (auto split: sum.splits)

lemma load_records_all:
  "\<forall>(k, v) \<in> set xs. prefix p k \<and> bc_deserialize C v = Inr (f k) \<Longrightarrow> load_records C p (map Inr xs) = map (f \<circ> fst) xs"
  by (induction xs) auto

lemma load_keyspace:
  assumes codec: "\<And>x b. bc_serialize C x = Inr b \<Longrightarrow> bc_deserialize C b = Inr x"
    and ks: "keyspace p C m T" and fin: "finite (dom m)"
  defines "rs \<equiv> load_records C (as_bytes p) (map Inr (kv_list (m |` {k. as_bytes p \<le> k})))"
  shows "set rs = ran T" "length rs = card (dom T)"
proof -
  let ?xs = "kv_list (m |` {k. prefix (as_bytes p) k})"
  let ?f = "\<lambda>k. the (T (of_bytes (drop (length p) k)))"
  have fin': "finite (dom (m |` {k. prefix (as_bytes p) k}))" using fin by simp
  have mem: "(k, v) \<in> set ?xs \<longleftrightarrow> prefix (as_bytes p) k \<and> m k = Some v" for k v
    unfolding set_kv_list [OF fin'] by (simp add: restrict_map_def)
  have key: "of_bytes (drop (length p) (as_bytes (p @ t))) = t" for t by simp
  have "\<forall>(k, v) \<in> set ?xs. prefix (as_bytes p) k \<and> bc_deserialize C v = Inr (?f k)"
  proof (clarify, intro conjI)
    fix k v assume "(k, v) \<in> set ?xs"
    then have k: "prefix (as_bytes p) k" "m k = Some v" using mem by auto
    then show "prefix (as_bytes p) k" by simp
    from keyspace_get [OF ks k] obtain t r where "k = as_bytes (p @ t)" "T t = Some r" "bc_serialize C r = Inr v" by blast
    then show "bc_deserialize C v = Inr (?f k)" using codec key by simp
  qed
  then have rs: "rs = map (?f \<circ> fst) ?xs"
    unfolding rs_def by (subst load_records_takeWhile, subst takeWhile_kv_prefix [OF fin]) (rule load_records_all)
  have dom: "fst ` set ?xs = (\<lambda>t. as_bytes (p @ t)) ` dom T"
  proof (intro equalityI subsetI)
    fix k assume "k \<in> fst ` set ?xs"
    then obtain v where "prefix (as_bytes p) k" "m k = Some v" using mem by auto
    from keyspace_get [OF ks this] show "k \<in> (\<lambda>t. as_bytes (p @ t)) ` dom T" by blast
  next
    fix k assume "k \<in> (\<lambda>t. as_bytes (p @ t)) ` dom T"
    then obtain t r where "k = as_bytes (p @ t)" "T t = Some r" by auto
    with keyspace_has [OF ks] mem show "k \<in> fst ` set ?xs" by (force simp: image_iff)
  qed
  have "set rs = ?f ` fst ` set ?xs" by (simp add: rs image_comp)
  also have "\<dots> = (\<lambda>t. the (T t)) ` dom T" by (simp add: dom image_image)
  also have "\<dots> = ran T" by (force simp: ran_def image_iff)
  finally show "set rs = ran T" .
  have "length rs = card (fst ` set ?xs)"
    using distinct_card [OF distinct_kv_list [of "m |` {k. prefix (as_bytes p) k}"]] by (simp add: rs)
  also have "\<dots> = card (dom T)"
    unfolding dom by (rule card_image) (simp add: inj_on_def)
  finally show "length rs = card (dom T)" .
qed

section \<open>The three tables and the tenants\<close>

text \<open>No key of one kind has the prefix of another.\<close>

lemma prefixes_apart:
  "\<not> prefix (as_bytes ''throttle:'') (stats_key t)" "\<not> prefix (as_bytes ''throttle:'') (baseline_key t)"
  "\<not> prefix (as_bytes ''throttle:'') (meta_key t)" "\<not> prefix (as_bytes ''stats:'') (throttle_key t)"
  "\<not> prefix (as_bytes ''stats:'') (baseline_key t)" "\<not> prefix (as_bytes ''stats:'') (meta_key t)"
  "\<not> prefix (as_bytes ''baseline:'') (throttle_key t)" "\<not> prefix (as_bytes ''baseline:'') (stats_key t)"
  "\<not> prefix (as_bytes ''baseline:'') (meta_key t)" "\<not> prefix TENANT_META_PREFIX (throttle_key t)"
  "\<not> prefix TENANT_META_PREFIX (stats_key t)" "\<not> prefix TENANT_META_PREFIX (baseline_key t)"
  by (simp_all add: stats_key_def throttle_key_def baseline_key_def meta_key_def TENANT_META_PREFIX_def as_bytes_def)

text \<open>What the system column family holds: the tables of the store and other keys.\<close>

definition tables ::
  "store_env \<Rightarrow> kv \<Rightarrow> (string \<rightharpoonup> persisted_stats) \<Rightarrow> (string \<rightharpoonup> persisted_throttle) \<Rightarrow> (string \<rightharpoonup> baseline_record) \<Rightarrow> bool" where
  "tables E m TS TT TB \<longleftrightarrow> keyspace ''stats:'' (stats_codec E) m TS \<and> keyspace ''throttle:'' (throttle_codec E) m TT \<and>
     keyspace ''baseline:'' (baseline_codec E) m TB"

lemma tables_put_throttle:
  "tables E m TS TT TB \<Longrightarrow> bc_serialize (throttle_codec E) r = Inr v \<Longrightarrow>
   tables E (m(throttle_key t \<mapsto> v)) TS (TT(t \<mapsto> r)) TB"
  using keyspace_put [of "''throttle:''" "throttle_codec E" m TT r v t] prefixes_apart
  by (auto simp: tables_def throttle_key_def intro: keyspace_other)

lemma tables_put_stats:
  "tables E m TS TT TB \<Longrightarrow> bc_serialize (stats_codec E) r = Inr v \<Longrightarrow>
   tables E (m(stats_key t \<mapsto> v)) (TS(t \<mapsto> r)) TT TB"
  using keyspace_put [of "''stats:''" "stats_codec E" m TS r v t] prefixes_apart
  by (auto simp: tables_def stats_key_def intro: keyspace_other)

lemma tables_put_baseline:
  "tables E m TS TT TB \<Longrightarrow> bc_serialize (baseline_codec E) r = Inr v \<Longrightarrow>
   tables E (m(baseline_key t \<mapsto> v)) TS TT (TB(t \<mapsto> r))"
  using keyspace_put [of "''baseline:''" "baseline_codec E" m TB r v t] prefixes_apart
  by (auto simp: tables_def baseline_key_def intro: keyspace_other)

lemma tables_delete:
  "tables E m TS TT TB \<Longrightarrow> tables E (m(throttle_key t := None)) TS (TT(t := None)) TB"
  "tables E m TS TT TB \<Longrightarrow> tables E (m(baseline_key t := None)) TS TT (TB(t := None))"
  using keyspace_delete [of "''throttle:''" "throttle_codec E" m TT t] keyspace_delete [of "''baseline:''" "baseline_codec E" m TB t] prefixes_apart
  by (auto simp: tables_def throttle_key_def baseline_key_def intro: keyspace_other)

section \<open>The operations\<close>

text \<open>The view of a database holds the three tables in its system column family.\<close>

definition store_holds ::
  "('db \<Rightarrow> string \<Rightarrow> kv option) \<Rightarrow> store_env \<Rightarrow> 'db \<Rightarrow> (string \<rightharpoonup> persisted_stats) \<Rightarrow> (string \<rightharpoonup> persisted_throttle)
   \<Rightarrow> (string \<rightharpoonup> baseline_record) \<Rightarrow> bool" where
  "store_holds view E d TS TT TB \<longleftrightarrow> (\<exists>m. view d CF_SYSTEM = Some m \<and> tables E m TS TT TB)"

text \<open>A change of the database that touches one key of the system column family only.\<close>

definition system_update :: "('db \<Rightarrow> string \<Rightarrow> kv option) \<Rightarrow> 'db \<Rightarrow> 'db \<Rightarrow> bytes \<Rightarrow> bytes option \<Rightarrow> bool" where
  "system_update view d d' k v \<longleftrightarrow> view d' = (view d)(CF_SYSTEM := map_option (\<lambda>m. m(k := v)) (view d CF_SYSTEM))"

locale stats_env = reliable_store R view + th: bincode "throttle_codec E" + sc: bincode "stats_codec E"
    + bc: bincode "baseline_codec E"
  for R :: "'db rocksdb" and view and E :: store_env

context stats_env
begin

abbreviation holds where
  "holds \<equiv> store_holds view E"

abbreviation sys_upd where
  "sys_upd \<equiv> system_update view"

lemma store_put_effect:
  assumes "view d CF_SYSTEM = Some m"
  shows "sys_upd d (store_put R d k (Inr v)) k (Some v)"
  using put_total [of d CF_SYSTEM sync_write_opts k v] put_view [of d sync_write_opts CF_SYSTEM k v] assms
  by (auto simp: store_put_def system_update_def)

lemma store_delete_effect:
  assumes "view d CF_SYSTEM = Some m"
  shows "sys_upd d (store_delete R d k) k None"
  using delete_total [of d CF_SYSTEM sync_write_opts k] delete_view [of d sync_write_opts CF_SYSTEM k] assms
  by (auto simp: store_delete_def system_update_def)

lemma holds_handle: "holds d TS TT TB \<Longrightarrow> cf_handle R d CF_SYSTEM"
  by (auto simp: store_holds_def cf_handle_view)

lemma persist_throttle_effect:
  assumes "holds d TS TT TB"
  obtains d' where "persist_throttle R E d r = Some d'" "holds d' TS (TT(pt_tenant_id r \<mapsto> r)) TB"
    "sys_upd d d' (throttle_key (pt_tenant_id r)) (Some (th.enc r))"
proof -
  obtain m where m: "view d CF_SYSTEM = Some m" "tables E m TS TT TB" using assms by (auto simp: store_holds_def)
  let ?d = "store_put R d (throttle_key (pt_tenant_id r)) (Inr (th.enc r))"
  have "persist_throttle R E d r = Some ?d" using holds_handle [OF assms] by (simp add: persist_throttle_def)
  moreover note u = store_put_effect [OF m(1), of "throttle_key (pt_tenant_id r)" "th.enc r"]
  moreover have "holds ?d TS (TT(pt_tenant_id r \<mapsto> r)) TB"
    using u m tables_put_throttle [OF m(2), of r "th.enc r"] by (simp add: store_holds_def system_update_def)
  ultimately show thesis by (intro that)
qed

lemma clear_throttle_effect:
  assumes "holds d TS TT TB"
  obtains d' where "clear_throttle R d t = Some d'" "holds d' TS (TT(t := None)) TB" "sys_upd d d' (throttle_key t) None"
proof -
  obtain m where m: "view d CF_SYSTEM = Some m" "tables E m TS TT TB" using assms by (auto simp: store_holds_def)
  let ?d = "store_delete R d (throttle_key t)"
  have "clear_throttle R d t = Some ?d" using holds_handle [OF assms] by (simp add: clear_throttle_def)
  moreover note u = store_delete_effect [OF m(1), of "throttle_key t"]
  moreover have "holds ?d TS (TT(t := None)) TB"
    using u m tables_delete(1) [OF m(2)] by (simp add: store_holds_def system_update_def)
  ultimately show thesis by (intro that)
qed

lemma load_throttles_effect:
  assumes "holds d TS TT TB"
  obtains rs where "load_all_throttles R E d = Some rs" "set rs = ran TT" "length rs = card (dom TT)"
proof -
  obtain m where m: "view d CF_SYSTEM = Some m" "keyspace ''throttle:'' (throttle_codec E) m TT"
    using assms by (auto simp: store_holds_def tables_def)
  from load_keyspace [OF th.roundtrip m(2) view_finite [OF m(1)]] from_eq [OF m(1)] holds_handle [OF assms]
  show thesis by (intro that) (auto simp: load_all_throttles_def)
qed

lemma load_baseline_effect:
  assumes "holds d TS TT TB"
  shows "load_baseline R E d t = Some (TB t)"
proof -
  obtain m where m: "view d CF_SYSTEM = Some m" "keyspace ''baseline:'' (baseline_codec E) m TB"
    using assms by (auto simp: store_holds_def tables_def)
  have get: "get_cf R d CF_SYSTEM (baseline_key t) = Inr (m (baseline_key t))" using get_eq [OF m(1)] .
  show ?thesis
  proof (cases "m (baseline_key t)")
    case None
    then have "TB t = None" using keyspace_has [OF m(2), of t] by (cases "TB t") (auto simp: baseline_key_def)
    with None get holds_handle [OF assms] show ?thesis by (simp add: load_baseline_def)
  next
    case (Some v)
    have "prefix (as_bytes ''baseline:'') (baseline_key t)" by (simp add: baseline_key_def as_bytes_def)
    from keyspace_get [OF m(2) this Some] obtain r where "TB t = Some r" "bc_serialize (baseline_codec E) r = Inr v"
      by (auto simp: baseline_key_def)
    then have "bc_deserialize (baseline_codec E) v = Inr r" using bc.roundtrip by blast
    with Some get \<open>TB t = Some r\<close> holds_handle [OF assms] show ?thesis by (simp add: load_baseline_def)
  qed
qed

lemma flush_stats_effect:
  "holds d TS TT TB \<Longrightarrow> \<exists>d'. flush_stats R E now d ss = Some d' \<and>
     holds d' (fold (\<lambda>s T. T(st_tenant_id s \<mapsto> stats_record now s)) ss TS) TT TB"
proof (induction ss arbitrary: d TS)
  case Nil
  then show ?case using holds_handle by (auto simp: flush_stats_def)
next
  case (Cons s ss)
  obtain m where m: "view d CF_SYSTEM = Some m" "tables E m TS TT TB" using Cons.prems by (auto simp: store_holds_def)
  let ?d = "store_put R d (stats_key (st_tenant_id s)) (bc_serialize (stats_codec E) (stats_record now s))"
  have "holds ?d (TS(st_tenant_id s \<mapsto> stats_record now s)) TT TB"
    using store_put_effect [OF m(1)] m tables_put_stats [OF m(2) sc.serialize_enc] by (simp add: store_holds_def system_update_def)
  from Cons.IH [OF this] holds_handle [OF Cons.prems] holds_handle [OF this] show ?case
    by (auto simp: flush_stats_def)
qed

lemma flush_baselines_effect:
  "holds d TS TT TB \<Longrightarrow> \<exists>d'. flush_baselines R E now d bs = Some d' \<and>
     holds d' TS TT (fold (\<lambda>b T. T(bl_tenant_id b \<mapsto> baseline_record_of now b)) bs TB)"
proof (induction bs arbitrary: d TB)
  case Nil
  then show ?case using holds_handle by (auto simp: flush_baselines_def)
next
  case (Cons b bs)
  obtain m where m: "view d CF_SYSTEM = Some m" "tables E m TS TT TB" using Cons.prems by (auto simp: store_holds_def)
  let ?d = "store_put R d (baseline_key (bl_tenant_id b)) (bc_serialize (baseline_codec E) (baseline_record_of now b))"
  have "holds ?d TS TT (TB(bl_tenant_id b \<mapsto> baseline_record_of now b))"
    using store_put_effect [OF m(1)] m tables_put_baseline [OF m(2) bc.serialize_enc] by (simp add: store_holds_def system_update_def)
  from Cons.IH [OF this] holds_handle [OF Cons.prems] holds_handle [OF this] show ?case
    by (auto simp: flush_baselines_def)
qed

lemma clear_baseline_effect:
  assumes "holds d TS TT TB"
  obtains d' where "clear_baseline R d t = Some d'" "holds d' TS TT (TB(t := None))" "sys_upd d d' (baseline_key t) None"
proof -
  obtain m where m: "view d CF_SYSTEM = Some m" "tables E m TS TT TB" using assms by (auto simp: store_holds_def)
  let ?d = "store_delete R d (baseline_key t)"
  have "clear_baseline R d t = Some ?d" using holds_handle [OF assms] by (simp add: clear_baseline_def)
  moreover note u = store_delete_effect [OF m(1), of "baseline_key t"]
  moreover have "holds ?d TS TT (TB(t := None))"
    using u m tables_delete(2) [OF m(2)] by (simp add: store_holds_def system_update_def)
  ultimately show thesis by (intro that)
qed

lemma load_stats_effect:
  assumes "holds d TS TT TB"
  obtains rs where "load_all_stats R E now d = Some (map (decay_stats E now) rs)" "set rs = ran TS" "length rs = card (dom TS)"
proof -
  obtain m where m: "view d CF_SYSTEM = Some m" "keyspace ''stats:'' (stats_codec E) m TS"
    using assms by (auto simp: store_holds_def tables_def)
  from load_keyspace [OF sc.roundtrip m(2) view_finite [OF m(1)]] from_eq [OF m(1)] holds_handle [OF assms]
  show thesis by (intro that) (auto simp: load_all_stats_def)
qed

end

section \<open>Tenants and the store\<close>

text \<open>A write of the store leaves what is known of the tenants on disk as it was.\<close>

context registry_env
begin

lemma persisted_system_update:
  assumes "persisted (view d) M" "system_update view d d' k v" "\<not> prefix TENANT_META_PREFIX k"
  shows "persisted (view d') M"
proof -
  obtain S where S: "view d CF_SYSTEM = Some S" "meta_of M S" and dom: "dom (view d) = {''default'', CF_SYSTEM} \<union> tenant_cfs M"
    using assms(1) by (auto simp: persisted_def)
  have "meta_key t \<noteq> k" for t using assms(3) prefix_meta_key by blast
  with S(2) assms(3) have "meta_of M (S(k := v))" by (auto simp: meta_of_def)
  moreover have "dom (view d') = dom (view d)" using assms(2) S(1) by (auto simp: system_update_def)
  ultimately show ?thesis using assms(2) S(1) dom by (auto simp: persisted_def system_update_def)
qed

end

end
