(* ===== verification/Rq_Throttle_Facts.thy ===== *)
theory Rq_Throttle_Facts
  imports Rq_Store_Facts Rq_Scheduler_Facts
begin

text \<open>
  Facts on the throttle: the rate it applies, what throttling and releasing do to the policy in
  force, to the persisted record and to the state, and when an evaluation acts.
\<close>

section \<open>Rates\<close>

lemma quarter_exact: "n \<le> 2 ^ 53 \<Longrightarrow> f64_mul (f64_of_nat n) (Fin (1 / 4)) = Fin (of_nat n / 4)"
proof -
  assume n: "n \<le> 2 ^ 53"
  have "f64_bound (of_int (int n) * 2 powi (- 2))" by (rule bound_dyadic) (use n in auto)
  then have "f64_bound (of_nat n / 4)" by (simp add: power_int_def power_divide)
  with n show ?thesis by (simp add: f64_of_nat_exact f64_of_rat_exact)
qed

lemma floor_quarter: "nat \<lfloor>of_nat n / (4 :: rat)\<rfloor> = n div 4"
  by (metis floor_divide_of_nat_eq nat_int of_nat_numeral)

theorem throttled_rate_default: "unat (throttled_rate throttle_config_default r) = max (unat r div 4) 5"
proof -
  have r: "unat r < 2 ^ 32" by (rule unat_u32_less)
  have "f64_mul (f64_of_u32 r) (Fin (1 / 4)) = Fin (of_nat (unat r) / 4)"
    unfolding f64_of_u32_def by (rule quarter_exact) (use r in simp)
  then have "f64_to_u32 (f64_mul (f64_of_u32 r) (Fin (1 / 4))) = word_of_nat (unat r div 4)"
    using r by (simp add: f64_to_u32_def floor_quarter min_def del: of_nat_unat)
  moreover have "unat (word_of_nat (unat r div 4) :: u32) = unat r div 4"
    using r by (simp add: unat_of_nat)
  ultimately show ?thesis
    by (simp add: throttled_rate_def throttle_config_default_def max_def word_le_nat_alt)
qed

lemma throttled_inflight_default:
  "n \<le> 2 ^ 53 \<Longrightarrow> f64_to_usize (f64_mul (f64_of_nat n) (tc_reduction_factor throttle_config_default)) = n div 4"
  by (simp add: throttle_config_default_def quarter_exact f64_to_usize_def floor_quarter min_def)

section \<open>Policies in force\<close>

lemma sched_policy_update:
  "sched_policy (sched_update_policy inow s p) t = (if t = tp_tenant_id p then Some p else sched_policy s t)"
  by (auto simp: sched_policy_def sched_update_policy_def tenant_state_new_def split: option.splits)

lemma sched_policy_id: "keyed (sc_tenants s) \<Longrightarrow> sched_policy s t = Some p \<Longrightarrow> tp_tenant_id p = t"
  by (auto simp: keyed_def sched_policy_def)

lemma throttled_policy_id [simp]: "tp_tenant_id (throttled_policy cfg p) = tp_tenant_id p"
  by (simp add: throttled_policy_def Let_def)

definition throttle_record :: "throttle_config \<Rightarrow> string \<Rightarrow> string \<Rightarrow> u64 \<Rightarrow> u32 \<Rightarrow> persisted_throttle" where
  "throttle_record cfg t reason now rate =
     \<lparr>pt_tenant_id = t, pt_throttled = True, pt_reason = reason, pt_original_rate = rate,
      pt_applied_rate = throttled_rate cfg rate, pt_triggered_at_ms = now,
      pt_cooldown_until_ms = now + tc_cooldown_secs cfg * 1000\<rparr>"

definition state_of_record :: "persisted_throttle \<Rightarrow> throttle_state" where
  "state_of_record r =
     \<lparr>th_tenant_id = pt_tenant_id r, th_throttled = pt_throttled r, th_reason = pt_reason r,
      th_original_rate = pt_original_rate r, th_applied_rate = pt_applied_rate r,
      th_triggered_at_ms = pt_triggered_at_ms r, th_cooldown_until_ms = pt_cooldown_until_ms r\<rparr>"

text \<open>The policy a release leaves.\<close>

definition released_policy :: "u32 \<Rightarrow> tenant_policy \<Rightarrow> tenant_policy" where
  "released_policy rate p = p\<lparr>tp_rate_per_sec := rate, tp_burst_tokens := rate\<rparr>"

section \<open>Throttling and releasing\<close>

context stats_env
begin

abbreviation node_holds where
  "node_holds n \<equiv> holds (db (nd_registry n))"

lemma on_store_Done:
  "f (db (nd_registry n)) = Some d \<Longrightarrow> on_store f n = Done (n\<lparr>nd_registry := (nd_registry n)\<lparr>db := d\<rparr>\<rparr>)"
  by (simp add: on_store_def)

lemma apply_throttle_effect:
  assumes "node_holds n TS TT TB" "keyed (sc_tenants (nd_scheduler n))" "sched_policy (nd_scheduler n) t = Some p"
  obtains d where
    "apply_throttle R E cfg inow t reason now n = Done (n\<lparr>nd_registry := (nd_registry n)\<lparr>db := d\<rparr>,
       nd_scheduler := sched_update_policy inow (nd_scheduler n) (throttled_policy cfg p),
       nd_throttles := (nd_throttles n)(t \<mapsto> state_of_record (throttle_record cfg t reason now (tp_rate_per_sec p)))\<rparr>)"
    "holds d TS (TT(t \<mapsto> throttle_record cfg t reason now (tp_rate_per_sec p))) TB"
    "sys_upd (db (nd_registry n)) d (throttle_key t) (Some (th.enc (throttle_record cfg t reason now (tp_rate_per_sec p))))"
proof -
  let ?r = "throttle_record cfg t reason now (tp_rate_per_sec p)"
  obtain d where d: "persist_throttle R E (db (nd_registry n)) ?r = Some d"
    "holds d TS (TT(pt_tenant_id ?r \<mapsto> ?r)) TB" "sys_upd (db (nd_registry n)) d (throttle_key (pt_tenant_id ?r)) (Some (th.enc ?r))"
    using persist_throttle_effect [OF assms(1), of ?r] by blast
  have id: "pt_tenant_id ?r = t" by (simp add: throttle_record_def)
  show thesis
  proof (rule that [of d])
    show "apply_throttle R E cfg inow t reason now n = Done (n\<lparr>nd_registry := (nd_registry n)\<lparr>db := d\<rparr>,
       nd_scheduler := sched_update_policy inow (nd_scheduler n) (throttled_policy cfg p),
       nd_throttles := (nd_throttles n)(t \<mapsto> state_of_record ?r)\<rparr>)"
      using assms(3) d(1) by (simp add: apply_throttle_def Let_def on_store_def throttle_record_def state_of_record_def)
  qed (use d(2,3) id in simp_all)
qed

lemma release_effect:
  assumes "node_holds n TS TT TB"
  obtains d where
    "release_throttle R inow guard t rate n =
       (let n' = n\<lparr>nd_registry := (nd_registry n)\<lparr>db := d\<rparr>,
          nd_scheduler := (case sched_policy (nd_scheduler n) t of None \<Rightarrow> nd_scheduler n
             | Some p \<Rightarrow> sched_update_policy inow (nd_scheduler n) (released_policy rate p))\<rparr>
        in if guard then Blocked n' else Done (n'\<lparr>nd_throttles := (nd_throttles n)(t := None)\<rparr>))"
    "holds d TS (TT(t := None)) TB" "sys_upd (db (nd_registry n)) d (throttle_key t) None"
proof -
  obtain d where d: "clear_throttle R (db (nd_registry n)) t = Some d" "holds d TS (TT(t := None)) TB"
    "sys_upd (db (nd_registry n)) d (throttle_key t) None"
    using clear_throttle_effect [OF assms] by blast
  show thesis
  proof (rule that [of d])
    show "release_throttle R inow guard t rate n =
       (let n' = n\<lparr>nd_registry := (nd_registry n)\<lparr>db := d\<rparr>,
          nd_scheduler := (case sched_policy (nd_scheduler n) t of None \<Rightarrow> nd_scheduler n
             | Some p \<Rightarrow> sched_update_policy inow (nd_scheduler n) (released_policy rate p))\<rparr>
        in if guard then Blocked n' else Done (n'\<lparr>nd_throttles := (nd_throttles n)(t := None)\<rparr>))"
      using d(1) by (cases "sched_policy (nd_scheduler n) t")
        (simp_all add: release_throttle_def Let_def on_store_def released_policy_def)
  qed (use d in simp_all)
qed

text \<open>A throttle that is released by hand: the rate is back, record and state are gone.\<close>

lemma throttle_then_release:
  assumes "node_holds n TS TT TB" "keyed (sc_tenants (nd_scheduler n))" "sched_policy (nd_scheduler n) t = Some p"
  obtains n1 n2 where
    "apply_throttle R E cfg inow t reason now n = Done n1" "sched_policy (nd_scheduler n1) t = Some (throttled_policy cfg p)"
    "node_holds n1 TS (TT(t \<mapsto> throttle_record cfg t reason now (tp_rate_per_sec p))) TB"
    "nd_throttles n1 t = Some (state_of_record (throttle_record cfg t reason now (tp_rate_per_sec p)))"
    "force_release R inow' t n1 = Done n2"
    "sched_policy (nd_scheduler n2) t = Some (released_policy (tp_rate_per_sec p) (throttled_policy cfg p))"
    "node_holds n2 TS (TT(t := None)) TB" "nd_throttles n2 = (nd_throttles n)(t := None)"
proof -
  have id: "tp_tenant_id p = t" using sched_policy_id assms(2,3) by blast
  let ?r = "throttle_record cfg t reason now (tp_rate_per_sec p)"
  obtain d where d: "apply_throttle R E cfg inow t reason now n = Done (n\<lparr>nd_registry := (nd_registry n)\<lparr>db := d\<rparr>,
       nd_scheduler := sched_update_policy inow (nd_scheduler n) (throttled_policy cfg p),
       nd_throttles := (nd_throttles n)(t \<mapsto> state_of_record ?r)\<rparr>)" "holds d TS (TT(t \<mapsto> ?r)) TB"
    using apply_throttle_effect [OF assms, of cfg inow reason now] by blast
  define n1 where "n1 = n\<lparr>nd_registry := (nd_registry n)\<lparr>db := d\<rparr>,
       nd_scheduler := sched_update_policy inow (nd_scheduler n) (throttled_policy cfg p),
       nd_throttles := (nd_throttles n)(t \<mapsto> state_of_record ?r)\<rparr>"
  have n1: "node_holds n1 TS (TT(t \<mapsto> ?r)) TB" "sched_policy (nd_scheduler n1) t = Some (throttled_policy cfg p)"
    "nd_throttles n1 = (nd_throttles n)(t \<mapsto> state_of_record ?r)"
    using d(2) id by (simp_all add: n1_def sched_policy_update)
  obtain e where e: "release_throttle R inow' False t (tp_rate_per_sec p) n1 =
       Done (n1\<lparr>nd_registry := (nd_registry n1)\<lparr>db := e\<rparr>,
          nd_scheduler := sched_update_policy inow' (nd_scheduler n1) (released_policy (tp_rate_per_sec p) (throttled_policy cfg p)),
          nd_throttles := (nd_throttles n1)(t := None)\<rparr>)" "holds e TS (TT(t := None)) TB"
    using release_effect [OF n1(1), of inow' False t "tp_rate_per_sec p"] n1(2) by (auto simp: Let_def)
  have "tp_tenant_id (released_policy (tp_rate_per_sec p) (throttled_policy cfg p)) = t"
    using id by (simp add: released_policy_def)
  moreover have "force_release R inow' t n1 = release_throttle R inow' False t (tp_rate_per_sec p) n1"
    using n1(3) by (simp add: force_release_def state_of_record_def throttle_record_def)
  ultimately show thesis
    using d(1) n1 e by (intro that [of n1 "n1\<lparr>nd_registry := (nd_registry n1)\<lparr>db := e\<rparr>,
          nd_scheduler := sched_update_policy inow' (nd_scheduler n1) (released_policy (tp_rate_per_sec p) (throttled_policy cfg p)),
          nd_throttles := (nd_throttles n1)(t := None)\<rparr>"])
      (simp_all add: n1_def sched_policy_update)
qed

end

section \<open>Evaluations\<close>

text \<open>Without a due release, one evaluation of a tenant that is throttled already does nothing.\<close>

lemma evaluate_throttled:
  assumes "nd_throttles n (st_tenant_id s) = Some th" "th_throttled th"
  shows "\<not> release_due cfg now (nd_baselines n) s th \<Longrightarrow> evaluate_one R E cfg inow now s n = Done n"
    and "release_due cfg now (nd_baselines n) s th \<Longrightarrow>
      evaluate_one R E cfg inow now s n = release_throttle R inow True (st_tenant_id s) (th_original_rate th) n"
  using assms by (simp_all add: evaluate_one_def Let_def)

lemma evaluate_free:
  assumes "nd_throttles n (st_tenant_id s) = None"
  shows "\<not> should_throttle cfg (nd_baselines n) s \<Longrightarrow> evaluate_one R E cfg inow now s n = Done n"
    and "should_throttle cfg (nd_baselines n) s \<Longrightarrow>
      evaluate_one R E cfg inow now s n = apply_throttle R E cfg inow (st_tenant_id s) (throttle_reason cfg s) now n"
  using assms by (simp_all add: evaluate_one_def Let_def)

text \<open>
  \<open>release_throttle\<close> under a reference into the map never returns, whatever the store does.
\<close>

lemma guarded_release_stuck: "release_throttle R inow True t rate n \<noteq> Done n'"
  by (simp add: release_throttle_def Let_def on_store_def split: option.splits)

lemma evaluate_release_stuck:
  assumes "nd_throttles n (st_tenant_id s) = Some th" "th_throttled th" "release_due cfg now (nd_baselines n) s th"
  shows "evaluate R E cfg inow now (s # ss) n \<noteq> Done n'"
proof -
  have "evaluate_one R E cfg inow now s n \<noteq> Done x" for x
    using evaluate_throttled(2) [OF assms(1,2,3)] guarded_release_stuck by metis
  then show ?thesis
    by (cases "evaluate_one R E cfg inow now s n") (auto simp: evaluate_def)
qed

end
