(* ===== verification/Rq_Runtime_Reference.thy ===== *)
theory Rq_Runtime_Reference
  imports Rq_Store_Facts Rq_Control Rq_Reference
begin

text \<open>
  Executable instances of what the runtime components take from outside the repository: a
  serialisation of the three records of the statistics store, with which the locale \<open>stats_env\<close>
  is interpreted, and the hexadecimal encoding of keys with the law of the \<open>hex\<close> crate.
\<close>

section \<open>Floats and Booleans as bytes\<close>

definition f64_bytes :: "f64 \<Rightarrow> bytes" where
  "f64_bytes x = (case x of NaN \<Rightarrow> [0] | NInf \<Rightarrow> [1] | PInf \<Rightarrow> [2]
     | Fin a \<Rightarrow> (case quotient_of a of (p, q) \<Rightarrow>
         (if p < 0 then 3 else 4) # frames [nat_bytes (nat \<bar>p\<bar>), nat_bytes (nat q)]))"

definition bytes_f64 :: "bytes \<Rightarrow> f64" where
  "bytes_f64 bs = (case bs of
       [] \<Rightarrow> NaN
     | tag # r \<Rightarrow> if tag = 0 then NaN else if tag = 1 then NInf else if tag = 2 then PInf
         else case unframes 2 r of
           Some [p, q] \<Rightarrow> Fin ((if tag = 3 then - 1 else 1) * of_nat (bytes_nat p) / of_nat (bytes_nat q))
         | _ \<Rightarrow> NaN)"

lemma bytes_f64_bytes [simp]: "bytes_f64 (f64_bytes x) = x"
proof (cases x)
  case (Fin a)
  obtain p q where pq: "quotient_of a = (p, q)" by fastforce
  have q: "0 < q" and a: "a = of_int p / of_int q" using quotient_of_denom_pos [OF pq] quotient_of_div [OF pq] by auto
  have nat: "(of_nat (nat q) :: rat) = of_int q" "(of_nat (nat \<bar>p\<bar>) :: rat) = of_int \<bar>p\<bar>" using q by simp_all
  have "(if p < 0 then - 1 else 1) * of_int \<bar>p\<bar> = (of_int p :: rat)" by simp
  with Fin pq a nat show ?thesis
    by (cases "p < 0") (simp_all add: f64_bytes_def bytes_f64_def unframes_frames_n)
qed (simp_all add: f64_bytes_def bytes_f64_def)

definition bool_bytes :: "bool \<Rightarrow> bytes" where
  "bool_bytes b = (if b then [1] else [])"

definition bytes_bool :: "bytes \<Rightarrow> bool" where
  "bytes_bool bs \<longleftrightarrow> bs \<noteq> []"

lemma bytes_bool_bytes [simp]: "bytes_bool (bool_bytes b) = b"
  by (simp add: bytes_bool_def bool_bytes_def)

section \<open>The records of the store\<close>

definition ref_stats_codec :: "persisted_stats codec" where
  "ref_stats_codec = \<lparr>
     bc_serialize = (\<lambda>r. Inr (frames [as_bytes (ps_tenant_id r), f64_bytes (ps_arrival_rate r),
       f64_bytes (ps_processing_rate r), f64_bytes (ps_avg_task_latency r), f64_bytes (ps_burst_score r),
       f64_bytes (ps_backlog_ratio r), to_be_bytes (ps_total_enqueued r), to_be_bytes (ps_total_acked r),
       to_be_bytes (ps_total_nacked r), to_be_bytes (ps_stats_version r), to_be_bytes (ps_flushed_at_ms r)])),
     bc_deserialize = (\<lambda>bs. case unframes 11 bs of
         Some [t, a, p, l, b, k, e, c, n, v, f] \<Rightarrow> Inr \<lparr>ps_tenant_id = of_bytes t, ps_arrival_rate = bytes_f64 a,
           ps_processing_rate = bytes_f64 p, ps_avg_task_latency = bytes_f64 l, ps_burst_score = bytes_f64 b,
           ps_backlog_ratio = bytes_f64 k, ps_total_enqueued = from_be_bytes e, ps_total_acked = from_be_bytes c,
           ps_total_nacked = from_be_bytes n, ps_stats_version = from_be_bytes v, ps_flushed_at_ms = from_be_bytes f\<rparr>
       | _ \<Rightarrow> Inl ''invalid stats'')\<rparr>"

definition ref_throttle_codec :: "persisted_throttle codec" where
  "ref_throttle_codec = \<lparr>
     bc_serialize = (\<lambda>r. Inr (frames [as_bytes (pt_tenant_id r), bool_bytes (pt_throttled r), as_bytes (pt_reason r),
       u32_bytes (pt_original_rate r), u32_bytes (pt_applied_rate r), to_be_bytes (pt_triggered_at_ms r),
       to_be_bytes (pt_cooldown_until_ms r)])),
     bc_deserialize = (\<lambda>bs. case unframes 7 bs of
         Some [t, b, s, q, a, x, y] \<Rightarrow> Inr \<lparr>pt_tenant_id = of_bytes t, pt_throttled = bytes_bool b,
           pt_reason = of_bytes s, pt_original_rate = bytes_u32 q, pt_applied_rate = bytes_u32 a,
           pt_triggered_at_ms = from_be_bytes x, pt_cooldown_until_ms = from_be_bytes y\<rparr>
       | _ \<Rightarrow> Inl ''invalid throttle'')\<rparr>"

definition ref_baseline_codec :: "baseline_record codec" where
  "ref_baseline_codec = \<lparr>
     bc_serialize = (\<lambda>r. Inr (frames [as_bytes (br_tenant_id r), f64_bytes (br_short_ema r), f64_bytes (br_long_ema r),
       f64_bytes (br_spike_threshold r), to_be_bytes (br_saved_at_ms r)])),
     bc_deserialize = (\<lambda>bs. case unframes 5 bs of
         Some [t, s, l, x, y] \<Rightarrow> Inr \<lparr>br_tenant_id = of_bytes t, br_short_ema = bytes_f64 s, br_long_ema = bytes_f64 l,
           br_spike_threshold = bytes_f64 x, br_saved_at_ms = from_be_bytes y\<rparr>
       | _ \<Rightarrow> Inl ''invalid baseline'')\<rparr>"

lemma bincode_of:
  assumes "\<And>x. bc_serialize C x = Inr (f x)" "\<And>x. bc_deserialize C (f x) = Inr x"
  shows "bincode C"
  by unfold_locales (use assms in auto)

lemma ref_stats_bincode: "bincode ref_stats_codec"
  by (rule bincode_of) (simp add: ref_stats_codec_def, simp add: ref_stats_codec_def unframes_frames_n)

lemma ref_throttle_bincode: "bincode ref_throttle_codec"
  by (rule bincode_of) (simp add: ref_throttle_codec_def, simp add: ref_throttle_codec_def unframes_frames_n)

lemma ref_baseline_bincode: "bincode ref_baseline_codec"
  by (rule bincode_of) (simp add: ref_baseline_codec_def, simp add: ref_baseline_codec_def unframes_frames_n)

text \<open>No use is made of the value of \<open>powf\<close>; one is its value at zero.\<close>

definition ref_store_env :: store_env where
  "ref_store_env = \<lparr>stats_codec = ref_stats_codec, throttle_codec = ref_throttle_codec,
     baseline_codec = ref_baseline_codec, powf = (\<lambda>x y. Fin 1)\<rparr>"

interpretation ref_stats: stats_env mem_rocksdb mem_view ref_store_env
proof (intro stats_env.intro)
  show "reliable_store mem_rocksdb mem_view" by unfold_locales
qed (simp_all add: ref_store_env_def ref_stats_bincode ref_throttle_bincode ref_baseline_bincode)

section \<open>Hexadecimal keys\<close>

locale hex_law =
  fixes H :: hex_codec
  assumes hex_roundtrip: "hex_decode H (hex_encode H b) = Inr b"
begin

lemma decode_encoded [simp]: "decode_ack_key H (hex_encode H b) = Inr b"
  by (simp add: decode_ack_key_def hex_roundtrip)

lemma decode_encoded_list [simp]: "decode_ack_keys H (map (hex_encode H) bs) = Inr bs"
  by (induction bs) simp_all

end

definition hex_digit :: "nat \<Rightarrow> char" where
  "hex_digit n = char_of (if n < 10 then 48 + n else 87 + n)"

definition digit_value :: "char \<Rightarrow> nat option" where
  "digit_value c = (let n = of_char c :: nat
     in if 48 \<le> n \<and> n \<le> 57 then Some (n - 48) else if 97 \<le> n \<and> n \<le> 102 then Some (n - 87)
        else if 65 \<le> n \<and> n \<le> 70 then Some (n - 55) else None)"

fun ref_hex_encode :: "bytes \<Rightarrow> string" where
  "ref_hex_encode [] = []"
| "ref_hex_encode (b # bs) = hex_digit (unat b div 16) # hex_digit (unat b mod 16) # ref_hex_encode bs"

fun ref_hex_decode :: "string \<Rightarrow> string + bytes" where
  "ref_hex_decode [] = Inr []"
| "ref_hex_decode [c] = Inl ''Odd number of digits''"
| "ref_hex_decode (c # c' # cs) =
     (case (digit_value c, digit_value c') of
        (Some h, Some l) \<Rightarrow> (case ref_hex_decode cs of Inl e \<Rightarrow> Inl e | Inr bs \<Rightarrow> Inr (word_of_nat (16 * h + l) # bs))
      | _ \<Rightarrow> Inl ''Invalid character'')"

definition ref_hex :: hex_codec where
  "ref_hex = \<lparr>hex_encode = ref_hex_encode, hex_decode = ref_hex_decode\<rparr>"

lemma digit_value_hex: "n < 16 \<Longrightarrow> digit_value (hex_digit n) = Some n"
  by (auto simp: digit_value_def hex_digit_def)

lemma ref_hex_roundtrip: "ref_hex_decode (ref_hex_encode bs) = Inr bs"
proof (induction bs)
  case (Cons b bs)
  have "unat b < 2 ^ LENGTH(8)" by (rule unsigned_less)
  then have "unat b div 16 < 16" by (simp add: less_mult_imp_div_less)
  with Cons show ?case by (simp add: digit_value_hex)
qed simp

interpretation ref_hex: hex_law ref_hex
  by unfold_locales (simp add: ref_hex_def ref_hex_roundtrip)

end
