(* ===== verification/Rq_Baseline_Facts.thy ===== *)
theory Rq_Baseline_Facts
  imports Rq_Baselines Rq_Stats_Facts
begin

text \<open>
  Facts on baselines: thresholds are nonnegative numbers, a promotion raises the threshold, the
  window holds the last five minutes and the rolling peak is its maximum, at most twenty
  promotions are remembered.
\<close>

section \<open>Magnitudes\<close>

text \<open>A nonnegative float: representable, or infinite.\<close>

definition mag_ok :: "f64 \<Rightarrow> bool" where
  "mag_ok x \<longleftrightarrow> x = PInf \<or> score_ok x"

lemma score_mag: "score_ok x \<Longrightarrow> mag_ok x"
  by (simp add: mag_ok_def)

lemma mag_not_NaN: "mag_ok x \<Longrightarrow> x \<noteq> NaN"
  by (auto simp: mag_ok_def score_ok_def)

lemma score_0 [simp]: "score_ok (Fin 0)"
  by (simp add: score_ok_def)

lemma mag_of_rat: "0 \<le> q \<Longrightarrow> mag_ok (f64_of_rat q)"
  using nonneg_of_rat [of q] of_rat_bound [of q]
  by (cases "f64_of_rat q") (auto simp: mag_ok_def score_ok_def)

lemma mag_mul: "mag_ok x \<Longrightarrow> 0 < k \<Longrightarrow> mag_ok (f64_mul x (Fin k))"
  by (auto simp: mag_ok_def [of x] score_ok_def signed_inf_def mag_of_rat) (simp add: mag_ok_def)

lemma mag_max: "mag_ok x \<Longrightarrow> mag_ok y \<Longrightarrow> mag_ok (f64_max x y)"
  by (auto simp: f64_max_def)

lemma max_ge: "x \<noteq> NaN \<Longrightarrow> y \<noteq> NaN \<Longrightarrow> \<not> f64_less (f64_max x y) x \<and> \<not> f64_less (f64_max x y) y"
  by (cases x; cases y) (auto simp: f64_max_def)

lemma foldl_max:
  assumes "x \<noteq> NaN" "\<forall>y \<in> set ys. y \<noteq> NaN"
  shows "foldl f64_max x ys \<noteq> NaN \<and> foldl f64_max x ys \<in> insert x (set ys) \<and>
    (\<forall>y \<in> insert x (set ys). \<not> f64_less (foldl f64_max x ys) y)"
  using assms
proof (induction ys arbitrary: x)
  case Nil
  then show ?case using f64_less_asym by auto
next
  case (Cons y ys)
  have m: "f64_max x y \<noteq> NaN" "f64_max x y \<in> {x, y}" using Cons.prems by (auto simp: f64_max_def)
  note IH = Cons.IH [OF m(1)]
  have "\<not> f64_less (foldl f64_max (f64_max x y) ys) z" if "z \<in> {x, y}" for z
    using f64_not_less_trans [of z "f64_max x y" "foldl f64_max (f64_max x y) ys"] that IH Cons.prems m max_ge [of x y] by auto
  with IH Cons.prems m show ?case by auto
qed

section \<open>The invariant\<close>

definition WINDOW_MS :: u64 where
  "WINDOW_MS = 5 * 60 * 1000"

definition baseline_ok :: "tenant_baseline \<Rightarrow> bool" where
  "baseline_ok b \<longleftrightarrow> mag_ok (bl_spike_threshold b) \<and> mag_ok (bl_rolling_peak b) \<and> length (bl_promotions b) \<le> 20 \<and>
     (\<forall>(ts, r) \<in> set (bl_peak_window b). score_ok r)"

lemma baseline_new_ok: "score_ok r \<Longrightarrow> baseline_ok (tenant_baseline_new now t r)"
proof -
  assume r: "score_ok r"
  have "score_ok (Fin 10)" using bound_numeral [of "num.Bit0 (num.Bit1 (num.Bit0 num.One))"] by (simp add: score_ok_def)
  with r mag_mul [OF score_mag [OF r], of 3] show ?thesis
    by (simp add: baseline_ok_def tenant_baseline_new_def Let_def mag_max score_mag)
qed

lemma observe_fields [simp]:
  "bl_tenant_id (baseline_observe now b r x y) = bl_tenant_id b"
  "bl_spike_threshold (baseline_observe now b r x y) = bl_spike_threshold b"
  "bl_promotions (baseline_observe now b r x y) = bl_promotions b"
  "bl_last_updated_ms (baseline_observe now b r x y) = bl_last_updated_ms b"
  by (simp_all add: baseline_observe_def Let_def)

lemma observe_window:
  "bl_peak_window (baseline_observe now b r x y) =
     filter (\<lambda>(ts, r). ts \<ge> saturating_sub now WINDOW_MS) (bl_peak_window b @ [(now, r)])"
  by (simp add: baseline_observe_def Let_def WINDOW_MS_def)

lemma observe_peak:
  assumes "baseline_ok b" "score_ok r"
  shows "mag_ok (bl_rolling_peak (baseline_observe now b r x y)) \<and>
    (\<forall>(ts, q) \<in> set (bl_peak_window (baseline_observe now b r x y)).
       \<not> f64_less (bl_rolling_peak (baseline_observe now b r x y)) q)"
proof -
  let ?w = "bl_peak_window (baseline_observe now b r x y)"
  let ?m = "foldl f64_max NInf (map snd ?w)"
  have w: "score_ok q" if "q \<in> snd ` set ?w" for q
    using assms that by (auto simp: observe_window baseline_ok_def split: if_splits)
  then have "\<forall>q \<in> set (map snd ?w). q \<noteq> NaN" by (force simp: score_ok_def)
  note m = foldl_max [OF _ this, of NInf]
  have peak: "bl_rolling_peak (baseline_observe now b r x y) = f64_max ?m (Fin 0)"
    by (simp add: baseline_observe_def Let_def)
  have "mag_ok (f64_max ?m (Fin 0))"
  proof (cases "?m = NInf")
    case True
    then show ?thesis by (simp add: f64_max_def score_mag)
  next
    case False
    with m w have "score_ok ?m" by auto
    then show ?thesis by (simp add: mag_max score_mag)
  qed
  moreover have "\<not> f64_less (f64_max ?m (Fin 0)) q" if "(ts, q) \<in> set ?w" for ts q
  proof (rule f64_not_less_trans [of q ?m])
    have "q \<in> set (map snd ?w)" using that by force
    then show "\<not> f64_less ?m q" "q \<noteq> NaN" using m \<open>\<forall>q \<in> set (map snd ?w). q \<noteq> NaN\<close> by auto
    show "?m \<noteq> NaN" using m by simp
    show "\<not> f64_less (f64_max ?m (Fin 0)) ?m" using max_ge [of ?m "Fin 0"] m by simp
    show "f64_max ?m (Fin 0) \<noteq> NaN" using m by (auto simp: f64_max_def)
  qed
  ultimately show ?thesis unfolding peak by blast
qed

section \<open>Promotions\<close>

lemma threshold_grows:
  assumes "mag_ok x" "f64_less (f64_mul x (f64_of_rat (105 / 100))) y"
  shows "f64_less x y"
proof -
  have "between 1 2 (f64_of_rat (105 / 100))"
    by (rule between_of_rat) (simp_all add: bound_numeral)
  then obtain k where k: "f64_of_rat (105 / 100) = Fin k" "1 \<le> k" by (elim between_elim)
  show ?thesis
  proof (cases x)
    case (Fin a)
    with assms(1) have a: "0 \<le> a" "f64_bound a" by (auto simp: mag_ok_def score_ok_def)
    then have "a \<le> a * k" using k(2) by (simp add: mult_le_cancel_left1)
    with a(2) have "\<not> f64_less (f64_of_rat (a * k)) (Fin a)" by (rule of_rat_ge)
    with assms(2) Fin k(1) show ?thesis by (cases "f64_of_rat (a * k)"; cases y) auto
  next
    case PInf
    with assms(2) k show ?thesis by (auto simp: signed_inf_def sgn_if)
  qed (use assms(1) in \<open>auto simp: mag_ok_def score_ok_def\<close>)
qed

lemma baseline_update_spec:
  assumes ok: "baseline_ok b" and r: "score_ok r" and u: "baseline_update now b r sa la (Fin 3) = (p, b')"
  shows "baseline_ok b'" "bl_tenant_id b' = bl_tenant_id b"
    "p = None \<Longrightarrow> bl_spike_threshold b' = bl_spike_threshold b \<and> bl_promotions b' = bl_promotions b"
    "p = Some q \<Longrightarrow> bp_old_threshold q = bl_spike_threshold b \<and> bp_new_threshold q = bl_spike_threshold b' \<and>
       f64_less (bl_spike_threshold b) (bl_spike_threshold b') \<and> last (bl_promotions b') = q \<and> bl_promotions b' \<noteq> []"
proof -
  let ?o = "baseline_observe now b r sa la"
  have eight: "between (3 / 4) (7 / 8) (f64_of_rat (8 / 10))"
    by (rule between_of_rat) (simp_all add: bound_scaled)
  then obtain e where e: "f64_of_rat (8 / 10) = Fin e" "0 < e" by (elim between_elim) auto
  have peak: "mag_ok (bl_rolling_peak ?o)" using observe_peak [OF ok r] by blast
  then have new: "mag_ok (f64_mul (f64_mul (bl_rolling_peak ?o) (f64_of_rat (8 / 10))) (Fin 3))"
    unfolding e(1) using e(2) by (intro mag_mul) auto
  have win: "\<forall>(ts, q) \<in> set (bl_peak_window ?o). score_ok q"
    using ok r by (auto simp: observe_window baseline_ok_def)
  have "length (bl_promotions b) \<le> 20" "mag_ok (bl_spike_threshold b)" using ok by (simp_all add: baseline_ok_def)
  note facts = peak new win this threshold_grows [OF this(2)]
  obtain drift cu where cu: "cusum_update (bl_cusum ?o) (bl_short_ema ?o) (bl_long_ema ?o) = (drift, cu)" by fastforce
  show "baseline_ok b'" "bl_tenant_id b' = bl_tenant_id b"
    "p = None \<Longrightarrow> bl_spike_threshold b' = bl_spike_threshold b \<and> bl_promotions b' = bl_promotions b"
    "p = Some q \<Longrightarrow> bp_old_threshold q = bl_spike_threshold b \<and> bp_new_threshold q = bl_spike_threshold b' \<and>
       f64_less (bl_spike_threshold b) (bl_spike_threshold b') \<and> last (bl_promotions b') = q \<and> bl_promotions b' \<noteq> []"
    using u facts by (auto simp: baseline_update_def Let_def cu baseline_ok_def split: if_splits)
qed

end
