(* ===== verification/Rq_Store_Properties.thy ===== *)
theory Rq_Store_Properties
  imports Rq_Samples Rq_Runtime_Samples Rq_Runtime_Reference Rq_Baseline_Facts
begin

text \<open>
  The statistics store as an abstract data type of three tables, and what survives a restart: the
  statistics and the baselines that were flushed are the ones a new process starts from.
\<close>

section \<open>What an operation of the store leaves alone\<close>

text \<open>
  All other column families and, in the system column family, all keys but those of the three
  tables, among them the descriptions of the tenants.
\<close>

definition store_key :: "bytes \<Rightarrow> bool" where
  "store_key k \<longleftrightarrow> prefix (as_bytes ''stats:'') k \<or> prefix (as_bytes ''throttle:'') k \<or> prefix (as_bytes ''baseline:'') k"

definition store_frame :: "('db \<Rightarrow> string \<Rightarrow> kv option) \<Rightarrow> 'db \<Rightarrow> 'db \<Rightarrow> bool" where
  "store_frame view d d' \<longleftrightarrow> (\<forall>cf. cf \<noteq> CF_SYSTEM \<longrightarrow> view d' cf = view d cf) \<and>
     map_option (\<lambda>m. m |` {k. \<not> store_key k}) (view d' CF_SYSTEM) = map_option (\<lambda>m. m |` {k. \<not> store_key k}) (view d CF_SYSTEM)"

lemma store_keys: "store_key (stats_key t)" "store_key (throttle_key t)" "store_key (baseline_key t)"
  by (simp_all add: store_key_def stats_key_def throttle_key_def baseline_key_def as_bytes_def)

lemma meta_not_store_key: "\<not> store_key (meta_key t)"
  by (simp add: store_key_def prefixes_apart)

lemma frame_refl: "store_frame view d d"
  by (simp add: store_frame_def)

lemma frame_trans: "store_frame view d d' \<Longrightarrow> store_frame view d' d'' \<Longrightarrow> store_frame view d d''"
  by (simp add: store_frame_def)

lemma frame_update: "system_update view d d' k v \<Longrightarrow> store_key k \<Longrightarrow> store_frame view d d'"
  by (auto simp: store_frame_def system_update_def option.map_comp comp_def restrict_map_def fun_eq_iff
      split: option.splits intro!: option.map_cong)

lemma fold_warm_tenant:
  "distinct (map ps_tenant_id ps) \<Longrightarrow> p \<in> set ps \<Longrightarrow> co_tenants c (ps_tenant_id p) = Some s \<Longrightarrow>
   co_tenants (fold (\<lambda>p c. col_modify (warm_tenant p) c (ps_tenant_id p)) ps c) (ps_tenant_id p) = Some (warm_tenant p s)"
proof (induction ps arbitrary: c s)
  case (Cons q ps)
  have other: "co_tenants (fold (\<lambda>p c. col_modify (warm_tenant p) c (ps_tenant_id p)) qs d) t = co_tenants d t"
    if "t \<notin> ps_tenant_id ` set qs" for qs t and d :: stats_collector
    using that by (induction qs arbitrary: d) (auto simp: col_modify_def split: option.splits)
  show ?case
  proof (cases "p = q")
    case True
    with Cons.prems other [of "ps_tenant_id q" ps] show ?thesis by (simp add: col_modify_def)
  next
    case False
    with Cons.prems have p: "p \<in> set ps" by simp
    with Cons.prems have "ps_tenant_id q \<noteq> ps_tenant_id p" by auto
    with Cons.prems have "co_tenants (col_modify (warm_tenant q) c (ps_tenant_id q)) (ps_tenant_id p) = Some s"
      by (simp add: col_modify_def split: option.splits)
    with Cons.IH p Cons.prems(1) show ?thesis by simp
  qed
qed simp

context stats_env
begin

lemma put_frame: "view d CF_SYSTEM = Some m \<Longrightarrow> store_key k \<Longrightarrow> store_frame view d (store_put R d k (Inr v)) \<and>
   (\<exists>m'. view (store_put R d k (Inr v)) CF_SYSTEM = Some m')"
  using frame_update [OF store_put_effect] store_put_effect by (auto simp: system_update_def)

lemma fold_put_frame:
  assumes "\<And>x. store_key (key x)"
  shows "view d CF_SYSTEM = Some m \<Longrightarrow> store_frame view d (fold (\<lambda>x d. store_put R d (key x) (Inr (val x))) xs d)"
proof (induction xs arbitrary: d m)
  case (Cons x xs)
  from put_frame [OF Cons.prems assms, of x "val x"] obtain m' where
    "store_frame view d (store_put R d (key x) (Inr (val x)))" "view (store_put R d (key x) (Inr (val x))) CF_SYSTEM = Some m'" by blast
  with Cons.IH show ?case using frame_trans by fastforce
qed (simp add: frame_refl)

lemma flush_frames:
  assumes "holds d TS TT TB"
  shows "flush_stats R E now d ss = Some d' \<Longrightarrow> store_frame view d d'"
    and "flush_baselines R E now d bs = Some d' \<Longrightarrow> store_frame view d d'"
proof -
  obtain m where m: "view d CF_SYSTEM = Some m" using assms by (auto simp: store_holds_def)
  show "flush_stats R E now d ss = Some d' \<Longrightarrow> store_frame view d d'"
    using fold_put_frame [OF _ m, of "\<lambda>s. stats_key (st_tenant_id s)" "\<lambda>s. sc.enc (stats_record now s)" ss] store_keys
    by (auto simp: flush_stats_def split: if_splits)
  show "flush_baselines R E now d bs = Some d' \<Longrightarrow> store_frame view d d'"
    using fold_put_frame [OF _ m, of "\<lambda>b. baseline_key (bl_tenant_id b)" "\<lambda>b. bc.enc (baseline_record_of now b)" bs] store_keys
    by (auto simp: flush_baselines_def split: if_splits)
qed

lemma refines_tables:
  assumes h: "holds d TS TT TB"
  shows "(\<exists>d'. persist_throttle R E d r = Some d' \<and> holds d' TS (TT(pt_tenant_id r \<mapsto> r)) TB \<and> store_frame view d d')"
    and "(\<exists>d'. clear_throttle R d t = Some d' \<and> holds d' TS (TT(t := None)) TB \<and> store_frame view d d')"
    and "(\<exists>d'. clear_baseline R d t = Some d' \<and> holds d' TS TT (TB(t := None)) \<and> store_frame view d d')"
    and "\<exists>d'. flush_stats R E now d ss = Some d' \<and>
       holds d' (fold (\<lambda>s T. T(st_tenant_id s \<mapsto> stats_record now s)) ss TS) TT TB \<and> store_frame view d d'"
    and "\<exists>d'. flush_baselines R E now d bs = Some d' \<and>
       holds d' TS TT (fold (\<lambda>b T. T(bl_tenant_id b \<mapsto> baseline_record_of now b)) bs TB) \<and> store_frame view d d'"
proof -
  show "\<exists>d'. persist_throttle R E d r = Some d' \<and> holds d' TS (TT(pt_tenant_id r \<mapsto> r)) TB \<and> store_frame view d d'"
    by (rule persist_throttle_effect [OF h, of r]) (intro exI conjI, assumption, assumption, erule frame_update, rule store_keys)
  show "\<exists>d'. clear_throttle R d t = Some d' \<and> holds d' TS (TT(t := None)) TB \<and> store_frame view d d'"
    by (rule clear_throttle_effect [OF h, of t]) (intro exI conjI, assumption, assumption, erule frame_update, rule store_keys)
  show "\<exists>d'. clear_baseline R d t = Some d' \<and> holds d' TS TT (TB(t := None)) \<and> store_frame view d d'"
    by (rule clear_baseline_effect [OF h, of t]) (intro exI conjI, assumption, assumption, erule frame_update, rule store_keys)
  obtain d1 where d1: "flush_stats R E now d ss = Some d1"
    "holds d1 (fold (\<lambda>s T. T(st_tenant_id s \<mapsto> stats_record now s)) ss TS) TT TB"
    using flush_stats_effect [OF h] by blast
  with flush_frames(1) [OF h d1(1)]
  show "\<exists>d'. flush_stats R E now d ss = Some d' \<and>
       holds d' (fold (\<lambda>s T. T(st_tenant_id s \<mapsto> stats_record now s)) ss TS) TT TB \<and> store_frame view d d'" by blast
  obtain d2 where d2: "flush_baselines R E now d bs = Some d2"
    "holds d2 TS TT (fold (\<lambda>b T. T(bl_tenant_id b \<mapsto> baseline_record_of now b)) bs TB)"
    using flush_baselines_effect [OF h] by blast
  with flush_frames(2) [OF h d2(1)]
  show "\<exists>d'. flush_baselines R E now d bs = Some d' \<and>
       holds d' TS TT (fold (\<lambda>b T. T(bl_tenant_id b \<mapsto> baseline_record_of now b)) bs TB) \<and> store_frame view d d'" by blast
qed

lemma warm_effect:
  assumes h: "holds d TS TT TB" and key: "\<And>t r. TS t = Some r \<Longrightarrow> ps_tenant_id r = t"
    and r: "TS t = Some r" and s: "co_tenants c t = Some s"
  shows "\<exists>c'. warm_from_store R E now d c = Some c' \<and> co_tenants c' t = Some (warm_tenant (decay_stats E now r) s)"
proof -
  obtain rs where rs: "load_all_stats R E now d = Some (map (decay_stats E now) rs)" "set rs = ran TS" "length rs = card (dom TS)"
    using load_stats_effect [OF h] by blast
  have "ps_tenant_id ` set rs = dom TS"
  proof (intro equalityI subsetI)
    fix u assume "u \<in> dom TS"
    then obtain r' where "TS u = Some r'" by blast
    with key show "u \<in> ps_tenant_id ` set rs" unfolding rs(2) by (metis ranI image_eqI)
  qed (unfold rs(2), auto simp: ran_def dest: key)
  then have "distinct (map ps_tenant_id rs)" using rs(3) by (metis card_distinct length_map set_map)
  moreover have "map ps_tenant_id (map (decay_stats E now) rs) = map ps_tenant_id rs" by (simp add: decay_stats_def Let_def)
  ultimately have "distinct (map ps_tenant_id (map (decay_stats E now) rs))" by (simp only:)
  moreover have "r \<in> set rs" using r rs(2) by (auto simp: ran_def)
  moreover have "ps_tenant_id (decay_stats E now r) = t" using key [OF r] by (simp add: decay_stats_def Let_def)
  ultimately have "co_tenants (fold (\<lambda>p c. col_modify (warm_tenant p) c (ps_tenant_id p)) (map (decay_stats E now) rs) c) t =
      Some (warm_tenant (decay_stats E now r) s)"
    using fold_warm_tenant [of "map (decay_stats E now) rs" "decay_stats E now r" c s] s by auto
  with rs(1) show ?thesis by (simp add: warm_from_store_def)
qed

end

section \<open>The store refines three tables\<close>

text \<open>
  C17. The store is a refinement of three finite maps, from tenants to statistics, to throttle records
  and to baselines, kept in one column family: on a reliable database every operation succeeds and
  is the update of its table or its contents, the other tables stay as they are, and so do all
  other column families and the other keys, in particular the persisted tenants.
\<close>

theorem store_refines_tables:
  assumes "stats_env R view E" and "store_holds view E d TS TT TB"
  shows "(\<exists>d'. persist_throttle R E d r = Some d' \<and> store_holds view E d' TS (TT(pt_tenant_id r \<mapsto> r)) TB \<and> store_frame view d d') \<and>
    (\<exists>d'. clear_throttle R d t = Some d' \<and> store_holds view E d' TS (TT(t := None)) TB \<and> store_frame view d d') \<and>
    (\<exists>d'. clear_baseline R d t = Some d' \<and> store_holds view E d' TS TT (TB(t := None)) \<and> store_frame view d d') \<and>
    (\<exists>d'. flush_stats R E now d ss = Some d' \<and>
       store_holds view E d' (fold (\<lambda>s T. T(st_tenant_id s \<mapsto> stats_record now s)) ss TS) TT TB \<and> store_frame view d d') \<and>
    (\<exists>d'. flush_baselines R E now d bs = Some d' \<and>
       store_holds view E d' TS TT (fold (\<lambda>b T. T(bl_tenant_id b \<mapsto> baseline_record_of now b)) bs TB) \<and> store_frame view d d') \<and>
    load_baseline R E d t = Some (TB t) \<and>
    (\<exists>rs. load_all_throttles R E d = Some rs \<and> set rs = ran TT \<and> length rs = card (dom TT)) \<and>
    (\<exists>rs. load_all_stats R E now d = Some (map (decay_stats E now) rs) \<and> set rs = ran TS \<and> length rs = card (dom TS))"
proof (intro conjI)
  show "load_baseline R E d t = Some (TB t)" by (rule stats_env.load_baseline_effect [OF assms])
  show "\<exists>rs. load_all_throttles R E d = Some rs \<and> set rs = ran TT \<and> length rs = card (dom TT)"
    by (rule stats_env.load_throttles_effect [OF assms]) blast
  show "\<exists>rs. load_all_stats R E now d = Some (map (decay_stats E now) rs) \<and> set rs = ran TS \<and> length rs = card (dom TS)"
    by (rule stats_env.load_stats_effect [OF assms]) blast
qed (rule stats_env.refines_tables [OF assms])+

lemma sample_tables: "store_holds mem_view ref_store_env sample_db Map.empty Map.empty Map.empty"
  by (auto simp: store_holds_def sample_system tables_def keyspace_def)

definition sample_throttle :: persisted_throttle where
  "sample_throttle = \<lparr>pt_tenant_id = ''t'', pt_throttled = True, pt_reason = ''rate_spike_detected'', pt_original_rate = 100,
     pt_applied_rate = 25, pt_triggered_at_ms = 10, pt_cooldown_until_ms = 30010\<rparr>"

theorem store_refines_tables_witness:
  "\<exists>d. persist_throttle mem_rocksdb ref_store_env sample_db sample_throttle = Some d \<and>
     store_holds mem_view ref_store_env d Map.empty [''t'' \<mapsto> sample_throttle] Map.empty \<and>
     mem_view d (cf_pending ''t'') = Some (map_of sample_pending)"
proof -
  from store_refines_tables [OF ref_stats.stats_env_axioms sample_tables, of sample_throttle "[]" 0 "[]" "[]"]
  obtain d where d: "persist_throttle mem_rocksdb ref_store_env sample_db sample_throttle = Some d"
    "store_holds mem_view ref_store_env d Map.empty [''t'' \<mapsto> sample_throttle] Map.empty" "store_frame mem_view sample_db d"
    by (auto simp: sample_throttle_def)
  moreover have "mem_view d (cf_pending ''t'') = mem_view sample_db (cf_pending ''t'')"
    using d(3) by (auto simp: store_frame_def cf_pending_def CF_SYSTEM_def)
  ultimately show ?thesis by (auto simp: sample_view)
qed

section \<open>Statistics and baselines survive a restart\<close>

lemma fold_table:
  assumes "x \<in> set xs" "\<And>y. y \<in> set xs \<Longrightarrow> key y = key x \<Longrightarrow> y = x"
  shows "fold (\<lambda>x T. T(key x \<mapsto> f x)) xs T (key x) = Some (f x)"
  using assms
proof (induction xs rule: rev_induct)
  case (snoc y ys)
  show ?case
  proof (cases "key y = key x")
    case True
    with snoc.prems(2) [of y] show ?thesis by simp
  next
    case False
    with snoc.prems have "x \<in> set ys" "\<And>z. z \<in> set ys \<Longrightarrow> key z = key x \<Longrightarrow> z = x" by auto
    with snoc.IH False show ?thesis by simp
  qed
qed simp

lemma fold_table_keyed:
  assumes "\<And>t r. T t = Some r \<Longrightarrow> Q t r" "\<And>x. Q (key x) (f x)"
  shows "fold (\<lambda>x T. T(key x \<mapsto> f x)) xs T t = Some r \<Longrightarrow> Q t r"
proof (induction xs rule: rev_induct)
  case (snoc y ys)
  then show ?case using assms(2) [of y] by (cases "t = key y") auto
qed (simp add: assms(1))

text \<open>
  C18. What the daemon flushed is what the next process starts from. If the snapshots of a collector
  are flushed and a new collector is warmed from the database, every tenant known to both has its
  flushed averages, decayed by the time between, its totals and its version, and is no longer new; a
  baseline that was flushed comes back with its averages and its spike threshold when the tenant is
  registered again.
\<close>

theorem statistics_survive_restart:
  assumes "stats_env R view E" and "store_holds view E d TS TT TB"
    and "\<forall>t r. TS t = Some r \<longrightarrow> ps_tenant_id r = t"
    and "collector_ok c" and "t \<in> set order" and "co_tenants c t = Some s" and "co_tenants c1 t = Some s1"
    and "bs t = Some b" and "\<forall>u b. bs u = Some b \<longrightarrow> bl_tenant_id b = u"
  shows "\<exists>d1 d2 c2 bs2 b2. flush_stats R E now1 d (col_all_snapshots order c) = Some d1 \<and>
    bl_flush R E now1 order d1 bs = Some d2 \<and>
    warm_from_store R E now2 d2 c1 = Some c2 \<and>
    co_tenants c2 t = Some (warm_tenant (decay_stats E now2 (stats_record now1 (ss_stats s))) s1) \<and>
    bl_register R E now2 d2 bs1 t rate = Some bs2 \<and> bs2 = bs1(t \<mapsto> b2) \<and> bl_tenant_id b2 = t \<and>
    bl_short_ema b2 = bl_short_ema b \<and> bl_long_ema b2 = bl_long_ema b \<and> bl_spike_threshold b2 = bl_spike_threshold b"
proof -
  let ?ss = "col_all_snapshots order c" and ?bs = "bl_all_snapshots order bs"
  let ?TS = "fold (\<lambda>s T. T(st_tenant_id s \<mapsto> stats_record now1 s)) ?ss TS"
  let ?TB = "fold (\<lambda>b T. T(bl_tenant_id b \<mapsto> baseline_record_of now1 b)) ?bs TB"
  note env = assms(1)
  obtain d1 where d1: "flush_stats R E now1 d ?ss = Some d1" "store_holds view E d1 ?TS TT TB"
    using stats_env.refines_tables(4) [OF env assms(2)] by blast
  obtain d2 where d2: "flush_baselines R E now1 d1 ?bs = Some d2" "store_holds view E d2 ?TS TT ?TB"
    using stats_env.refines_tables(5) [OF env d1(2)] by blast
  have id: "st_tenant_id (ss_stats s) = t" using collector_ok_get [OF assms(4,6)] by simp
  have TSt: "?TS (st_tenant_id (ss_stats s)) = Some (stats_record now1 (ss_stats s))"
  proof (rule fold_table)
    show "ss_stats s \<in> set ?ss" using assms(5,6) by (auto simp: set_snapshots registered_def)
    fix y assume "y \<in> set ?ss" "st_tenant_id y = st_tenant_id (ss_stats s)"
    then show "y = ss_stats s" using collector_ok_get [OF assms(4)] assms(6) id by (auto simp: set_snapshots registered_def)
  qed
  have key: "ps_tenant_id r = u" if "?TS u = Some r" for u r
    using fold_table_keyed [where T = TS and Q = "\<lambda>u r. ps_tenant_id r = u" and key = st_tenant_id and f = "stats_record now1" and xs = ?ss] assms(3) that
    by (simp add: stats_record_def)
  obtain c2 where c2: "warm_from_store R E now2 d2 c1 = Some c2"
    "co_tenants c2 t = Some (warm_tenant (decay_stats E now2 (stats_record now1 (ss_stats s))) s1)"
    using stats_env.warm_effect [OF env d2(2) key TSt [unfolded id] assms(7)] by blast
  have bid: "bl_tenant_id b = t" using assms(8,9) by blast
  have "?TB (bl_tenant_id b) = Some (baseline_record_of now1 b)"
  proof (rule fold_table)
    show "b \<in> set ?bs" using assms(5,8) by (force simp: bl_all_snapshots_def List.map_filter_def image_iff)
    fix y assume "y \<in> set ?bs" "bl_tenant_id y = bl_tenant_id b"
    then show "y = b" using assms(8,9) bid by (auto simp: bl_all_snapshots_def List.map_filter_def)
  qed
  then have "load_baseline R E d2 t = Some (Some (baseline_record_of now1 b))"
    using stats_env.load_baseline_effect [OF env d2(2)] bid by simp
  with d1(1) d2(1) c2 show ?thesis
    by (auto simp: bl_flush_def bl_register_def baseline_record_of_def tenant_baseline_new_def Let_def)
qed

definition sample_baselines :: baselines where
  "sample_baselines = [''a'' \<mapsto> tenant_baseline_new 0 ''a'' (Fin 7)]"

lemma sample_baselines_get: "sample_baselines ''a'' = Some (tenant_baseline_new 0 ''a'' (Fin 7))"
  "\<forall>u b. sample_baselines u = Some b \<longrightarrow> bl_tenant_id b = u"
  by (simp_all add: sample_baselines_def tenant_baseline_new_def Let_def)

theorem statistics_survive_restart_witness:
  "\<exists>d1 d2 c2. flush_stats mem_rocksdb ref_store_env 5 sample_db (col_all_snapshots [''a''] (col_register 0 collector_new ''a'')) = Some d1 \<and>
     bl_flush mem_rocksdb ref_store_env 5 [''a''] d1 sample_baselines = Some d2 \<and>
     warm_from_store mem_rocksdb ref_store_env 9 d2 (col_register 8 collector_new ''a'') = Some c2 \<and>
     (\<exists>s. co_tenants c2 ''a'' = Some s \<and> \<not> is_new (ss_stats s)) \<and>
     (\<exists>b2. bl_register mem_rocksdb ref_store_env 9 d2 Map.empty ''a'' (Fin 0) = Some [''a'' \<mapsto> b2] \<and> bl_long_ema b2 = Fin 7)"
proof -
  let ?c = "col_register 0 collector_new ''a''" and ?c1 = "col_register 8 collector_new ''a''"
  let ?s = "\<lambda>now. \<lparr>ss_stats = fresh_stats now ''a'', ss_counters = tenant_counters_new\<rparr>"
  have c: "collector_ok ?c" by (intro ok_register ok_collector_new)
  have s: "co_tenants ?c ''a'' = Some (?s 0)" "co_tenants ?c1 ''a'' = Some (?s 8)" by (simp_all add: col_register_def)
  have seven: "bl_long_ema (tenant_baseline_new 0 ''a'' (Fin 7)) = Fin 7" by (simp add: tenant_baseline_new_def Let_def)
  have TS: "\<forall>t r. (Map.empty :: string \<rightharpoonup> persisted_stats) t = Some r \<longrightarrow> ps_tenant_id r = t" by simp
  have a: "''a'' \<in> set [''a'']" by simp
  from statistics_survive_restart [OF ref_stats.stats_env_axioms sample_tables TS c a s sample_baselines_get, of 5 9 Map.empty "Fin 0"] seven
  obtain d1 d2 c2 b2 where d: "flush_stats mem_rocksdb ref_store_env 5 sample_db (col_all_snapshots [''a''] ?c) = Some d1"
    "bl_flush mem_rocksdb ref_store_env 5 [''a''] d1 sample_baselines = Some d2"
    "warm_from_store mem_rocksdb ref_store_env 9 d2 ?c1 = Some c2"
    "co_tenants c2 ''a'' = Some (warm_tenant (decay_stats ref_store_env 9 (stats_record 5 (ss_stats (?s 0)))) (?s 8))"
    "bl_register mem_rocksdb ref_store_env 9 d2 Map.empty ''a'' (Fin 0) = Some [''a'' \<mapsto> b2]" "bl_long_ema b2 = Fin 7"
    by metis
  have "\<not> is_new (ss_stats (warm_tenant p x))" for p x by (simp add: warm_tenant_def)
  with d show ?thesis by blast
qed

end
