(* ===== verification/Rq_Throttle_Properties.thy ===== *)
theory Rq_Throttle_Properties
  imports Rq_Throttle_Facts Rq_Store_Properties
begin

text \<open>
  The properties of the automatic throttle: what an evaluation does to a tenant that exceeds a
  threshold and that a release by hand undoes it, and what a restart makes of the records it left.
\<close>

section \<open>Throttling and releasing\<close>

text \<open>
  C19. An evaluation of a tenant that is not throttled and whose statistics exceed a threshold sets
  its rate to a quarter of the rate in force, but at least five, a quarter of its inflight limit, and a
  cooldown of thirty seconds; it persists a record of this with the original rate and leaves the
  policies of all other tenants alone. A release by hand always returns, sets the rate back to the
  original one, deletes the record and forgets the throttle.
\<close>

theorem throttle_and_release:
  assumes "stats_env R view E" and "store_holds view E (db (nd_registry n)) TS TT TB"
    and "sched_inv (nd_scheduler n)" and "sched_policy (nd_scheduler n) t = Some p" and "tp_max_inflight p \<le> 2 ^ 53"
    and "st_tenant_id s = t" and "nd_throttles n t = None" and "should_throttle throttle_config_default (nd_baselines n) s"
  shows "\<exists>n1 n2 (r :: persisted_throttle) p1 p2. evaluate R E throttle_config_default inow now [s] n = Done n1 \<and>
    unat (pt_applied_rate r) = max (unat (tp_rate_per_sec p) div 4) 5 \<and> pt_original_rate r = tp_rate_per_sec p \<and>
    pt_cooldown_until_ms r = now + 30000 \<and> pt_reason r = throttle_reason throttle_config_default s \<and>
    store_holds view E (db (nd_registry n1)) TS (TT(t \<mapsto> r)) TB \<and> nd_throttles n1 = (nd_throttles n)(t \<mapsto> state_of_record r) \<and>
    sched_policy (nd_scheduler n1) t = Some p1 \<and> tp_rate_per_sec p1 = pt_applied_rate r \<and>
    tp_max_inflight p1 = tp_max_inflight p div 4 \<and> tp_weight p1 = tp_weight p \<and>
    (\<forall>u. u \<noteq> t \<longrightarrow> sched_policy (nd_scheduler n1) u = sched_policy (nd_scheduler n) u) \<and>
    force_release R inow' t n1 = Done n2 \<and> sched_policy (nd_scheduler n2) t = Some p2 \<and>
    tp_rate_per_sec p2 = tp_rate_per_sec p \<and> tp_weight p2 = tp_weight p \<and>
    store_holds view E (db (nd_registry n2)) TS (TT(t := None)) TB \<and> nd_throttles n2 = nd_throttles n"
proof -
  let ?cfg = throttle_config_default and ?reason = "throttle_reason throttle_config_default s"
  let ?r = "throttle_record ?cfg t ?reason now (tp_rate_per_sec p)"
  note keyed = sched_inv_keyed [OF assms(3)]
  obtain n1 n2 where n: "apply_throttle R E ?cfg inow t ?reason now n = Done n1"
    "sched_policy (nd_scheduler n1) t = Some (throttled_policy ?cfg p)"
    "store_holds view E (db (nd_registry n1)) TS (TT(t \<mapsto> ?r)) TB" "force_release R inow' t n1 = Done n2"
    "sched_policy (nd_scheduler n2) t = Some (released_policy (tp_rate_per_sec p) (throttled_policy ?cfg p))"
    "store_holds view E (db (nd_registry n2)) TS (TT(t := None)) TB" "nd_throttles n2 = (nd_throttles n)(t := None)"
    using stats_env.throttle_then_release [OF assms(1,2) keyed assms(4), of ?cfg inow ?reason now inow'] by blast
  obtain d where d: "n1 = n\<lparr>nd_registry := (nd_registry n)\<lparr>db := d\<rparr>,
       nd_scheduler := sched_update_policy inow (nd_scheduler n) (throttled_policy ?cfg p),
       nd_throttles := (nd_throttles n)(t \<mapsto> state_of_record ?r)\<rparr>"
    using stats_env.apply_throttle_effect [OF assms(1,2) keyed assms(4), of ?cfg inow ?reason now] n(1)
    by (metis run.inject(1))
  have id: "tp_tenant_id p = t" using sched_policy_id [OF keyed assms(4)] .
  have ev: "evaluate R E ?cfg inow now [s] n = Done n1"
    using evaluate_free(2) [of n s ?cfg R E inow now] assms(6,7,8) n(1) by (simp add: evaluate_def)
  have r: "unat (pt_applied_rate ?r) = max (unat (tp_rate_per_sec p) div 4) 5" "pt_original_rate ?r = tp_rate_per_sec p"
    "pt_cooldown_until_ms ?r = now + 30000" "pt_reason ?r = ?reason"
    by (simp_all add: throttle_record_def throttled_rate_default) (simp add: throttle_config_default_def)
  have p1: "tp_rate_per_sec (throttled_policy ?cfg p) = pt_applied_rate ?r" "tp_weight (throttled_policy ?cfg p) = tp_weight p"
    "tp_max_inflight (throttled_policy ?cfg p) = tp_max_inflight p div 4"
    using throttled_inflight_default [OF assms(5)] by (simp_all add: throttled_policy_def Let_def throttle_record_def)
  have others: "\<forall>u. u \<noteq> t \<longrightarrow> sched_policy (nd_scheduler n1) u = sched_policy (nd_scheduler n) u"
    using d id by (simp add: sched_policy_update)
  have p2: "tp_rate_per_sec (released_policy (tp_rate_per_sec p) (throttled_policy ?cfg p)) = tp_rate_per_sec p"
    "tp_weight (released_policy (tp_rate_per_sec p) (throttled_policy ?cfg p)) = tp_weight p"
    using p1(2) by (simp_all add: released_policy_def)
  have th: "nd_throttles n1 = (nd_throttles n)(t \<mapsto> state_of_record ?r)" "nd_throttles n2 = nd_throttles n"
    using d n(7) assms(7) by (simp_all add: fun_upd_idem)
  show ?thesis
    by (rule exI [of _ n1], rule exI [of _ n2], rule exI [of _ ?r], rule exI [of _ "throttled_policy ?cfg p"],
        rule exI [of _ "released_policy (tp_rate_per_sec p) (throttled_policy ?cfg p)"])
      (intro conjI ev r n(2-6) th p1 p2 others)
qed

text \<open>A node with one tenant whose backlog ratio is one.\<close>

definition sample_node :: "mem_db node" where
  "sample_node = \<lparr>nd_registry = sample, nd_scheduler = sched_register 0 scheduler_new (tenant_policy_standard ''t''),
     nd_collector = col_register 0 collector_new ''t'', nd_throttles = Map.empty, nd_baselines = Map.empty\<rparr>"

definition pressed :: tenant_stats where
  "pressed = (fresh_stats 0 ''t'')\<lparr>backlog_ratio := Fin 1\<rparr>"

lemma pressed_throttles: "should_throttle throttle_config_default bs pressed"
proof -
  have "between 0 (7 / 8) (f64_of_rat (85 / 100))" by (rule between_of_rat) (simp_all add: bound_scaled)
  then have "f64_less (f64_of_rat (85 / 100)) (Fin 1)" by (elim between_elim) auto
  then show ?thesis by (simp add: should_throttle_def throttle_config_default_def pressed_def)
qed

theorem throttle_and_release_witness:
  "\<exists>n1 n2 p1. evaluate mem_rocksdb ref_store_env throttle_config_default 0 7 [pressed] sample_node = Done n1 \<and>
     sched_policy (nd_scheduler n1) ''t'' = Some p1 \<and> tp_rate_per_sec p1 = 25 \<and> tp_max_inflight p1 = 125 \<and>
     force_release mem_rocksdb 0 ''t'' n1 = Done n2 \<and>
     map_option tp_rate_per_sec (sched_policy (nd_scheduler n2) ''t'') = Some 100"
proof -
  let ?p = "tenant_policy_standard ''t''"
  have tables: "store_holds mem_view ref_store_env (db (nd_registry sample_node)) Map.empty Map.empty Map.empty"
    using sample_tables by (simp add: sample_node_def)
  have inv: "sched_inv (nd_scheduler sample_node)" by (simp add: sample_node_def inv_register inv_scheduler_new)
  have pol: "sched_policy (nd_scheduler sample_node) ''t'' = Some ?p"
    by (simp add: sample_node_def sched_policy_def sched_register_def tenant_state_new_def tenant_policy_standard_def)
  have le: "tp_max_inflight ?p \<le> 2 ^ 53" and id: "st_tenant_id pressed = ''t''" and free: "nd_throttles sample_node ''t'' = None"
    by (simp_all add: tenant_policy_standard_def pressed_def fresh_stats_def sample_node_def)
  have rates: "tp_rate_per_sec ?p = 100" "tp_max_inflight ?p = 500" by (simp_all add: tenant_policy_standard_def)
  have "\<exists>n1 n2 (r :: persisted_throttle) p1 p2. evaluate mem_rocksdb ref_store_env throttle_config_default 0 7 [pressed] sample_node = Done n1 \<and>
    force_release mem_rocksdb 0 ''t'' n1 = Done n2 \<and> unat (pt_applied_rate r) = max (unat (100 :: u32) div 4) 5 \<and>
    sched_policy (nd_scheduler n1) ''t'' = Some p1 \<and> tp_rate_per_sec p1 = pt_applied_rate r \<and> tp_max_inflight p1 = 500 div 4 \<and>
    sched_policy (nd_scheduler n2) ''t'' = Some p2 \<and> tp_rate_per_sec p2 = 100"
    using throttle_and_release [OF ref_stats.stats_env_axioms tables inv pol le id free pressed_throttles, of 0 7 0, unfolded rates]
    by (elim exE conjE) (intro exI conjI, assumption+)
  then obtain n1 n2 and r :: persisted_throttle and p1 p2 where n: "evaluate mem_rocksdb ref_store_env throttle_config_default 0 7 [pressed] sample_node = Done n1"
    "unat (pt_applied_rate r) = max (unat (100 :: u32) div 4) 5"
    "sched_policy (nd_scheduler n1) ''t'' = Some p1" "tp_rate_per_sec p1 = pt_applied_rate r" "tp_max_inflight p1 = 500 div 4"
    "force_release mem_rocksdb 0 ''t'' n1 = Done n2" "sched_policy (nd_scheduler n2) ''t'' = Some p2" "tp_rate_per_sec p2 = 100"
    by auto
  from n(2) have "pt_applied_rate r = 25" by (simp add: word_unat_eq_iff)
  with n show ?thesis by auto
qed

section \<open>Restoring\<close>

text \<open>
  Restoring at the start of a process, when no tenant is registered with the scheduler yet. \<open>live\<close>
  tells which cooldowns have not passed, by every clock reading of the loop.
\<close>

definition restored :: "(string \<rightharpoonup> persisted_throttle) \<Rightarrow> (string \<Rightarrow> bool) \<Rightarrow> (string \<rightharpoonup> throttle_state)" where
  "restored TT live t = (case TT t of Some r \<Rightarrow> if pt_throttled r \<and> live t then Some (state_of_record r) else None | None \<Rightarrow> None)"

lemma fold_updates:
  assumes "\<And>r. r \<in> set rs \<Longrightarrow> key r = k \<Longrightarrow> r = r0"
  shows "fold (\<lambda>r T. if c r then T(key r := v r) else T) rs T k = (if r0 \<in> set rs \<and> key r0 = k \<and> c r0 then v r0 else T k)"
  using assms
proof (induction rs rule: rev_induct)
  case (snoc x xs)
  have IH: "fold (\<lambda>r T. if c r then T(key r := v r) else T) xs T k = (if r0 \<in> set xs \<and> key r0 = k \<and> c r0 then v r0 else T k)"
    using snoc.prems by (intro snoc.IH) auto
  show ?case
  proof (cases "key x = k")
    case True
    with snoc.prems have "x = r0" by simp
    with IH True show ?thesis by auto
  next
    case False
    with IH show ?thesis by auto
  qed
qed simp

context stats_env
begin

lemma restore_loop_effect:
  assumes live: "\<And>r i. r \<in> set rs \<Longrightarrow> pt_cooldown_until_ms r > clk i \<longleftrightarrow> live (pt_tenant_id r)"
    and h: "node_holds n TS TT TB" and empty: "sc_tenants (nd_scheduler n) = Map.empty"
  shows "\<exists>d. restore_loop R clk inow rs n = Done (n\<lparr>nd_registry := (nd_registry n)\<lparr>db := d\<rparr>,
       nd_throttles := fold (\<lambda>r T. if pt_throttled r \<and> live (pt_tenant_id r) then T(pt_tenant_id r := Some (state_of_record r)) else T)
         rs (nd_throttles n)\<rparr>) \<and>
     holds d TS (fold (\<lambda>r T. if pt_throttled r \<and> \<not> live (pt_tenant_id r) then T(pt_tenant_id r := None) else T) rs TT) TB \<and>
     store_frame view (db (nd_registry n)) d"
  using live h empty
proof (induction rs arbitrary: clk n TT)
  case Nil
  then show ?case by (intro exI [of _ "db (nd_registry n)"]) (simp add: frame_refl)
next
  case (Cons r rs)
  have pol: "sched_policy (nd_scheduler n) u = None" for u using Cons.prems(3) by (simp add: sched_policy_def)
  have l: "pt_cooldown_until_ms r > clk 0 \<longleftrightarrow> live (pt_tenant_id r)" using Cons.prems(1) by simp
  have IH: "\<And>n TT. node_holds n TS TT TB \<Longrightarrow> sc_tenants (nd_scheduler n) = Map.empty \<Longrightarrow> \<exists>d. restore_loop R (\<lambda>i. clk (Suc i)) inow rs n =
      Done (n\<lparr>nd_registry := (nd_registry n)\<lparr>db := d\<rparr>,
       nd_throttles := fold (\<lambda>r T. if pt_throttled r \<and> live (pt_tenant_id r) then T(pt_tenant_id r := Some (state_of_record r)) else T)
         rs (nd_throttles n)\<rparr>) \<and>
     holds d TS (fold (\<lambda>r T. if pt_throttled r \<and> \<not> live (pt_tenant_id r) then T(pt_tenant_id r := None) else T) rs TT) TB \<and>
     store_frame view (db (nd_registry n)) d"
    using Cons.prems(1) by (intro Cons.IH) auto
  consider (calm) "\<not> pt_throttled r" | (live) "pt_throttled r" "live (pt_tenant_id r)" | (due) "pt_throttled r" "\<not> live (pt_tenant_id r)" by blast
  then show ?case
  proof cases
    case calm
    with IH [OF Cons.prems(2,3)] show ?thesis by (simp add: restore_throttle_def)
  next
    case live
    let ?n = "n\<lparr>nd_throttles := (nd_throttles n)(pt_tenant_id r \<mapsto> state_of_record r)\<rparr>"
    have "restore_throttle R (clk 0) inow r n = Done ?n"
      using live l pol by (simp add: restore_throttle_def state_of_record_def)
    with IH [of ?n TT] Cons.prems(2,3) live show ?thesis by simp
  next
    case due
    obtain d where d: "clear_throttle R (db (nd_registry n)) (pt_tenant_id r) = Some d"
      "holds d TS (TT(pt_tenant_id r := None)) TB" "store_frame view (db (nd_registry n)) d"
      using refines_tables(2) [OF Cons.prems(2)] by blast
    let ?n = "n\<lparr>nd_registry := (nd_registry n)\<lparr>db := d\<rparr>\<rparr>"
    have "restore_throttle R (clk 0) inow r n = Done ?n"
      using due l d(1) by (simp add: restore_throttle_def on_store_def)
    with IH [of ?n "TT(pt_tenant_id r := None)"] Cons.prems(3) d(2,3) due show ?thesis
      using frame_trans by fastforce
  qed
qed

lemma restore_effect:
  assumes h: "node_holds n TS TT TB" and key: "\<And>t r. TT t = Some r \<Longrightarrow> pt_tenant_id r = t"
    and live: "\<And>t r i. TT t = Some r \<Longrightarrow> pt_cooldown_until_ms r > clk i \<longleftrightarrow> live t"
    and empty: "sc_tenants (nd_scheduler n) = Map.empty" "nd_throttles n = Map.empty"
  shows "\<exists>d. restore_from_store R E clk inow n =
      Done (n\<lparr>nd_registry := (nd_registry n)\<lparr>db := d\<rparr>, nd_throttles := restored TT live\<rparr>) \<and>
    holds d TS (\<lambda>t. if \<exists>r. TT t = Some r \<and> pt_throttled r \<and> \<not> live t then None else TT t) TB \<and>
    store_frame view (db (nd_registry n)) d"
proof -
  obtain rs where rs: "load_all_throttles R E (db (nd_registry n)) = Some rs" "set rs = ran TT"
    by (rule load_throttles_effect [OF h])
  have mem: "r \<in> set rs \<longleftrightarrow> TT (pt_tenant_id r) = Some r" for r
    unfolding rs(2) ran_def using key by blast
  have l: "pt_cooldown_until_ms r > clk i \<longleftrightarrow> live (pt_tenant_id r)" if "r \<in> set rs" for r i
    using that mem live by blast
  have th: "fold (\<lambda>r T. if pt_throttled r \<and> live (pt_tenant_id r) then T(pt_tenant_id r := Some (state_of_record r)) else T)
      rs Map.empty = restored TT live"
  proof
    fix t
    show "fold (\<lambda>r T. if pt_throttled r \<and> live (pt_tenant_id r) then T(pt_tenant_id r := Some (state_of_record r)) else T)
      rs Map.empty t = restored TT live t"
      by (subst fold_updates [where ?r0.0 = "the (TT t)"]) (use mem key in \<open>auto simp: restored_def split: option.splits\<close>)
  qed
  have tt: "fold (\<lambda>r T. if pt_throttled r \<and> \<not> live (pt_tenant_id r) then T(pt_tenant_id r := None) else T) rs TT =
      (\<lambda>t. if \<exists>r. TT t = Some r \<and> pt_throttled r \<and> \<not> live t then None else TT t)"
  proof
    fix t
    show "fold (\<lambda>r T. if pt_throttled r \<and> \<not> live (pt_tenant_id r) then T(pt_tenant_id r := None) else T) rs TT t =
      (if \<exists>r. TT t = Some r \<and> pt_throttled r \<and> \<not> live t then None else TT t)"
      by (subst fold_updates [where ?r0.0 = "the (TT t)"]) (use mem key in auto)
  qed
  from restore_loop_effect [where rs = rs and clk = clk and inow = inow, OF l h empty(1)] rs(1) show ?thesis
    unfolding empty(2) th tt by (simp add: restore_from_store_def)
qed

end

end
