(* ===== verification/Rq_Start_Properties.thy ===== *)
theory Rq_Start_Properties
  imports Rq_Main Rq_Throttle_Properties
begin

text \<open>
  The start of the process: every persisted tenant is known to all components, and the throttles
  whose cooldown has not passed are remembered.
\<close>

section \<open>Registering the tenants found\<close>







section \<open>The start\<close>









text \<open>
  The policy a restored throttle reduced before the restart is in force in full: the throttles are
  restored while the scheduler is still empty, so the tenant is marked as throttled (above) but runs
  at its full rate.
\<close>

lemma restored_throttle_not_applied:
  "sc_tenants (nd_scheduler n) (pt_tenant_id p) = None \<Longrightarrow> restore_throttle R now inow p n = Done n' \<Longrightarrow> nd_scheduler n' = nd_scheduler n"
  by (auto simp: restore_throttle_def sched_policy_def on_store_def split: if_splits option.splits)

end
