(* ===== verification/Rq_Stats_Properties.thy ===== *)
theory Rq_Stats_Properties
  imports Rq_Runtime_Samples Rq_Baseline_Facts
begin

text \<open>
  The properties of the statistics collector and of the baselines: the collector over time, the
  totals it publishes, what an allocation of slots hands out, and what a promotion does to the
  spike threshold. The last section shows where the allocation departs from what it means to do.
\<close>

section \<open>The collector over time\<close>

text \<open>A record whose numbers are in the ranges the collector keeps.\<close>

definition persisted_ok :: "persisted_stats \<Rightarrow> bool" where
  "persisted_ok p \<longleftrightarrow> between 0 (2 ^ 65) (ps_arrival_rate p) \<and> between 0 (2 ^ 65) (ps_processing_rate p) \<and>
     between 0 (2 ^ 65) (ps_avg_task_latency p) \<and> between 0 (2 ^ 131) (ps_burst_score p) \<and> between 0 1 (ps_backlog_ratio p)"

inductive col_step :: "stats_collector \<Rightarrow> stats_collector \<Rightarrow> bool" where
  col_register: "col_step c (col_register now c t)"
| col_deregister: "col_step c (col_deregister c t)"
| col_enqueue: "col_step c (record_enqueue c t k)"
| col_ack: "col_step c (record_ack_count c t k latency)"
| col_nack: "col_step c (record_nack c t)"
| col_backlog: "p + i < 2 ^ 64 \<Longrightarrow> col_step c (record_backlog c t p i)"
| col_refresh: "col_step c (col_refresh c)"
| col_warm: "persisted_ok p \<Longrightarrow> col_step c (col_modify (warm_tenant p) c (ps_tenant_id p))"

inductive_cases col_stepE: "col_step c c'"

definition collector_config :: "stats_collector \<Rightarrow> f64 \<times> nat" where
  "collector_config c = (co_dormancy_threshold_secs c, co_min_guarantee_slots c)"

lemma config_modify [simp]: "collector_config (col_modify f c t) = collector_config c"
  by (simp add: collector_config_def col_modify_def split: option.splits)

lemma col_step_config: "col_step c c' \<Longrightarrow> collector_config c' = collector_config c"
  by (elim col_stepE)
    (simp_all add: record_enqueue_def record_ack_count_def record_nack_def record_backlog_def,
     simp_all add: collector_config_def col_register_def col_deregister_def col_refresh_def)

lemma ok_warm: "persisted_ok p \<Longrightarrow> collector_ok c \<Longrightarrow> collector_ok (col_modify (warm_tenant p) c t)"
  by (rule col_modify_ok) (simp_all add: warm_tenant_def stats_ok_def persisted_ok_def)

lemma col_step_ok: "col_step c c' \<Longrightarrow> collector_ok c \<Longrightarrow> collector_ok c'"
  by (elim col_stepE) (auto intro: ok_register ok_deregister ok_record ok_record_backlog ok_refresh ok_warm)

lemma col_reachable:
  assumes "col_step\<^sup>*\<^sup>* collector_new c"
  shows "collector_ok c" "collector_config c = (Fin 30, 5)"
  using assms
  by (induction rule: rtranclp_induct)
    (auto simp: col_step_config intro: ok_collector_new col_step_ok, simp add: collector_config_def collector_new_def)

text \<open>What is flushed can be warmed from, and stays in range when it decays.\<close>

lemma persisted_ok_record: "stats_ok s \<Longrightarrow> persisted_ok (stats_record now s)"
  by (simp add: persisted_ok_def stats_ok_def stats_record_def)

lemma persisted_ok_decay:
  assumes "persisted_ok r" and powf: "\<And>x. between 0 1 (powf E (Fin 2) (f64_neg (f64_div (f64_div (f64_of_nat x) (Fin 1000)) (Fin 60))))"
  shows "persisted_ok (decay_stats E now r)"
proof -
  let ?d = "powf E (Fin 2) (f64_neg (f64_div (f64_div (f64_of_nat (unat (saturating_sub now (ps_flushed_at_ms r)))) (Fin 1000)) (Fin 60)))"
  have d: "between 0 1 ?d" by (rule powf)
  have two: "f64_bound 2" by (rule bound_numeral) simp
  have "between 0 2 (f64_add ?d (Fin 1))" by (rule between_add [OF d, of 1 1]) (use two in auto)
  then have h: "between 0 1 (f64_div (f64_add ?d (Fin 1)) (Fin 2))"
    by (rule between_div_le [where c = 2 and d = 2]) auto
  have m: "between 0 b (f64_mul x y)" if "between 0 b x" "between 0 1 y" "f64_bound b" for b x y
    by (rule between_mul [OF that(1,2,3)]) simp
  show ?thesis
    using assms(1) m d h bound_power2 [of 65] bound_power2 [of 131]
    by (simp add: persisted_ok_def decay_stats_def Let_def)
qed

text \<open>
  C35. In every state the collector reaches, an entry is filed under its tenant and all its averages
  are finite numbers in range, whatever counts are recorded, however the 64-bit counters wrap
  and whatever valid record it was warmed from: no average is ever NaN, infinite or negative and
  the backlog ratio stays between zero and one.
\<close>

theorem collector_invariant:
  assumes "col_step\<^sup>*\<^sup>* collector_new c" and "co_tenants c t = Some s"
  shows "st_tenant_id (ss_stats s) = t \<and> between 0 (2 ^ 65) (arrival_rate (ss_stats s)) \<and>
    between 0 (2 ^ 65) (processing_rate (ss_stats s)) \<and> between 0 (2 ^ 65) (avg_task_latency (ss_stats s)) \<and>
    between 0 (2 ^ 131) (burst_score (ss_stats s)) \<and> between 0 1 (backlog_ratio (ss_stats s))"
  using collector_ok_get [OF col_reachable(1) [OF assms(1)] assms(2)] by (simp add: stats_ok_def)

definition sample_collector :: stats_collector where
  "sample_collector = col_refresh (record_enqueue (col_register 0 collector_new ''a'') ''a'' (- 1))"

lemma sample_collector_reachable: "col_step\<^sup>*\<^sup>* collector_new sample_collector"
proof -
  let ?c1 = "col_register 0 collector_new ''a''"
  let ?c2 = "record_enqueue ?c1 ''a'' (- 1)"
  have "col_step\<^sup>*\<^sup>* collector_new ?c1" by (rule r_into_rtranclp) (rule col_step.col_register)
  then have "col_step\<^sup>*\<^sup>* collector_new ?c2" by (rule rtranclp.rtrancl_into_rtrancl) (rule col_step.col_enqueue)
  then show ?thesis unfolding sample_collector_def by (rule rtranclp.rtrancl_into_rtrancl) (rule col_step.col_refresh)
qed

theorem collector_invariant_witness:
  "\<exists>s. co_tenants sample_collector ''a'' = Some s \<and> between 0 (2 ^ 65) (arrival_rate (ss_stats s)) \<and>
     total_enqueued (ss_stats s) = - 1"
proof -
  have "\<exists>s. co_tenants sample_collector ''a'' = Some s \<and> total_enqueued (ss_stats s) = - 1"
    by (simp add: sample_collector_def col_refresh_def record_enqueue_def col_modify_def col_register_def
        refresh_tenant_def Let_def tenant_counters_new_def)
  with collector_invariant [OF sample_collector_reachable, of "''a''"] show ?thesis by blast
qed

section \<open>Totals\<close>

text \<open>What happens to a collector between two looks at it; events of any tenants interleave.\<close>

datatype col_event = Enqueued string u64 | Acked string u64 nat | Nacked string | Refreshed

fun col_apply :: "col_event \<Rightarrow> stats_collector \<Rightarrow> stats_collector" where
  "col_apply (Enqueued t k) c = record_enqueue c t k"
| "col_apply (Acked t k latency) c = record_ack_count c t k latency"
| "col_apply (Nacked t) c = record_nack c t"
| "col_apply Refreshed c = col_refresh c"

fun event_counts :: "string \<Rightarrow> col_event \<Rightarrow> u64 \<times> u64 \<times> u64" where
  "event_counts t (Enqueued u k) = (if u = t then (k, 0, 0) else (0, 0, 0))"
| "event_counts t (Acked u k latency) = (if u = t then (0, k, 0) else (0, 0, 0))"
| "event_counts t (Nacked u) = (if u = t then (0, 0, 1) else (0, 0, 0))"
| "event_counts t Refreshed = (0, 0, 0)"

definition recorded :: "string \<Rightarrow> col_event list \<Rightarrow> u64 \<times> u64 \<times> u64" where
  "recorded t es =
     (sum_list (map (fst \<circ> event_counts t) es), sum_list (map (fst \<circ> snd \<circ> event_counts t) es),
      sum_list (map (snd \<circ> snd \<circ> event_counts t) es))"

definition add3 :: "u64 \<times> u64 \<times> u64 \<Rightarrow> u64 \<times> u64 \<times> u64 \<Rightarrow> u64 \<times> u64 \<times> u64" where
  "add3 x y = (fst x + fst y, fst (snd x) + fst (snd y), snd (snd x) + snd (snd y))"

lemma recorded_simps [simp]:
  "recorded t [] = (0, 0, 0)" "add3 x (recorded t (e # es)) = add3 (add3 x (event_counts t e)) (recorded t es)"
  "add3 x (0, 0, 0) = x" "add3 (0, 0, 0) x = x"
  by (simp_all add: recorded_def add3_def add.assoc)

lemma col_apply_counted:
  assumes "co_tenants c t = Some s"
  shows "\<exists>s'. co_tenants (col_apply e c) t = Some s' \<and> counted s' = add3 (counted s) (event_counts t e)"
proof (cases e)
  case Refreshed
  with assms refresh_publishes(2) show ?thesis by (simp add: col_refresh_def)
qed (use assms in \<open>auto simp: record_enqueue_def record_ack_count_def record_nack_def col_modify_def counted_def add3_def
    split: option.splits\<close>)

lemma fold_counted:
  "co_tenants c t = Some s \<Longrightarrow> \<exists>s'. co_tenants (fold col_apply es c) t = Some s' \<and> counted s' = add3 (counted s) (recorded t es)"
proof (induction es arbitrary: c s)
  case (Cons e es)
  from col_apply_counted [OF Cons.prems, of e] obtain s1 where
    s1: "co_tenants (col_apply e c) t = Some s1" "counted s1 = add3 (counted s) (event_counts t e)" by blast
  from Cons.IH [OF s1(1)] s1(2) show ?case by simp
qed simp

text \<open>
  C16. No event is lost and none is counted twice: after a tenant is registered, any sequence of
  enqueues, acknowledgements, negative acknowledgements and refreshes, of this and of other tenants,
  followed by a refresh publishes exactly the sums of what was recorded for the tenant (as 64-bit
  numbers), although each refresh swaps the cycle counters to zero.
\<close>

theorem totals_exact:
  "\<exists>s. co_tenants (col_refresh (fold col_apply es (col_register now c t))) t = Some s \<and>
     (total_enqueued (ss_stats s), total_acked (ss_stats s), total_nacked (ss_stats s)) = recorded t es"
proof -
  have "\<exists>s. co_tenants (col_register now c t) t = Some s \<and> counted s = (0, 0, 0)"
    by (simp add: col_register_def counted_def tenant_counters_new_def)
  then obtain s where s: "co_tenants (fold col_apply es (col_register now c t)) t = Some s" "counted s = recorded t es"
    using fold_counted by (metis recorded_simps(4))
  then have "published (refresh_tenant (co_alpha (fold col_apply es (col_register now c t))) s) = recorded t es"
    using refresh_publishes(1) by simp
  with s(1) show ?thesis by (simp add: col_refresh_def published_def)
qed

section \<open>Allocation of slots\<close>



section \<open>Promotions of a baseline\<close>

text \<open>
  C37. An update of a baseline by a nonnegative rate: the rolling peak is at least every rate of the
  last five minutes, the current one included; no more than twenty promotions are kept; a
  promotion reports the old and the new threshold, is the last one remembered and strictly raises
  the threshold; without one the threshold stays as it was; other tenants are not touched.
\<close>

theorem baseline_promotion_raises:
  assumes "bs t = Some b" and "baseline_ok b" and "score_ok rate" and "bl_update now bs t rate = (p, bs')"
  shows "\<exists>b'. bs' = bs(t \<mapsto> b') \<and> baseline_ok b' \<and> length (bl_promotions b') \<le> 20 \<and>
    bl_peak_window b' = filter (\<lambda>(ts, r). ts \<ge> saturating_sub now (5 * 60 * 1000)) (bl_peak_window b @ [(now, rate)]) \<and>
    (\<forall>(ts, r) \<in> set (bl_peak_window b'). \<not> f64_less (bl_rolling_peak b') r) \<and>
    (case p of
       None \<Rightarrow> bl_spike_threshold b' = bl_spike_threshold b \<and> bl_promotions b' = bl_promotions b
     | Some q \<Rightarrow> bp_old_threshold q = bl_spike_threshold b \<and> bp_new_threshold q = bl_spike_threshold b' \<and>
         f64_less (bl_spike_threshold b) (bl_spike_threshold b') \<and> bl_promotions b' \<noteq> [] \<and> last (bl_promotions b') = q)"
proof -
  let ?sa = "f64_of_rat (2 / 10)" and ?la = "f64_of_rat (1 / 100)"
  obtain b' where u: "baseline_update now b rate ?sa ?la (Fin 3) = (p, b')" and bs': "bs' = bs(t \<mapsto> b')"
    using assms(1,4) by (auto simp: bl_update_def split: prod.splits)
  note spec = baseline_update_spec [OF assms(2,3) u]
  have same: "bl_peak_window b' = bl_peak_window (baseline_observe now b rate ?sa ?la)"
    "bl_rolling_peak b' = bl_rolling_peak (baseline_observe now b rate ?sa ?la)"
    using u by (auto simp: baseline_update_def Let_def split: prod.splits if_splits)
  have "\<forall>(ts, r) \<in> set (bl_peak_window b'). \<not> f64_less (bl_rolling_peak b') r"
    unfolding same using observe_peak [OF assms(2,3)] by blast
  moreover have "bl_peak_window b' = filter (\<lambda>(ts, r). ts \<ge> saturating_sub now (5 * 60 * 1000)) (bl_peak_window b @ [(now, rate)])"
    unfolding same observe_window WINDOW_MS_def ..
  moreover have "length (bl_promotions b') \<le> 20" using spec(1) by (simp add: baseline_ok_def)
  moreover have "case p of
       None \<Rightarrow> bl_spike_threshold b' = bl_spike_threshold b \<and> bl_promotions b' = bl_promotions b
     | Some q \<Rightarrow> bp_old_threshold q = bl_spike_threshold b \<and> bp_new_threshold q = bl_spike_threshold b' \<and>
         f64_less (bl_spike_threshold b) (bl_spike_threshold b') \<and> bl_promotions b' \<noteq> [] \<and> last (bl_promotions b') = q"
    using spec(3,4) by (simp split: option.splits)
  ultimately show ?thesis using bs' spec(1) by blast
qed

theorem baseline_promotion_raises_witness:
  "\<exists>p b'. bl_update 5 (Map.empty(''a'' \<mapsto> tenant_baseline_new 0 ''a'' (Fin 0))) ''a'' (Fin 7) = (p, Map.empty(''a'' \<mapsto> b')) \<and>
     bl_peak_window b' = [(5, Fin 7)] \<and> \<not> f64_less (bl_rolling_peak b') (Fin 7)"
proof -
  let ?b = "tenant_baseline_new 0 ''a'' (Fin 0)" and ?bs = "Map.empty(''a'' \<mapsto> tenant_baseline_new 0 ''a'' (Fin 0))"
  obtain p bs' where u: "bl_update 5 ?bs ''a'' (Fin 7) = (p, bs')" by fastforce
  have "baseline_ok ?b" by (rule baseline_new_ok) (simp add: score_ok_def)
  moreover have "score_ok (Fin 7)" by (simp add: score_ok_def bound_numeral)
  ultimately obtain b' where b': "bs' = ?bs(''a'' \<mapsto> b')"
    "bl_peak_window b' = filter (\<lambda>(ts, r). ts \<ge> saturating_sub 5 (5 * 60 * 1000)) (bl_peak_window ?b @ [(5, Fin 7)])"
    "\<forall>(ts, r) \<in> set (bl_peak_window b'). \<not> f64_less (bl_rolling_peak b') r"
    using baseline_promotion_raises [OF _ _ _ u, of ?b] by auto
  from b'(2) have w: "bl_peak_window b' = [(5, Fin 7)]"
    by (simp add: tenant_baseline_new_def Let_def saturating_sub_def)
  with b'(1,3) u show ?thesis by auto
qed

section \<open>Where the allocation departs from its budget\<close>

text \<open>
  \<open>guaranteed_budget\<close> is capped at the number of slots, but every guaranteed tenant gets its five
  slots: with one slot and two new tenants ten slots are handed out.
\<close>

lemma guarantee_exceeds_total:
  "allocate_slots [''a'', ''b''] (\<lambda>_. 0) (\<lambda>_. 0) (col_register 0 (col_register 0 collector_new ''a'') ''b'') 1 =
     [(''a'', 5), (''b'', 5)]"
  by (simp add: allocate_slots_def col_all_snapshots_def map_filter_simps col_register_def fresh_stats_def
      collector_new_def Let_def)

text \<open>
  No operation moves \<open>last_enqueue_at\<close>: a tenant counts as dormant 31 seconds after its
  registration, however busy it is, and from then on gets the guarantee instead of its share.
\<close>

lemma activity_not_recorded:
  assumes "co_tenants c t = Some s"
  shows "\<exists>s'. co_tenants (col_apply e c) t = Some s' \<and> last_enqueue_at (ss_stats s') = last_enqueue_at (ss_stats s)"
  using assms by (cases e) (auto simp: record_enqueue_def record_ack_count_def record_nack_def col_modify_def
      col_refresh_def refresh_tenant_def Let_def split: option.splits)

lemma busy_tenant_dormant:
  assumes "co_tenants (fold col_apply es (col_register now c t)) t = Some s" "now + 31 * 10 ^ 9 \<le> later"
    and "co_dormancy_threshold_secs (fold col_apply es (col_register now c t)) = Fin 30"
  shows "dormant (fold col_apply es (col_register now c t)) later (ss_stats s)"
proof -
  have "\<exists>s'. co_tenants (fold col_apply es d) t = Some s' \<and> last_enqueue_at (ss_stats s') = now"
    if "co_tenants d t = Some s0" "last_enqueue_at (ss_stats s0) = now" for d s0
    using that
  proof (induction es arbitrary: d s0)
    case (Cons e es)
    from activity_not_recorded [OF Cons.prems(1), of e] Cons.prems(2) obtain s1 where
      "co_tenants (col_apply e d) t = Some s1" "last_enqueue_at (ss_stats s1) = now" by auto
    from Cons.IH [OF this] show ?case by simp
  qed simp
  from this [of "col_register now c t"] assms(1) have "last_enqueue_at (ss_stats s) = now"
    by (simp add: col_register_def fresh_stats_def)
  with assms(2,3) show ?thesis by (intro dormant_after) simp_all
qed

text \<open>Totals warmed from the store last until the next refresh, which publishes the counters.\<close>

lemma warmed_totals_lost:
  assumes "co_tenants c t = Some s" "ss_counters s = tenant_counters_new"
  shows "\<exists>s'. co_tenants (col_refresh (col_modify (warm_tenant p) c t)) t = Some s' \<and> total_enqueued (ss_stats s') = 0"
  using assms by (simp add: col_modify_def col_refresh_def refresh_tenant_def warm_tenant_def Let_def tenant_counters_new_def)

end
