(* ===== verification/Rq_Worker_Properties.thy ===== *)
theory Rq_Worker_Properties
  imports Rq_Daemon Rq_Contracts Rq_Samples Rq_Stats_Properties Rq_Throttle_Properties
begin

text \<open>
  The worker pool: what becomes of the tasks a worker takes from a queue. The first section holds
  what consumers share, the workers here and the clients of the control plane: the keys handed out
  are fresh in flight, so settling them leaves in flight what was there before.
\<close>

section \<open>Keys handed out\<close>

lemma distinct_delivered: "distinct (map fst (delivered C dl (consumed C n (entries P q))))"
proof -
  have "distinct (map fst (consumed C n (entries P q)))"
    using distinct_entries [of P q] map_mono_prefix [OF prefix_consumed [of C n "entries P q"], of fst]
    by (metis distinct_append prefix_def)
  then show ?thesis unfolding fst_delivered by (rule distinct_map_filter)
qed

lemma delivered_pending:
  assumes "finite (dom P)" "k \<in> fst ` set (delivered C dl (consumed C n (entries P q)))"
  shows "k \<in> dom P"
proof -
  have "k \<in> set (map fst (delivered C dl (consumed C n (entries P q))))" using assms(2) by simp
  then have "k \<in> fst ` set (consumed C n (entries P q))" unfolding fst_delivered by auto
  with set_consumed [of C n "entries P q"] fst_set_entries [OF assms(1), of q] show ?thesis by blast
qed

lemma stored_dom: "dom (stored C xs) = fst ` set xs"
  by (auto simp: stored_def enc_all_def dom_map_of_conv_image_fst image_image case_prod_beta)

lemma settle_all:
  assumes "dom I \<inter> fst ` set xs = {}"
  shows "(I ++ stored C xs) |` (- fst ` set xs) = I"
proof
  fix k
  show "((I ++ stored C xs) |` (- fst ` set xs)) k = I k"
  proof (cases "k \<in> fst ` set xs")
    case True
    with assms have "k \<notin> dom I" by blast
    with True show ?thesis by (simp add: domIff)
  next
    case False
    then have "stored C xs k = None" using stored_dom [of C xs] by blast
    with False show ?thesis by (simp add: map_add_def)
  qed
qed

context reliable_env
begin

lemma delivered_fresh:
  assumes "tenant_at (view (db g)) t P I D" "tenant_inv C n P I D"
  shows "dom I \<inter> fst ` set (delivered C dl (consumed C m (entries P q))) = {}"
  using delivered_pending env.tenant_finite [OF assms(1)] assms(2) by (fastforce simp: tenant_inv_def disjoint3_def)

lemma ack_one:
  assumes "tenant_at (view (db g)) t P I D" "k \<in> dom I"
  shows "\<exists>g'. ack R g t k = (Inr True, g') \<and> tenant_at (view (db g')) t P (I |` (- {k})) D"
  using ack_contract [OF assms(1), of "[k]"] assms(2) by (auto simp: ack_def bind_op_def)

lemma nack_one:
  assumes "tenant_at (view (db g)) t P I D" "k \<in> dom I"
  shows "\<exists>g' P' D'. nack R C now g t k = (Inr (), g') \<and> tenant_at (view (db g')) t P' (I |` (- {k})) D'"
proof -
  have "I(k := None) = I |` (- {k})" by (auto simp: restrict_map_def)
  with nack_contract [OF assms(1), of now k] assms(2) show ?thesis
    by (auto simp: nack_fate_of_def split: nack_fate.splits sum.splits if_splits) blast+
qed

end

section \<open>Workers\<close>

text \<open>What a worker records of a task: an acknowledgement, or a negative one when the handler failed.\<close>

definition task_event :: "handler \<Rightarrow> (bytes \<Rightarrow> nat) \<Rightarrow> string \<Rightarrow> bytes \<times> task \<Rightarrow> col_event" where
  "task_event handler latency t kx = (case handler t (snd kx) of Inr _ \<Rightarrow> Acked t 1 (latency (fst kx)) | Inl _ \<Rightarrow> Nacked t)"

context reliable_env
begin

lemma process_task_effect:
  assumes "tenant_at (view (db (nd_registry n))) t P I D" "k \<in> dom I"
    and n': "n' = process_task R C handler latency now n t k x"
  shows "\<exists>P' D'. tenant_at (view (db (nd_registry n'))) t P' (I |` (- {k})) D' \<and>
    (handler t x = Inr () \<longrightarrow> P' = P \<and> D' = D) \<and>
    nd_collector n' = col_apply (task_event handler (\<lambda>_. latency) t (k, x)) (nd_collector n) \<and>
    nd_scheduler n' = nd_scheduler n \<and> nd_throttles n' = nd_throttles n \<and> nd_baselines n' = nd_baselines n"
proof (cases "handler t x")
  case (Inl e)
  from nack_one [OF assms(1,2), of now] obtain g' P' D' where
    "nack R C now (nd_registry n) t k = (Inr (), g')" "tenant_at (view (db g')) t P' (I |` (- {k})) D'" by blast
  with Inl show ?thesis by (intro exI [of _ P'] exI [of _ D']) (simp add: n' process_task_def task_event_def)
next
  case (Inr u)
  then have ok: "handler t x = Inr ()" by (cases u) simp
  from ack_one [OF assms(1,2)] obtain g' where g':
    "ack R (nd_registry n) t k = (Inr True, g')" "tenant_at (view (db g')) t P (I |` (- {k})) D" by blast
  then have eq: "n' = n\<lparr>nd_registry := g', nd_collector := record_ack (nd_collector n) t latency\<rparr>"
    unfolding n' process_task_def ok sum.case old.unit.case by simp
  have "tenant_at (view (db (nd_registry n'))) t P (I |` (- {k})) D" "nd_scheduler n' = nd_scheduler n"
    "nd_throttles n' = nd_throttles n" "nd_baselines n' = nd_baselines n"
    using g' unfolding eq by simp_all
  moreover have "nd_collector n' = col_apply (task_event handler (\<lambda>_. latency) t (k, x)) (nd_collector n)"
    unfolding eq by (simp add: task_event_def ok record_ack_def)
  ultimately show ?thesis by blast
qed

lemma process_tasks_effect:
  "tenant_at (view (db (nd_registry n))) t P I D \<Longrightarrow> distinct (map fst xs) \<Longrightarrow> fst ` set xs \<subseteq> dom I \<Longrightarrow>
   \<exists>P' D'. tenant_at (view (db (nd_registry (process_tasks R C handler latency now t xs n)))) t P' (I |` (- fst ` set xs)) D' \<and>
    ((\<forall>(k, x) \<in> set xs. handler t x = Inr ()) \<longrightarrow> P' = P \<and> D' = D) \<and>
    nd_collector (process_tasks R C handler latency now t xs n) = fold col_apply (map (task_event handler latency t) xs) (nd_collector n) \<and>
    nd_scheduler (process_tasks R C handler latency now t xs n) = nd_scheduler n"
proof (induction xs arbitrary: n P I D)
  case (Cons kx xs)
  obtain k x where kx: "kx = (k, x)" by fastforce
  let ?n = "process_task R C handler (latency k) (now k) n t k x"
  from process_task_effect [OF Cons.prems(1) _ refl, of k handler "latency k" "now k" x] Cons.prems(3) kx obtain P1 D1 where
    1: "tenant_at (view (db (nd_registry ?n))) t P1 (I |` (- {k})) D1" "handler t x = Inr () \<longrightarrow> P1 = P \<and> D1 = D"
    "nd_collector ?n = col_apply (task_event handler (\<lambda>_. latency k) t (k, x)) (nd_collector n)" "nd_scheduler ?n = nd_scheduler n"
    by auto
  have sub: "fst ` set xs \<subseteq> dom (I |` (- {k}))" using Cons.prems(2,3) kx by auto
  have rest: "I |` (- {k}) |` (- fst ` set xs) = I |` (- fst ` set (kx # xs))" using kx by (simp add: Compl_insert [symmetric] Diff_eq Compl_Un [symmetric])
  have ev: "task_event handler (\<lambda>_. latency k) t (k, x) = task_event handler latency t (k, x)"
    by (simp add: task_event_def split: sum.splits)
  have dist: "distinct (map fst xs)" using Cons.prems(2) by simp
  from Cons.IH [OF 1(1) dist sub] obtain P2 D2 where
    2: "tenant_at (view (db (nd_registry (process_tasks R C handler latency now t xs ?n)))) t P2 (I |` (- fst ` set (kx # xs))) D2"
    "(\<forall>(k, x) \<in> set xs. handler t x = Inr ()) \<longrightarrow> P2 = P1 \<and> D2 = D1"
    "nd_collector (process_tasks R C handler latency now t xs ?n) = fold col_apply (map (task_event handler latency t) xs) (nd_collector ?n)"
    "nd_scheduler (process_tasks R C handler latency now t xs ?n) = nd_scheduler ?n"
    unfolding rest by blast
  have "process_tasks R C handler latency now t (kx # xs) n = process_tasks R C handler latency now t xs ?n" using kx by simp
  moreover have "(\<forall>(k, x) \<in> set (kx # xs). handler t x = Inr ()) \<longrightarrow> P2 = P \<and> D2 = D" using 1(2) 2(2) kx by simp
  moreover have "fold col_apply (map (task_event handler latency t) xs) (nd_collector ?n) =
      fold col_apply (map (task_event handler latency t) (kx # xs)) (nd_collector n)"
    unfolding 1(3) ev using kx by simp
  ultimately show ?case using 1(4) 2(1,3,4) by metis
qed auto

end

text \<open>
  C11. A worker that takes tasks from a queue settles every one of them: it hands out the oldest
  readable tasks of the queue, at most as many as it has slots, runs the handler on each, and
  afterwards exactly the tasks that were in flight before are in flight; the collector has recorded
  one acknowledgement per success and one negative acknowledgement per failure, in that order.
  When all handlers succeed the tasks are gone from the queue and nothing else has changed.
\<close>

theorem worker_settles:
  assumes "reliable_env R view C" and "tenant_at (view (db (nd_registry n))) t P I D"
    and "tenant_inv C (unat (seq (nd_registry n))) P I D"
  shows "let ys = consumed C slots (entries P q);
      out = delivered C (saturating_add (clk 0) DEFAULT_VISIBILITY_TIMEOUT_MS) ys;
      n' = work_queue R C handler latency now clk slots t q n
    in \<exists>P' D'. tenant_at (view (db (nd_registry n'))) t P' I D' \<and> length out \<le> slots \<and>
      nd_collector n' = fold col_apply (map (task_event handler latency t) out) (nd_collector n) \<and>
      nd_scheduler n' = nd_scheduler n \<and>
      ((\<forall>(k, x) \<in> set out. handler t x = Inr ()) \<longrightarrow>
         P' = P |` (- fst ` set ys) \<and> D' = D ++ stored C (envelopes C q clk 0 ys))"
proof -
  let ?ys = "consumed C slots (entries P q)"
  let ?out = "delivered C (saturating_add (clk 0) DEFAULT_VISIBILITY_TIMEOUT_MS) ?ys"
  note env = assms(1)
  obtain g where g: "dequeue R C clk (nd_registry n) t q slots = (Inr ?out, g)"
    "tenant_at (view (db g)) t (P |` (- fst ` set ?ys)) (I ++ stored C ?out) (D ++ stored C (envelopes C q clk 0 ?ys))"
    using reliable_env.dequeue_contract [OF env assms(2), of clk q slots DEFAULT_VISIBILITY_TIMEOUT_MS] unfolding dequeue_def by blast
  let ?n = "n\<lparr>nd_registry := g\<rparr>"
  have T: "tenant_at (view (db (nd_registry ?n))) t (P |` (- fst ` set ?ys)) (I ++ stored C ?out) (D ++ stored C (envelopes C q clk 0 ?ys))"
    using g(2) by simp
  have sel: "nd_collector ?n = nd_collector n" "nd_scheduler ?n = nd_scheduler n" by simp_all
  have sub: "fst ` set ?out \<subseteq> dom (I ++ stored C ?out)" by (simp add: stored_dom)
  note settled = settle_all [OF reliable_env.delivered_fresh [OF env assms(2,3)], of C]
  from reliable_env.process_tasks_effect [OF env T distinct_delivered sub, of handler latency now] obtain P' D' where
    "tenant_at (view (db (nd_registry (process_tasks R C handler latency now t ?out ?n)))) t P' I D'"
    "(\<forall>(k, x) \<in> set ?out. handler t x = Inr ()) \<longrightarrow> P' = P |` (- fst ` set ?ys) \<and> D' = D ++ stored C (envelopes C q clk 0 ?ys)"
    "nd_collector (process_tasks R C handler latency now t ?out ?n) = fold col_apply (map (task_event handler latency t) ?out) (nd_collector n)"
    "nd_scheduler (process_tasks R C handler latency now t ?out ?n) = nd_scheduler n"
    unfolding settled sel by blast
  moreover have eq: "work_queue R C handler latency now clk slots t q n = process_tasks R C handler latency now t ?out ?n"
    using g(1) by (simp add: work_queue_def)
  ultimately show ?thesis
    unfolding Let_def eq using length_delivered_consumed by blast
qed

theorem worker_settles_witness:
  "\<exists>P' D'. tenant_at (mem_view (db (nd_registry (work_queue mem_rocksdb ref_task_codec (\<lambda>t x. Inr ()) (\<lambda>_. 0) (\<lambda>_. 0) (\<lambda>_. 100) 2
       ''t'' ''q'' sample_node)))) ''t'' P' (map_of sample_inflight) D' \<and> P' (encode_key ''q'' 1) = None"
proof -
  have T: "tenant_at (mem_view (db (nd_registry sample_node))) ''t'' (map_of sample_pending) (map_of sample_inflight) (map_of sample_dlq)"
    using sample_tenant by (simp add: sample_node_def)
  have inv: "tenant_inv ref_task_codec (unat (seq (nd_registry sample_node))) (map_of sample_pending) (map_of sample_inflight) (map_of sample_dlq)"
    using sample_tenant_inv by (simp add: sample_node_def)
  have "encode_key ''q'' 1 \<in> fst ` set (consumed ref_task_codec 2 (entries (map_of sample_pending) ''q''))"
    unfolding sample_entries by (simp add: sample_pending_def)
  moreover obtain P' D' where
    "tenant_at (mem_view (db (nd_registry (work_queue mem_rocksdb ref_task_codec (\<lambda>t x. Inr ()) (\<lambda>_. 0) (\<lambda>_. 0) (\<lambda>_. 100) 2
       ''t'' ''q'' sample_node)))) ''t'' P' (map_of sample_inflight) D'"
    "P' = map_of sample_pending |` (- fst ` set (consumed ref_task_codec 2 (entries (map_of sample_pending) ''q'')))"
    using worker_settles [OF ref.reliable_env_axioms T inv, where slots = 2 and q = "''q''" and clk = "\<lambda>_. 100"
        and handler = "\<lambda>t x. Inr ()" and latency = "\<lambda>_. 0" and now = "\<lambda>_. 0"]
    unfolding Let_def by fastforce
  moreover from calculation have "P' (encode_key ''q'' 1) = None" by simp
  ultimately show ?thesis by blast
qed

end
