(* ===== verification/Rq_Control_Properties.thy ===== *)
theory Rq_Control_Properties
  imports Rq_Admin Rq_Worker_Properties
begin

text \<open>
  The control plane: a consumer's session over gRPC, what a request that is refused leaves behind,
  and draining a tenant.
\<close>

section \<open>A consumer's session\<close>

text \<open>
  C20. A session over the control plane. A dequeue request hands out the oldest readable tasks of the
  queue (the queue \<open>default\<close> if none is named), as many as asked for (500 if none), but never
  more than the tenant's inflight limit leaves room for; they are then in flight. Sending back the
  acknowledgement keys of the response acknowledges exactly these tasks: the reply counts
  them, what was in flight before is in flight again, and the collector records that many acks.
\<close>

theorem consumer_session:
  assumes "reliable_env R view C" and "hex_law H"
    and "tenant_at (view (db (nd_registry n))) t P I D" and "tenant_inv C (unat (seq (nd_registry n))) P I D"
    and "policies (nd_registry n) t = Some p"
  shows "let q = (if queue = [] then ''default'' else queue);
      ys = consumed C (min (if limit = 0 then 500 else unat limit) (np_max_inflight p - qcount I q)) (entries P q);
      out = delivered C (saturating_add (clk 0) 60000) ys
    in \<exists>n1. rpc_dequeue_tasks R C H clk t queue limit n = (Inr (t, q, map (dequeued_task_of H) out), n1) \<and>
      tenant_at (view (db (nd_registry n1))) t (P |` (- fst ` set ys)) (I ++ stored C out) (D ++ stored C (envelopes C q clk 0 ys)) \<and>
      (out \<noteq> [] \<longrightarrow> (\<exists>n2. rpc_ack_batch R H t (map (dt_ack_key \<circ> dequeued_task_of H) out) n1 =
          (Inr \<lparr>tr_tenant_id = t, tr_success = True, tr_message = ''acked '' @ show_nat (length out)\<rparr>, n2) \<and>
        tenant_at (view (db (nd_registry n2))) t (P |` (- fst ` set ys)) I (D ++ stored C (envelopes C q clk 0 ys)) \<and>
        nd_collector n2 = record_ack_count (nd_collector n) t (word_of_nat (length out)) 0))"
proof -
  define q where "q = (if queue = [] then ''default'' else queue)"
  define k where "k = (if limit = 0 then 500 else unat limit)"
  define ys where "ys = consumed C (min k (np_max_inflight p - qcount I q)) (entries P q)"
  define out where "out = delivered C (saturating_add (clk 0) 60000) ys"
  note env = assms(1)
  obtain g1 where g1: "dequeue_with_max_inflight R C clk (nd_registry n) t q k 60000 (np_max_inflight p) = (Inr out, g1)"
    "tenant_at (view (db g1)) t (P |` (- fst ` set ys)) (I ++ stored C out) (D ++ stored C (envelopes C q clk 0 ys))"
    using reliable_env.dequeue_capped_exact [where clk = clk, OF env assms(3) ys_def out_def] by blast
  let ?n1 = "n\<lparr>nd_registry := g1\<rparr>"
  have args: "queue_or_default queue = q" "(if limit = 0 then DEFAULT_DEQUEUE_LIMIT else unat limit) = k"
    by (simp_all add: queue_or_default_def q_def k_def DEFAULT_DEQUEUE_LIMIT_def)
  have deq: "rpc_dequeue_tasks R C H clk t queue limit n = (Inr (t, q, map (dequeued_task_of H) out), ?n1)"
    unfolding rpc_dequeue_tasks_def Let_def args get_policy_def assms(5) option.case g1(1) bind_reply_def offload_def by simp
  have dist: "distinct (map fst out)" unfolding out_def ys_def by (rule distinct_delivered)
  have fresh: "dom I \<inter> fst ` set out = {}"
    unfolding out_def ys_def by (rule reliable_env.delivered_fresh [OF env assms(3,4)])
  have "card (set (map fst out) \<inter> dom (I ++ stored C out)) = length out"
    using distinct_card [OF dist] by (simp add: stored_dom Int_absorb2)
  then obtain g2 where g2: "ack_batch R g1 t (map fst out) = (Inr (length out), g2)"
    "tenant_at (view (db g2)) t (P |` (- fst ` set ys)) I (D ++ stored C (envelopes C q clk 0 ys))"
    using reliable_env.ack_contract [OF env g1(2), of "map fst out"] settle_all [OF fresh, of C] by auto
  have keys: "map (dt_ack_key \<circ> dequeued_task_of H) out = map (hex_encode H) (map fst out)"
    by (simp add: dequeued_task_of_def case_prod_beta)
  have ack: "rpc_ack_batch R H t (map (dt_ack_key \<circ> dequeued_task_of H) out) ?n1 =
      (Inr \<lparr>tr_tenant_id = t, tr_success = True, tr_message = ''acked '' @ show_nat (length out)\<rparr>,
       ?n1\<lparr>nd_registry := g2, nd_collector := record_ack_count (nd_collector n) t (word_of_nat (length out)) 0\<rparr>)"
    if "out \<noteq> []"
    unfolding keys using that g2(1) hex_law.decode_encoded_list [OF assms(2), of "map fst out"]
    by (simp add: rpc_ack_batch_def bind_reply_def offload_def)
  have sel: "nd_registry ?n1 = g1" by simp
  show ?thesis
    unfolding Let_def q_def [symmetric] k_def [symmetric] ys_def [symmetric] out_def [symmetric]
    using deq g1(2) ack g2(2) by (intro exI [of _ ?n1]) auto
qed

theorem consumer_session_witness:
  "\<exists>n1 ts n2. rpc_dequeue_tasks mem_rocksdb ref_task_codec ref_hex (\<lambda>_. 100) ''t'' ''q'' 2 sample_node = (Inr (''t'', ''q'', ts), n1) \<and>
     length ts = 2 \<and> rpc_ack_batch mem_rocksdb ref_hex ''t'' (map dt_ack_key ts) n1 =
       (Inr \<lparr>tr_tenant_id = ''t'', tr_success = True, tr_message = ''acked 2''\<rparr>, n2)"
proof -
  have T: "tenant_at (mem_view (db (nd_registry sample_node))) ''t'' (map_of sample_pending) (map_of sample_inflight) (map_of sample_dlq)"
    using sample_tenant by (simp add: sample_node_def)
  have inv: "tenant_inv ref_task_codec (unat (seq (nd_registry sample_node))) (map_of sample_pending) (map_of sample_inflight) (map_of sample_dlq)"
    using sample_tenant_inv by (simp add: sample_node_def)
  have p: "policies (nd_registry sample_node) ''t'' = Some (standard_policy ''t'')" by (simp add: sample_node_def)
  let ?ys = "consumed ref_task_codec (min 2 (500 - 1)) (entries (map_of sample_pending) ''q'')"
  let ?out = "delivered ref_task_codec (saturating_add 100 60000) ?ys"
  have len: "length ?out = 2"
    unfolding sample_entries by (simp add: sample_pending_def corrupt_def Let_def)
  then have ne: "?out \<noteq> []" by auto
  have "np_max_inflight (standard_policy ''t'') = 500" by (simp add: standard_policy_def)
  with consumer_session [OF ref.reliable_env_axioms ref_hex.hex_law_axioms T inv p, where queue = "''q''" and limit = 2 and clk = "\<lambda>_. 100"] ne
  obtain n1 n2 where "rpc_dequeue_tasks mem_rocksdb ref_task_codec ref_hex (\<lambda>_. 100) ''t'' ''q'' 2 sample_node =
      (Inr (''t'', ''q'', map (dequeued_task_of ref_hex) ?out), n1)"
    "rpc_ack_batch mem_rocksdb ref_hex ''t'' (map (dt_ack_key \<circ> dequeued_task_of ref_hex) ?out) n1 =
      (Inr \<lparr>tr_tenant_id = ''t'', tr_success = True, tr_message = ''acked '' @ show_nat (length ?out)\<rparr>, n2)"
    by (auto simp: Let_def sample_counts)
  moreover have "show_nat 2 = ''2''" by code_simp
  moreover have "map (dt_ack_key \<circ> dequeued_task_of ref_hex) ?out = map dt_ack_key (map (dequeued_task_of ref_hex) ?out)" by simp
  ultimately show ?thesis using len by (metis append.simps length_map)
qed

section \<open>Requests that are refused\<close>







section \<open>Draining\<close>

text \<open>What the answer to a drain request says of the queue at the moment it is given.\<close>

definition drain_answer :: "'db rocksdb \<Rightarrow> string \<Rightarrow> string \<Rightarrow> status + drain_response \<Rightarrow> 'db node \<Rightarrow> bool" where
  "drain_answer R t q r n \<longleftrightarrow> (case depth R (nd_registry n) t q of
       Inl x \<Rightarrow> r = Inl (queue_error_status x)
     | Inr (p, i, l) \<Rightarrow> r = Inr \<lparr>dr_tenant_id = t, dr_drained = (p = 0 \<and> i = 0), dr_remaining = word_of_nat (p + i)\<rparr>)"

lemma drain_wait_returns:
  assumes "i \<le> k" and "clk k \<ge> dl"
  shows "\<exists>r n'. drain_wait R clk env i dl t q n = Some (r, n') \<and> drain_answer R t q r n'"
  using assms(1)
proof (induction "k - i" arbitrary: i n)
  case 0
  with assms(2) have "clk i \<ge> dl" by simp
  then show ?case
    by (subst drain_wait.simps) (auto simp: drain_answer_def split: sum.splits)
next
  case (Suc m)
  then have "Suc i \<le> k" "m = k - Suc i" by auto
  with Suc.hyps(1) have "\<exists>r n'. drain_wait R clk env (Suc i) dl t q (env i n) = Some (r, n') \<and> drain_answer R t q r n'" by blast
  then show ?case
    by (subst drain_wait.simps) (auto simp: drain_answer_def split: sum.splits)
qed

text \<open>
  C22. A request to drain a tenant returns, whatever the rest of the process does meanwhile, once the
  clock has passed the deadline at some poll; and the answer is true when it is given: it says
  drained exactly when nothing of the queue is pending or in flight, and the number that remains
  otherwise.
\<close>

theorem drain_returns:
  assumes "start + unat (max timeout_secs 1) * 10 ^ 9 \<le> clk k" and "start + unat (max timeout_secs 1) * 10 ^ 9 < 2 ^ 63 * 10 ^ 9"
  shows "\<exists>r n'. rpc_drain_tenant R clk env start queues t timeout_secs n = Some (r, n') \<and>
    (case depth R (nd_registry n') t (case queues of [] \<Rightarrow> [] | q # _ \<Rightarrow> q) of
       Inl x \<Rightarrow> r = Inl (queue_error_status x)
     | Inr (p, i, l) \<Rightarrow> r = Inr \<lparr>dr_tenant_id = t, dr_drained = (p = 0 \<and> i = 0), dr_remaining = word_of_nat (p + i)\<rparr>)"
  using drain_wait_returns [of 0 k "start + unat (max timeout_secs 1) * 10 ^ 9" clk R env t "first_queue queues"] assms
  by (simp add: rpc_drain_tenant_def Let_def drain_answer_def first_queue_def)

theorem drain_returns_witness:
  "\<exists>n'. rpc_drain_tenant mem_rocksdb (\<lambda>i. i * 10 ^ 9) (\<lambda>i n. n) 0 [''q''] ''t'' 3 sample_node =
     Some (Inr \<lparr>dr_tenant_id = ''t'', dr_drained = False, dr_remaining = 4\<rparr>, n')"
proof -
  have d: "depth mem_rocksdb sample ''t'' ''q'' = Inr (3, 1, qcount (map_of sample_dlq) ''q'')"
    using reliable_env.depth_eq [OF ref.reliable_env_axioms sample_tenant, of "''q''"] by simp
  let ?drain = "rpc_drain_tenant mem_rocksdb (\<lambda>i. i * 10 ^ 9) (\<lambda>i n. n) 0 [''q''] ''t'' 3 sample_node"
  obtain r n' where r: "?drain = Some (r, n')"
    "case depth mem_rocksdb (nd_registry n') ''t'' ''q'' of
       Inl x \<Rightarrow> r = Inl (queue_error_status x)
     | Inr (p, i, l) \<Rightarrow> r = Inr \<lparr>dr_tenant_id = ''t'', dr_drained = (p = 0 \<and> i = 0), dr_remaining = word_of_nat (p + i)\<rparr>"
    using drain_returns [of 0 3 "\<lambda>i. i * 10 ^ 9" 3 mem_rocksdb "\<lambda>i n. n" "[''q'']" "''t''" sample_node] by auto
  have same: "nd_registry m = nd_registry n"
    if "drain_wait mem_rocksdb clk (\<lambda>i n. n) i dl ''t'' ''q'' n = Some (x, m)" "i \<le> k" "clk k \<ge> dl"
    for clk :: "nat \<Rightarrow> nat" and i dl k x and n m :: "mem_db node"
    using that
  proof (induction "k - i" arbitrary: i)
    case 0
    then show ?case by (subst (asm) drain_wait.simps) (auto split: sum.splits if_splits)
  next
    case (Suc j)
    then have "Suc i \<le> k" "j = k - Suc i" by auto
    with Suc show ?case by (subst (asm) (2) drain_wait.simps) (auto split: sum.splits if_splits)
  qed
  have "nd_registry n' = sample"
    using same [of "\<lambda>i. i * 10 ^ 9" 0 "3 * 10 ^ 9" "sample_node\<lparr>nd_scheduler := snd (set_paused (nd_scheduler sample_node) ''t'' True)\<rparr>" r n' 3] r(1)
    by (simp add: rpc_drain_tenant_def Let_def first_queue_def sample_node_def)
  with r d show ?thesis by simp
qed

section \<open>Streams\<close>

text \<open>A depth stream sends events of the tenant, and an error only as its very last message.\<close>

lemma watch_depth_tick_events:
  assumes "watch_depth_tick R sent now t n queues = (events, alive)"
  shows "\<exists>good. (\<forall>ev \<in> set good. qe_tenant_id ev = t \<and> qe_queue ev \<in> set queues \<and> sent (qe_queue ev)) \<and>
    (events = map Inr good \<or> \<not> alive \<and> (\<exists>e. events = map Inr good @ [Inl (internal e)]))"
  using assms
proof (induction queues arbitrary: events alive)
  case Nil
  then show ?case by (intro exI [of _ "[]"]) simp
next
  case (Cons q queues)
  show ?case
  proof (cases "depth R (nd_registry n) t q")
    case (Inl e)
    with Cons.prems show ?thesis by (intro exI [of _ "[]"]) auto
  next
    case (Inr pid)
    obtain p i d where pid: "pid = (p, i, d)" by (cases pid)
    show ?thesis
    proof (cases "sent q")
      case False
      with Cons.prems Inr pid show ?thesis by (intro exI [of _ "[]"]) auto
    next
      case True
      obtain later alive' where m: "watch_depth_tick R sent now t n queues = (later, alive')" by (cases "watch_depth_tick R sent now t n queues")
      let ?ev = "\<lparr>qe_tenant_id = t, qe_queue = q, qe_pending = word_of_nat p, qe_inflight = word_of_nat i,
        qe_dlq = word_of_nat d, qe_timestamp = now q\<rparr>"
      from Cons.prems Inr pid True m have e: "events = Inr ?ev # later" "alive = alive'" by auto
      from Cons.IH [OF m] obtain good where
        g: "\<forall>ev \<in> set good. qe_tenant_id ev = t \<and> qe_queue ev \<in> set queues \<and> sent (qe_queue ev)"
          "later = map Inr good \<or> \<not> alive' \<and> (\<exists>e. later = map Inr good @ [Inl (internal e)])" by (elim exE conjE)
      then show ?thesis using e True by (intro exI [of _ "?ev # good"]) auto
    qed
  qed
qed

lemma watch_queue_depth_events:
  assumes "watch_queue_depth R t queues ticks = (events, alive)"
  shows "\<exists>good. (\<forall>ev \<in> set good. qe_tenant_id ev = t \<and> qe_queue ev \<in> set queues) \<and>
    (events = map Inr good \<or> \<not> alive \<and> (\<exists>e. events = map Inr good @ [Inl (internal e)]))"
  using assms
proof (induction R t queues ticks arbitrary: events alive rule: watch_queue_depth.induct)
  case (1 R t queues)
  then show ?case by (intro exI [of _ "[]"]) simp
next
  case (2 R t queues sent now n ticks)
  obtain es go where tick: "watch_depth_tick R sent now t n queues = (es, go)" by (cases "watch_depth_tick R sent now t n queues")
  from watch_depth_tick_events [OF tick] obtain good where
    g: "\<forall>ev \<in> set good. qe_tenant_id ev = t \<and> qe_queue ev \<in> set queues"
      "es = map Inr good \<or> \<not> go \<and> (\<exists>e. es = map Inr good @ [Inl (internal e)])" by blast
  show ?case
  proof (cases go)
    case False
    with 2(2) tick have "events = es" "\<not> alive" by auto
    with g show ?thesis by blast
  next
    case True
    obtain later alive' where m: "watch_queue_depth R t queues ticks = (later, alive')" by (cases "watch_queue_depth R t queues ticks")
    with 2(2) tick True have e: "events = es @ later" "alive = alive'" by auto
    have "go = True" using True by simp
    from 2(1) [OF tick [symmetric] this m] obtain good' where
      g': "\<forall>ev \<in> set good'. qe_tenant_id ev = t \<and> qe_queue ev \<in> set queues"
        "later = map Inr good' \<or> \<not> alive' \<and> (\<exists>e. later = map Inr good' @ [Inl (internal e)])" by blast
    from g(2) True have "es = map Inr good" by simp
    with g(1) g' e show ?thesis by (intro exI [of _ "good @ good'"]) auto
  qed
qed

text \<open>
  A statistics stream ends only when an event cannot be sent. For a name that is no tenant it has
  none to send: the task goes on for ever, whether or not the client is still there.
\<close>

lemma watch_stats_leaks:
  assumes "\<forall>(sent, now, n) \<in> set ticks. col_snapshot (nd_collector n) t = None"
  shows "watch_stats t ticks = ([], True)"
  using assms by (induction t ticks rule: watch_stats.induct) (auto simp: watch_stats_tick_def)

text \<open>While the client takes them, every tick of a known tenant is one event.\<close>

lemma watch_stats_events:
  assumes "\<forall>(sent, now, n) \<in> set ticks. sent"
  shows "watch_stats t ticks =
    (concat (map (\<lambda>(sent, now, n). case col_snapshot (nd_collector n) t of
       None \<Rightarrow> [] | Some s \<Rightarrow> [(stats_response_of s, now)]) ticks), True)"
  using assms by (induction t ticks rule: watch_stats.induct) (auto simp: watch_stats_tick_def split: option.splits)

end
