(* ===== verification/Rq_Node_Properties.thy ===== *)
theory Rq_Node_Properties
  imports Rq_Process Rq_Start_Properties Rq_Control_Properties
begin

text \<open>
  The process as a whole: the components that know of a tenant agree on who the tenants are, in every
  state the handlers of the control plane, the daemon, the workers and the reaper bring about.
\<close>

section \<open>What the queue operations leave of the policies\<close>

named_theorems policies_kept

lemma kept_bind_res [policies_kept]:
  "policies g = M \<Longrightarrow> (\<And>x. r = Inr x \<Longrightarrow> policies (snd (f x)) = M) \<Longrightarrow> policies (snd (bind_res r g f)) = M"
  by (cases r) auto

lemma kept_bind_op [policies_kept]:
  "policies (snd r) = M \<Longrightarrow> (\<And>x g. policies g = M \<Longrightarrow> policies (snd (f x g)) = M) \<Longrightarrow> policies (snd (bind_op r f)) = M"
  by (cases r; cases "fst r") auto


lemma kept_locks [simp]: "policies (ack_lock g t q) = policies g" "policies (fold (\<lambda>q g. ack_lock g t q) qs g) = policies g"
proof -
  show one: "policies (ack_lock g t q) = policies g" for g :: "'a registry" and q by (simp add: ack_lock_def)
  show "policies (fold (\<lambda>q g. ack_lock g t q) qs g) = policies g" by (induction qs arbitrary: g) (simp_all add: one)
qed












section \<open>The process over time\<close>

text \<open>
  Registry, collector and baselines know the same tenants, and the scheduler knows at least those
  (\<open>update_policy\<close> adds whatever name it is given).
\<close>

definition runtime_agrees :: "'db node \<Rightarrow> bool" where
  "runtime_agrees n \<longleftrightarrow> dom (co_tenants (nd_collector n)) = dom (policies (nd_registry n)) \<and>
     dom (nd_baselines n) = dom (policies (nd_registry n)) \<and>
     dom (policies (nd_registry n)) \<subseteq> dom (sc_tenants (nd_scheduler n))"

text \<open>
  One step of the process: a handler, a task a worker takes a batch from, a cycle of the daemon, a
  sweep of the reaper. While a producer is blocked the others (\<open>env\<close>) run queue operations only.
\<close>

inductive node_step ::
  "'db rocksdb \<Rightarrow> task codec \<Rightarrow> namespace_policy codec \<Rightarrow> store_env \<Rightarrow> hex_codec \<Rightarrow> throttle_config \<Rightarrow> 'db node \<Rightarrow> 'db node \<Rightarrow> bool"
  for R C PC E H cfg where
  node_request: "request_step R C PC E H n n' \<Longrightarrow> node_step R C PC E H cfg n n'"
| node_drain: "(\<And>i m. (node_step R C PC E H cfg)\<^sup>*\<^sup>* m (env i m)) \<Longrightarrow>
    rpc_drain_tenant R clk env start queues t timeout n = Some (r, n') \<Longrightarrow> node_step R C PC E H cfg n n'"
| node_work: "node_step R C PC E H cfg n (work_queue R C handler latency nows clk slots t q n)"
| node_reap: "node_step R C PC E H cfg n (n\<lparr>nd_registry := snd (reap_inflight R C clk (nd_registry n) t q)\<rparr>)"
| node_daemon: "daemon_cycle R E cfg K queues (cycle, n) = (cycle', Done n') \<Longrightarrow> node_step R C PC E H cfg n n'"

inductive_cases node_stepE: "node_step R C PC E H cfg n n'"

section \<open>Agreement\<close>

lemma dom_modify [simp]: "dom (co_tenants (col_modify f c t)) = dom (co_tenants c)"
  by (auto simp: col_modify_def split: option.splits)

lemma dom_collector [simp]:
  "dom (co_tenants (record_enqueue c t k)) = dom (co_tenants c)" "dom (co_tenants (record_ack_count c t k l)) = dom (co_tenants c)"
  "dom (co_tenants (record_ack c t l)) = dom (co_tenants c)" "dom (co_tenants (record_nack c t)) = dom (co_tenants c)"
  "dom (co_tenants (record_backlog c t p i)) = dom (co_tenants c)" "dom (co_tenants (col_refresh c)) = dom (co_tenants c)"
  unfolding record_enqueue_def record_ack_def record_ack_count_def record_nack_def record_backlog_def
  by simp_all (auto simp: col_refresh_def)


text \<open>A node that differs in what does not concern the tenants agrees as well.\<close>

lemma agrees_like:
  assumes "runtime_agrees n" "policies (nd_registry n') = policies (nd_registry n)"
    "dom (co_tenants (nd_collector n')) = dom (co_tenants (nd_collector n))" "dom (nd_baselines n') = dom (nd_baselines n)"
    "dom (sc_tenants (nd_scheduler n)) \<subseteq> dom (sc_tenants (nd_scheduler n'))"
  shows "runtime_agrees n'"
  using assms unfolding runtime_agrees_def by (metis order_trans)



























text \<open>The daemon: a run that comes back leaves a node that agrees.\<close>

definition run_agrees :: "'db node run \<Rightarrow> bool" where
  "run_agrees r \<longleftrightarrow> (\<forall>n. r = Done n \<longrightarrow> runtime_agrees n)"

lemma run_agrees_simps [simp]: "run_agrees (Done n) = runtime_agrees n" "run_agrees (Blocked n)" "run_agrees Panicked"
  by (simp_all add: run_agrees_def)















end
