(* ===== verification/Rq_Threads.thy ===== *)
theory Rq_Threads
  imports Rq_System
begin

text \<open>
  Consumers that run in parallel. A dequeue is not one step of the machine: under the lock of its
  queue it scans the pending records and only then writes the batch it has built. Here the two halves
  are steps of their own, between which every operation may run that does not need the lock.
  The sweep of the reaper is split the same way; it takes no lock.
\<close>

section \<open>The two halves of an operation\<close>

text \<open>\<open>dequeue_batch_unlocked\<close> for a positive limit: the loop over the iterator, then the write.\<close>

type_synonym dequeue_plan = "(bytes \<times> task) list \<times> write_op list \<times> nat"

definition dequeue_scan ::
  "'db rocksdb \<Rightarrow> task codec \<Rightarrow> (nat \<Rightarrow> u64) \<Rightarrow> 'db registry \<Rightarrow> string \<Rightarrow> string \<Rightarrow> nat \<Rightarrow> u64 \<Rightarrow> queue_error + dequeue_plan" where
  "dequeue_scan R C clk g t q limit timeout =
     (case pending_cf R g t of Inl e \<Rightarrow> Inl e | Inr pcf \<Rightarrow>
      case inflight_cf R g t of Inl e \<Rightarrow> Inl e | Inr icf \<Rightarrow>
      case dlq_cf R g t of Inl e \<Rightarrow> Inl e | Inr dcf \<Rightarrow>
      dequeue_loop C pcf icf dcf q clk (saturating_add (clk 0) timeout) limit
        (iterator_prefix R (db g) pcf (queue_prefix q)) [] [] 0)"

definition dequeue_commit ::
  "'db rocksdb \<Rightarrow> 'db registry \<Rightarrow> dequeue_plan \<Rightarrow> ('db registry, (bytes \<times> task) list) outcome" where
  "dequeue_commit R g = (\<lambda>(results, batch, poisoned).
     if results \<noteq> [] \<or> poisoned > 0
     then bind_op (lift_db (write_opt R (db g) hot_write_opts batch) g) (\<lambda>_ g. (Inr results, g))
     else (Inr results, g))"

lemma dequeue_halves:
  "limit > 0 \<Longrightarrow> dequeue_batch_unlocked R C clk g t q limit timeout =
     bind_res (dequeue_scan R C clk g t q limit timeout) g (dequeue_commit R g)"
  by (auto simp: dequeue_batch_unlocked_def dequeue_scan_def dequeue_commit_def bind_res_def split: sum.splits)

definition reap_scan ::
  "'db rocksdb \<Rightarrow> task codec \<Rightarrow> (nat \<Rightarrow> u64) \<Rightarrow> 'db registry \<Rightarrow> string \<Rightarrow> string \<Rightarrow> queue_error + write_op list \<times> nat \<times> nat" where
  "reap_scan R C clk g t q =
     (case inflight_cf R g t of Inl e \<Rightarrow> Inl e | Inr icf \<Rightarrow>
      case pending_cf R g t of Inl e \<Rightarrow> Inl e | Inr pcf \<Rightarrow>
      case dlq_cf R g t of Inl e \<Rightarrow> Inl e | Inr dcf \<Rightarrow>
      reap_loop C pcf icf dcf q clk (iterator_from R (db g) icf (queue_prefix q)) [] 0 0)"

definition reap_commit ::
  "'db rocksdb \<Rightarrow> 'db registry \<Rightarrow> write_op list \<times> nat \<times> nat \<Rightarrow> ('db registry, unit) outcome" where
  "reap_commit R g = (\<lambda>(batch, reclaimed, poisoned).
     if reclaimed > 0 \<or> poisoned > 0
     then lift_db (write_opt R (db g) \<lparr>wo_sync = False, wo_disable_wal = False\<rparr> batch) g
     else (Inr (), g))"

lemma reap_halves:
  "reap_inflight R C clk g t q = bind_res (reap_scan R C clk g t q) g (reap_commit R g)"
  by (auto simp: reap_inflight_def reap_scan_def reap_commit_def bind_res_def split: sum.splits)

section \<open>The machine\<close>

text \<open>Where a consumer thread stands, and the whole: \<open>holder\<close> maps a held lock to its thread.\<close>

datatype consumer = Idle | Holding string string nat u64 | Scanned string string dequeue_plan

record 'db machine =
  mc_registry :: "'db registry"
  mc_holder :: "string \<rightharpoonup> nat"
  mc_consumer :: "nat \<Rightarrow> consumer"

text \<open>Operations that take no queue lock.\<close>

inductive free_op :: "'db rocksdb \<Rightarrow> task codec \<Rightarrow> 'db registry \<Rightarrow> 'db registry \<Rightarrow> bool" for R C where
  free_ack: "provisioned R g t \<Longrightarrow> ack_batch R g t ks = (ra, g') \<Longrightarrow> free_op R C g g'"
| free_nack: "provisioned R g t \<Longrightarrow> unat (seq g) + 1 < 2 ^ 64 \<Longrightarrow> nack R C now g t k = (ru, g') \<Longrightarrow> free_op R C g g'"
| free_cumulative_ack: "provisioned R g t \<Longrightarrow> cumulative_ack R g t q s = (ra, g') \<Longrightarrow> free_op R C g g'"
| free_reap: "provisioned R g t \<Longrightarrow> name_ok q \<Longrightarrow> reap_inflight R C clk g t q = (ru, g') \<Longrightarrow> free_op R C g g'"
| free_purge: "provisioned R g t \<Longrightarrow> purge_dlq R g t = (ra, g') \<Longrightarrow> free_op R C g g'"
| free_replay: "provisioned R g t \<Longrightarrow> unat (seq g) + length (iterator_from R (db g) (cf_dlq t) []) < 2 ^ 64 \<Longrightarrow>
    replay_dlq R C g t = (ra, g') \<Longrightarrow> free_op R C g g'"

text \<open>
  The steps. An enqueue holds the lock of its queue from start to end, so it is one step that
  needs the lock to be free.
\<close>

inductive machine_step :: "'db rocksdb \<Rightarrow> task codec \<Rightarrow> 'db machine \<Rightarrow> 'db machine \<Rightarrow> bool" for R C where
  machine_lock:
    "mc_consumer m i = Idle \<Longrightarrow> mc_holder m (lock_name t q) = None \<Longrightarrow>
     provisioned R (mc_registry m) t \<Longrightarrow> name_ok q \<Longrightarrow> limit > 0 \<Longrightarrow>
     machine_step R C m (m\<lparr>mc_registry := queue_lock (mc_registry m) t q,
       mc_holder := (mc_holder m)(lock_name t q \<mapsto> i), mc_consumer := (mc_consumer m)(i := Holding t q limit timeout)\<rparr>)"
| machine_scan:
    "mc_consumer m i = Holding t q limit timeout \<Longrightarrow>
     dequeue_scan R C clk (mc_registry m) t q limit timeout = Inr plan \<Longrightarrow>
     machine_step R C m (m\<lparr>mc_consumer := (mc_consumer m)(i := Scanned t q plan)\<rparr>)"
| machine_scan_error:
    "mc_consumer m i = Holding t q limit timeout \<Longrightarrow>
     dequeue_scan R C clk (mc_registry m) t q limit timeout = Inl e \<Longrightarrow>
     machine_step R C m (m\<lparr>mc_holder := (mc_holder m)(lock_name t q := None), mc_consumer := (mc_consumer m)(i := Idle)\<rparr>)"
| machine_commit:
    "mc_consumer m i = Scanned t q plan \<Longrightarrow> dequeue_commit R (mc_registry m) plan = (r, g) \<Longrightarrow>
     machine_step R C m (m\<lparr>mc_registry := g, mc_holder := (mc_holder m)(lock_name t q := None),
       mc_consumer := (mc_consumer m)(i := Idle)\<rparr>)"
| machine_enqueue:
    "mc_holder m (lock_name t q) = None \<Longrightarrow> provisioned R (mc_registry m) t \<Longrightarrow> name_ok q \<Longrightarrow>
     unat (seq (mc_registry m)) + length ps < 2 ^ 64 \<Longrightarrow>
     enqueue_batch_sync R C clk (\<lambda>_ g. g) now uuid (mc_registry m) t q ps policy = Some (re, g) \<Longrightarrow>
     machine_step R C m (m\<lparr>mc_registry := g\<rparr>)"
| machine_free:
    "free_op R C (mc_registry m) g \<Longrightarrow> machine_step R C m (m\<lparr>mc_registry := g\<rparr>)"

inductive_cases machine_stepE: "machine_step R C m m'"

lemma free_op_reg_step: "free_op R C g g' \<Longrightarrow> reg_step R C PC g g'"
  by (induction rule: free_op.induct) (rule reg_step.intros; assumption)+

lemma lock_name_eq [simp]: "lock_name t q = lock_name t q' \<longleftrightarrow> q = q'"
  by (simp add: lock_name_def)

section \<open>What other threads leave alone\<close>

lemma key_ok_seq: "key_ok n (encode_key q s) \<Longrightarrow> unat s < n"
  by (simp add: key_ok_def)

lemma in_queue_apart: "name_ok q' \<Longrightarrow> name_ok q \<Longrightarrow> q' \<noteq> q \<Longrightarrow> in_queue q' \<subseteq> - in_queue q"
proof
  fix k
  assume names: "name_ok q'" "name_ok q" "q' \<noteq> q" and "k \<in> in_queue q'"
  then obtain r where "k = as_bytes q' @ 0 # r" by (auto simp: in_queue_def queue_prefix_def prefix_def)
  with names nul_split [of "as_bytes q" "as_bytes q'" r] show "k \<in> - in_queue q"
    by (auto simp: in_queue_def queue_prefix_def name_ok_def nul_free_def)
qed

context queue_env
begin

text \<open>The records that are pending in a queue stay as they are; others may come.\<close>

definition keeps where
  "keeps t q g g' \<longleftrightarrow> (\<forall>P I D. tenant_at (view (db g)) t P I D \<longrightarrow>
     (\<exists>P' I' D'. tenant_at (view (db g')) t P' I' D' \<and> (\<forall>k \<in> in_queue q \<inter> dom P. P' k = P k)))"

lemma keeps_same: "db g' = db g \<Longrightarrow> keeps t q g g'"
  by (auto simp: keeps_def)

lemma keeps_update:
  assumes "tenant_at (view (db g)) u P I D" and "tenant_at (view (db g')) u P' I' D'"
    and "same_elsewhere u (view (db g)) (view (db g'))"
    and "t = u \<Longrightarrow> \<forall>k \<in> in_queue q \<inter> dom P. P' k = P k"
  shows "keeps t q g g'"
proof (cases "t = u")
  case True
  have "P1 = P" if "tenant_at (view (db g)) u P1 I1 D1" for P1 I1 D1
    using that assms(1) by (simp add: tenant_at_def)
  with True assms(2,4) show ?thesis unfolding keeps_def by blast
next
  case False
  then show ?thesis using same_elsewhere_tenant [OF assms(3), of t] unfolding keeps_def by blast
qed

lemma keeps_pending:
  "tenant_at (view (db g)) u P I D \<Longrightarrow> tenant_at (view (db g')) u P I' D' \<Longrightarrow>
   same_elsewhere u (view (db g)) (view (db g')) \<Longrightarrow> keeps t q g g'"
  by (rule keeps_update [where P' = P and P = P]) auto

lemma added_fresh: "fst ` set xs \<inter> dom P = {} \<Longrightarrow> k \<in> dom P \<Longrightarrow> (P ++ map_of (rev (enc_all enc xs))) k = P k"
  "fst ` set xs \<inter> dom P = {} \<Longrightarrow> k \<in> dom P \<Longrightarrow> (P ++ map_of (enc_all enc xs)) k = P k"
  by (rule map_add_dom_app_simps(3); auto simp: disjoint_iff)+

lemma free_op_keeps:
  assumes "free_op R C g g'" and inv: "registry_inv C view g"
  shows "keeps t q g g'"
  using assms
proof (induction rule: free_op.induct)
  case (free_ack g u ks ra g')
  obtain P I D where T: "tenant_at (view (db g)) u P I D" using free_ack(1) by (rule provisioned_tenant)
  from ack_batch_outcome [OF T free_ack(2)] show ?case
    by (cases ra) (auto intro: keeps_same keeps_pending [OF T])
next
  case (free_nack g u now k ru g')
  obtain P I D where T: "tenant_at (view (db g)) u P I D" using free_nack(1) by (rule provisioned_tenant)
  have fresh: "encode_key x (seq g) \<notin> dom P" for x
    using tenant_inv_keys [OF registry_inv_tenant [OF free_nack(4) T]] key_ok_seq by blast
  from nack_outcome [OF T free_nack(3)] show ?case
  proof (cases ru)
    case (Inr y)
    with nack_outcome [OF T free_nack(3)] have post: "nack_post g g' u k now P I D" by simp
    note se = post [unfolded nack_post_def, THEN conjunct1]
    note fate = post [unfolded nack_post_def, THEN conjunct2]
    show ?thesis
    proof (cases "nack_fate_of C now I k")
      case (Retried x)
      with fate have "tenant_at (view (db g')) u (P(encode_key (task_queue x) (seq g) \<mapsto> enc x)) (I(k := None)) D" by simp
      then show ?thesis by (rule keeps_update [OF T _ se]) (use fresh in \<open>metis Int_iff fun_upd_other\<close>)
    next
      case (ToDlq e)
      with fate show ?thesis by (auto intro: keeps_pending [OF T _ se])
    next
      case (ToDlqRaw v)
      with fate show ?thesis by (auto intro: keeps_pending [OF T _ se])
    qed (use fate in \<open>simp add: keeps_same\<close>)
  qed (simp add: keeps_same)
next
  case (free_cumulative_ack g u q' s ra g')
  obtain P I D where T: "tenant_at (view (db g)) u P I D" using free_cumulative_ack(1) by (rule provisioned_tenant)
  from cumulative_ack_outcome [OF T free_cumulative_ack(2)] show ?case
    by (cases ra) (auto intro: keeps_same keeps_pending [OF T])
next
  case (free_reap g u q' clk ru g')
  obtain P I D where T: "tenant_at (view (db g)) u P I D" using free_reap(1) by (rule provisioned_tenant)
  note out = reap_outcome [OF T free_reap(3)]
  have "fst ` set (reclaimed C (clk 0) (entries I q')) \<subseteq> fst ` set (entries I q')"
    using fst_subset [OF fst_reclaimed] .
  also have "\<dots> \<subseteq> dom I" unfolding fst_set_entries [OF tenant_finite(2) [OF T]] by (rule Int_lower1)
  finally have sub: "fst ` set (reclaimed C (clk 0) (entries I q')) \<subseteq> dom I" .
  have "dom P \<inter> dom I = {}" using registry_inv_tenant [OF free_reap(4) T] by (simp add: tenant_inv_def disjoint3_def)
  with sub have "fst ` set (reclaimed C (clk 0) (entries I q')) \<inter> dom P = {}" by blast
  note new = added_fresh(2) [OF this]
  show ?case
  proof (cases ru)
    case (Inl e)
    with out show ?thesis by (simp add: keeps_same)
  next
    case (Inr x)
    with out have "reap_post (view (db g)) (view (db g')) u q' clk P I D" by simp
    note p = this [unfolded reap_post_def Let_def]
    show ?thesis
      by (rule keeps_update [OF T p [THEN conjunct2] p [THEN conjunct1]]) (use new in blast)
  qed
next
  case (free_purge g u ra g')
  obtain P I D where T: "tenant_at (view (db g)) u P I D" using free_purge(1) by (rule provisioned_tenant)
  from purge_outcome [OF T free_purge(2)] show ?case
    by (cases ra) (auto intro: keeps_same keeps_pending [OF T])
next
  case (free_replay g u ra g')
  obtain P I D where T: "tenant_at (view (db g)) u P I D" using free_replay(1) by (rule provisioned_tenant)
  show ?case
  proof (cases ra)
    case (Inl e)
    with replay_outcome [OF T free_replay(3)] show ?thesis by (simp add: keeps_same)
  next
    case (Inr n)
    with replay_outcome [OF T free_replay(3)] have post: "replay_post g g' u P I D n" by simp
    note p = post [unfolded replay_post_def]
    have "unat (seq g) + card (dom D) < 2 ^ 64"
      using replay_length [OF T, of n g'] free_replay(2,3) Inr by simp
    note ok = replayed_ok [OF registry_inv_tenant [OF free_replay(4) T] tenant_finite(3) [OF T] this]
    have "fst ` set (replayed C (seq g) (kv_list D)) \<inter> dom P = {}"
      using ok tenant_inv_keys [OF registry_inv_tenant [OF free_replay(4) T]] by fastforce
    note new = added_fresh(1) [OF this]
    show ?thesis
      by (rule keeps_update [OF T p [THEN conjunct2, THEN conjunct2, THEN conjunct2] p [THEN conjunct2, THEN conjunct2, THEN conjunct1]])
        (use new in blast)
  qed
qed

text \<open>An enqueue leaves the other queues alone: it evicts from its own and adds under fresh keys.\<close>

lemma quota_evicts:
  assumes T: "tenant_at (view (db g)) t P I D"
    and r: "enforce_quota R clk (\<lambda>_ g. g) g t q policy n = Some (res, g')"
  shows "\<exists>A \<subseteq> in_queue q. tenant_at (view (db g')) t (P |` (- A)) I D \<and> same_elsewhere t (view (db g)) (view (db g')) \<and> seq g' = seq g"
proof -
  have idle: "\<exists>A \<subseteq> in_queue q. tenant_at (view (db h)) t (P |` (- A)) I D \<and> same_elsewhere t (view (db g)) (view (db h)) \<and> seq h = seq g"
    if "db h = db g" "seq h = seq g" for h
    using that T by (intro exI [of _ "{}"]) simp
  have evict: "\<exists>A \<subseteq> in_queue q. tenant_at (view (db g')) t (P |` (- A)) I D \<and> same_elsewhere t (view (db g)) (view (db g')) \<and> seq g' = seq g"
    if "evict_oldest_pending R g t q k = (res, g')" for k
  proof (cases res)
    case (Inl e)
    with evict_outcome [OF T that] seq_update(1) [OF conjunct1 [OF evict_outcome [OF T that]]] show ?thesis by (intro idle) auto
  next
    case (Inr u)
    have "fst ` set (take k (entries P q)) \<subseteq> in_queue q"
      using fst_set_entries [OF tenant_finite(1) [OF T], of q] set_take_subset [of k "entries P q"] by blast
    with evict_outcome [OF T that] seq_update(1) [OF conjunct1 [OF evict_outcome [OF T that]]] Inr show ?thesis by auto
  qed
  show ?thesis
  proof (cases "np_backlog_quota policy")
    case None
    with r show ?thesis by (intro idle) (auto simp: enforce_quota_def)
  next
    case (Some Q)
    show ?thesis
    proof (cases "depth R g t q")
      case (Inl e)
      with r Some show ?thesis by (intro idle) (auto simp: enforce_quota_def)
    next
      case (Inr x)
      then obtain p i d where d: "depth R g t q = Inr (p, i, d)" by (cases x) auto
      show ?thesis
      proof (cases "np_backlog_policy policy")
        case Reject
        with r Some d show ?thesis by (intro idle) (auto simp: enforce_quota_def Let_def split: if_splits)
      next
        case (Block ms)
        with r Some d have "block_wait R (\<lambda>i. clk (Suc i)) (\<lambda>_ g. g) 0 g t q Q n (clk 0 + ms) = Some (res, g')"
          by (simp add: enforce_quota_def Let_def)
        from block_wait_invariant [where Q = "\<lambda>h. h = g", OF this] show ?thesis by (intro idle) simp_all
      next
        case EvictOldest
        show ?thesis
        proof (cases "p + i + n > Q")
          case True
          with r Some d EvictOldest show ?thesis
            by (intro evict [of "p + i + n - Q"]) (simp add: enforce_quota_def Let_def)
        next
          case False
          with r Some d EvictOldest show ?thesis by (intro idle) (simp_all add: enforce_quota_def Let_def)
        qed
      qed
    qed
  qed
qed

lemma enqueue_keeps:
  assumes T: "tenant_at (view (db g)) u P I D" and inv: "registry_inv C view g" and u: "name_ok u'" and q: "name_ok q"
    and apart: "t = u \<longrightarrow> q \<noteq> u'" and wrap: "unat (seq g) + length ps < 2 ^ 64"
    and r: "enqueue_batch_sync R C clk (\<lambda>_ g. g) now uuid g u u' ps policy = Some (res, g')"
  shows "keeps t q g g' \<and> registry_inv C view g'"
proof -
  obtain r0 g0 where q0: "enforce_quota R clk (\<lambda>_ g. g) (queue_lock g u u') u u' policy (length ps) = Some (r0, g0)"
    and out: "case res of
       Inl e \<Rightarrow> r0 = Inl e \<and> g' = g0 \<or>
         r0 = Inr () \<and> db g' = db g0 \<and> (seq g' = seq g0 \<or> seq g' = seq g0 + of_nat (length ps))
     | Inr ids \<Rightarrow> r0 = Inr () \<and> enqueue_post g0 g' u u' now uuid ps ids"
    by (rule enqueue_outcome [OF r])
  have T': "tenant_at (view (db (queue_lock g u u'))) u P I D" using T by simp
  obtain A where A: "A \<subseteq> in_queue u'" "tenant_at (view (db g0)) u (P |` (- A)) I D"
    "same_elsewhere u (view (db g)) (view (db g0))" "seq g0 = seq g"
    using quota_evicts [OF T' q0] by auto
  have inv': "registry_inv C view g'"
    using wrap A(4) by (intro enqueue_inv [OF inv T u _ q0 A(2) _ r]) simp_all
  have kept: "(P |` (- A)) k = P k" if "t = u" "k \<in> in_queue q" for k
    using that A(1) in_queue_apart [OF q u] apart by (auto simp: restrict_map_def)
  show ?thesis
  proof (cases res)
    case (Inl e)
    with out have "db g' = db g0" by auto
    then have "tenant_at (view (db g')) u (P |` (- A)) I D" "same_elsewhere u (view (db g)) (view (db g'))" using A(2,3) by simp_all
    from keeps_update [OF T this] kept inv' show ?thesis by blast
  next
    case (Inr ids)
    let ?new = "new_records u' now uuid (seq g0) 0 ps"
    from Inr out have post: "enqueue_post g0 g' u u' now uuid ps ids" by simp
    note p = post [unfolded enqueue_post_def]
    note T2 = p [THEN conjunct2, THEN conjunct2, THEN conjunct2, rule_format, OF A(2)]
    note se = same_elsewhere_trans [OF A(3) p [THEN conjunct2, THEN conjunct2, THEN conjunct1]]
    have "k \<notin> dom P" if "k \<in> fst ` set ?new" for k
      using that new_records_ok [of _ _ u' now uuid "seq g0" 0 ps] wrap A(4) u tenant_inv_keys [OF registry_inv_tenant [OF inv T]]
      by fastforce
    then have "fst ` set ?new \<inter> dom (P |` (- A)) = {}" by auto
    note new = added_fresh(1) [OF this]
    have "\<forall>k \<in> in_queue q \<inter> dom P. (P |` (- A) ++ map_of (rev (enc_all enc ?new))) k = P k" if "t = u"
      using new kept [OF that] by (metis IntE domIff)
    from keeps_update [OF T T2 se this] inv' show ?thesis by blast
  qed
qed

section \<open>Scanned records\<close>

text \<open>A plan: records of the queue that are still pending, and the batch that moves them.\<close>

definition scanned where
  "scanned t q g plan \<longleftrightarrow> (\<exists>P I D ys clk dl. tenant_at (view (db g)) t P I D \<and>
     plan = (delivered C dl ys, dequeue_ops C enc t q clk dl 0 ys, length (filter (\<lambda>(k, v). corrupt C v) ys)) \<and>
     distinct (map fst ys) \<and> set ys \<subseteq> set (entries P q))"

lemma scan_scanned:
  assumes T: "tenant_at (view (db g)) t P I D" and "limit > 0" and r: "dequeue_scan R C clk g t q limit timeout = Inr plan"
  shows "scanned t q g plan"
proof -
  let ?ys = "consumed C limit (entries P q)" and ?dl = "saturating_add (clk 0) timeout"
  have scan: "faithful_scan (iterator_prefix R (db g) (cf_pending t) (queue_prefix q)) (entries P q)"
    using T by (intro scan_entries) (simp add: tenant_at_def)
  have "dequeue_loop C (cf_pending t) (cf_inflight t) (cf_dlq t) q clk ?dl limit
      (iterator_prefix R (db g) (cf_pending t) (queue_prefix q)) [] [] 0 = Inr plan"
    using r by (simp add: dequeue_scan_def tenant_handles [OF T])
  from dequeue_loop_scan [OF scan this] assms(2)
  have "plan = (delivered C ?dl ?ys, dequeue_ops C enc t q clk ?dl 0 ?ys, length (filter (\<lambda>(k, v). corrupt C v) ?ys))"
    by (simp add: dequeue_loop_total Let_def)
  then show ?thesis
    unfolding scanned_def using T distinct_map_prefix [OF distinct_entries prefix_consumed] set_consumed by blast
qed

lemma scanned_keeps:
  assumes "scanned t q g plan" and "keeps t q g g'"
  shows "scanned t q g' plan"
proof -
  obtain P I D ys clk dl where s: "tenant_at (view (db g)) t P I D"
    "plan = (delivered C dl ys, dequeue_ops C enc t q clk dl 0 ys, length (filter (\<lambda>(k, v). corrupt C v) ys))"
    "distinct (map fst ys)" "set ys \<subseteq> set (entries P q)" using assms(1) unfolding scanned_def by (elim exE conjE)
  obtain P' I' D' where T': "tenant_at (view (db g')) t P' I' D'" and k: "\<And>k. k \<in> in_queue q \<inter> dom P \<Longrightarrow> P' k = P k"
    using assms(2) s(1) unfolding keeps_def by blast
  have "set (entries P q) \<subseteq> set (entries P' q)"
    using set_entries [OF tenant_finite(1) [OF s(1)]] set_entries [OF tenant_finite(1) [OF T']] k by (auto simp: domI)
  with s T' show ?thesis unfolding scanned_def by blast
qed

text \<open>A commit hands out what was scanned; the records were waiting and are in flight after it.\<close>

lemma commit_outcome:
  assumes inv: "registry_inv C view g" and q: "name_ok q" and s: "scanned t q g (results, batch, poisoned)"
    and r: "dequeue_commit R g (results, batch, poisoned) = (res, g')"
  shows "registry_inv C view g'" and "t' \<noteq> t \<or> q' \<noteq> q \<Longrightarrow> name_ok q' \<Longrightarrow> keeps t' q' g g'"
    and "res = Inr out \<Longrightarrow> out = results \<and> (\<exists>P I D P' I' D'. tenant_at (view (db g)) t P I D \<and> tenant_at (view (db g')) t P' I' D' \<and>
        fst ` set results \<subseteq> dom P - dom I \<and> fst ` set results \<inter> dom P' = {} \<and>
        (\<forall>(k, x) \<in> set results. I' k = Some (enc x)) \<and> (\<forall>k \<in> dom I. I' k = I k))"
proof -
  obtain P I D ys clk dl where T: "tenant_at (view (db g)) t P I D"
    and pl: "results = delivered C dl ys" "batch = dequeue_ops C enc t q clk dl 0 ys" "poisoned = length (filter (\<lambda>(k, v). corrupt C v) ys)"
    and ys: "distinct (map fst ys)" "set ys \<subseteq> set (entries P q)" using s unfolding scanned_def by (elim exE conjE) simp
  let ?P = "P |` (- fst ` set ys)" and ?I = "I ++ map_of (enc_all enc (delivered C dl ys))"
    and ?D = "D ++ map_of (enc_all enc (envelopes C q clk 0 ys))"
  note tinv = registry_inv_tenant [OF inv T]
  note fin = tenant_finite(1) [OF T]
  have post: "seq g' = seq g \<and> (case res of Inl e \<Rightarrow> db g' = db g | Inr out \<Rightarrow> out = results \<and>
      tenant_at (view (db g')) t ?P ?I ?D \<and> same_elsewhere t (view (db g)) (view (db g')))"
  proof (cases "results \<noteq> [] \<or> poisoned > 0")
    case True
    with r dequeue_effect [OF T ys(1), of q clk dl] show ?thesis
      unfolding pl by (auto simp: dequeue_commit_def lift_db_def write_view split: sum.splits)
  next
    case False
    then have "ys = []" unfolding pl by (cases ys) (auto simp: Let_def split: if_splits)
    with False r T show ?thesis unfolding pl by (auto simp: dequeue_commit_def enc_all_def)
  qed
  have keys: "fst ` set ys \<subseteq> dom P \<inter> in_queue q" using ys(2) fst_set_entries [OF fin, of q] by (metis image_mono)
  have out: "fst ` set results \<subseteq> fst ` set ys" unfolding pl by (rule fst_subset [OF fst_delivered])
  show "registry_inv C view g'"
  proof (cases res)
    case (Inl e)
    with post inv show ?thesis by (auto intro: registry_inv_same)
  next
    case (Inr x)
    with post show ?thesis
      by (intro registry_inv_update [OF inv, of g' t ?P ?I ?D]) (simp_all add: inv_consume [OF tinv fin q ys(2,1)])
  qed
  show "keeps t' q' g g'" if "t' \<noteq> t \<or> q' \<noteq> q" "name_ok q'"
  proof (cases res)
    case (Inl e)
    with post show ?thesis by (simp add: keeps_same)
  next
    case (Inr x)
    with post have "tenant_at (view (db g')) t ?P ?I ?D" "same_elsewhere t (view (db g)) (view (db g'))" by simp_all
    moreover have "\<forall>k \<in> in_queue q' \<inter> dom P. ?P k = P k" if "t' = t"
      using that \<open>t' \<noteq> t \<or> q' \<noteq> q\<close> in_queue_apart [OF \<open>name_ok q'\<close> q] keys by (auto simp: restrict_map_def)
    ultimately show ?thesis by (rule keeps_update [OF T])
  qed
  show "out = results \<and> (\<exists>P I D P' I' D'. tenant_at (view (db g)) t P I D \<and> tenant_at (view (db g')) t P' I' D' \<and>
        fst ` set results \<subseteq> dom P - dom I \<and> fst ` set results \<inter> dom P' = {} \<and>
        (\<forall>(k, x) \<in> set results. I' k = Some (enc x)) \<and> (\<forall>k \<in> dom I. I' k = I k))" if "res = Inr out"
  proof -
    have disj: "dom P \<inter> dom I = {}" using tinv by (simp add: tenant_inv_def disjoint3_def)
    have "fst ` set results \<subseteq> dom P" using order_trans [OF out keys] by (rule le_infE)
    with disj have outI: "fst ` set results \<inter> dom I = {}" "fst ` set results \<subseteq> dom P - dom I"
      by (metis Int_mono inf_commute order_refl subset_empty, metis Diff_triv Diff_mono order_refl)
    have "distinct (map fst (delivered C dl ys))" unfolding fst_delivered by (rule distinct_filter_fst [OF ys(1)])
    then have "?I k = Some (enc x)" if "(k, x) \<in> set results" for k x
      using that unfolding pl by (simp add: map_of_enc_all map_add_Some_iff map_of_eq_Some_iff)
    then have new: "\<forall>(k, x) \<in> set results. ?I k = Some (enc x)" by blast
    have old: "\<forall>k \<in> dom I. ?I k = I k" using outI(1) added_fresh(2) unfolding pl by metis
    have gone: "fst ` set results \<inter> dom ?P = {}" using out by auto
    have eq: "out = results" and T': "tenant_at (view (db g')) t ?P ?I ?D" using post that by simp_all
    show ?thesis
      by (rule conjI [OF eq], rule exI [of _ P], rule exI [of _ I], rule exI [of _ D], rule exI [of _ ?P], rule exI [of _ ?I],
          rule exI [of _ ?D]) (intro conjI T T' outI(2) gone new old)
  qed
qed

end

end
