(* ===== verification/Rq_Progress_Properties.thy ===== *)
theory Rq_Progress_Properties
  imports Rq_Worker_Properties Rq_Threads
begin

text \<open>
  Progress: whatever the handlers do, a worker that keeps taking batches from a queue nobody adds
  to empties it. The measure is the number of deliveries the pending records of the queue can still
  take: an attempt uses one up whether it fails or not.
\<close>

section \<open>The measure\<close>

text \<open>What is left for a task in flight, and for a pending record.\<close>

definition retries :: "task \<Rightarrow> nat" where
  "retries x = unat max_attempts - unat (attempts x)"

definition deliveries :: "task codec \<Rightarrow> bytes \<Rightarrow> nat" where
  "deliveries C v = (case bc_deserialize C v of Inl _ \<Rightarrow> 1 | Inr x \<Rightarrow> Suc (unat max_attempts - unat (attempts x + 1)))"

definition deliveries_left :: "task codec \<Rightarrow> kv \<Rightarrow> string \<Rightarrow> nat" where
  "deliveries_left C P q = sum_list (map (\<lambda>(k, v). deliveries C v) (entries P q))"

lemma sum_list_records:
  assumes "distinct (map fst xs)" "\<And>k v. (k, v) \<in> set xs \<Longrightarrow> P k = Some v"
  shows "sum_list (map (\<lambda>(k, v). f v) xs) = (\<Sum>k \<in> fst ` set xs. f (the (P k)))"
proof -
  have "map (\<lambda>(k, v). f v) xs = map (\<lambda>k. f (the (P k))) (map fst xs)"
    using assms(2) by (auto intro!: map_cong)
  with sum.distinct_set_conv_list [OF assms(1), of "\<lambda>k. f (the (P k))"] show ?thesis by (simp only: list.set_map)
qed

lemma deliveries_left_sum:
  assumes "finite (dom P)"
  shows "deliveries_left C P q = (\<Sum>k \<in> dom P \<inter> in_queue q. deliveries C (the (P k)))"
  unfolding deliveries_left_def fst_set_entries [OF assms, symmetric]
  using set_entries [OF assms] by (intro sum_list_records distinct_entries) auto

lemma deliveries_left_remove:
  assumes fin: "finite (dom P)" and ys: "prefix ys (entries P q)"
  shows "deliveries_left C (P |` (- fst ` set ys)) q + sum_list (map (\<lambda>(k, v). deliveries C v) ys) = deliveries_left C P q"
proof -
  let ?K = "fst ` set ys" and ?f = "\<lambda>k. deliveries C (the (P k))"
  have sub: "set ys \<subseteq> set (entries P q)" using ys by (rule set_mono_prefix)
  then have K: "?K \<subseteq> dom P \<inter> in_queue q" unfolding fst_set_entries [OF fin, symmetric] by (rule image_mono)
  have "sum_list (map (\<lambda>(k, v). deliveries C v) ys) = sum ?f ?K"
    using sub set_entries [OF fin] distinct_map_prefix [OF distinct_entries ys] by (intro sum_list_records) auto
  moreover have "deliveries_left C (P |` (- ?K)) q = sum ?f ((dom P \<inter> in_queue q) - ?K)"
    using fin by (subst deliveries_left_sum) (auto intro!: sum.cong)
  ultimately show ?thesis
    using sum.subset_diff [OF K, of ?f] fin by (simp add: deliveries_left_sum [OF fin])
qed

lemma deliveries_left_insert:
  assumes fin: "finite (dom P)" and k: "k \<notin> dom P" "k \<in> in_queue q"
  shows "deliveries_left C (P(k \<mapsto> v)) q = deliveries_left C P q + deliveries C v"
proof -
  have "dom (P(k \<mapsto> v)) \<inter> in_queue q = insert k (dom P \<inter> in_queue q)" using k by auto
  moreover have "(\<Sum>k' \<in> dom P \<inter> in_queue q. deliveries C (the ((P(k \<mapsto> v)) k'))) =
      (\<Sum>k' \<in> dom P \<inter> in_queue q. deliveries C (the (P k')))"
    using k by (intro sum.cong) auto
  ultimately show ?thesis using fin k by (subst (1 2) deliveries_left_sum) auto
qed

lemma deliveries_left_empty: "deliveries_left C P q = 0 \<Longrightarrow> qcount P q = 0"
proof -
  assume "deliveries_left C P q = 0"
  moreover have "deliveries C v \<noteq> 0" for v by (simp add: deliveries_def split: sum.splits)
  ultimately have "entries P q = []" unfolding deliveries_left_def by (cases "entries P q") (auto simp del: neq0_conv)
  then show ?thesis using length_entries [of P q] by simp
qed

text \<open>A delivery uses one up.\<close>

lemma deliveries_delivered:
  "sum_list (map (\<lambda>(k, v). deliveries C v) ys) = length ys + sum_list (map (\<lambda>(k, x). retries x) (delivered C dl ys))"
proof (induction ys)
  case (Cons kv ys)
  obtain k v where kv: "kv = (k, v)" by fastforce
  show ?case
    using Cons by (cases "bc_deserialize C v") (simp_all add: kv corrupt_def deliveries_def retries_def Let_def)
qed simp

lemma length_delivered_le: "length (delivered C dl ys) \<le> length ys"
  by (simp add: delivered_def)

lemma consumed_nonempty: "0 < n \<Longrightarrow> xs \<noteq> [] \<Longrightarrow> consumed C n xs \<noteq> []"
  by (cases xs) auto

lemma max_attempts_value: "unat max_attempts = 5"
  by (simp add: max_attempts_def)

section \<open>Settling a task\<close>

text \<open>The part of a map outside the queue.\<close>

definition others :: "kv \<Rightarrow> string \<Rightarrow> kv" where
  "others P q = P |` (- in_queue q)"

lemma others_simps [simp]:
  "k \<in> in_queue q \<Longrightarrow> others (P(k \<mapsto> v)) q = others P q" "K \<subseteq> in_queue q \<Longrightarrow> others (P |` (- K)) q = others P q"
  by (auto simp: others_def restrict_map_def fun_eq_iff)

text \<open>
  After a round the queue can take as many deliveries fewer as were made, no number is used that
  was not provided for, and the rest of the tenant is as it was.
\<close>

context reliable_env
begin

definition settled_to where
  "settled_to n n' t q P I m r \<longleftrightarrow> (\<exists>P' D'. tenant_at (view (db (nd_registry n'))) t P' I D' \<and>
     tenant_inv C (unat (seq (nd_registry n'))) P' I D' \<and> others P' q = others P q \<and>
     deliveries_left C P' q \<le> deliveries_left C P q + r \<and>
     unat (seq (nd_registry n')) \<le> unat (seq (nd_registry n)) + m)"

lemma settle_failed:
  assumes T: "tenant_at (view (db g)) t P I D" and inv: "tenant_inv C (unat (seq g)) P I D"
    and k: "I k = Some (enc x)" "k \<in> in_queue q" and q: "name_ok q" and wrap: "unat (seq g) + 1 < 2 ^ 64"
  shows "\<exists>g' P' D'. nack R C now g t k = (Inr (), g') \<and> tenant_at (view (db g')) t P' (I |` (- {k})) D' \<and>
    tenant_inv C (unat (seq g')) P' (I |` (- {k})) D' \<and> others P' q = others P q \<and>
    deliveries_left C P' q \<le> deliveries_left C P q + retries x \<and> unat (seq g') \<le> unat (seq g) + 1"
proof -
  have del: "I(k := None) = I |` (- {k})" by (auto simp: restrict_map_def)
  obtain g' where g': "nack R C now g t k = (Inr (), g')"
    and post: "case nack_fate_of C now I k of
        NotInflight \<Rightarrow> g' = g
      | ToDlq e \<Rightarrow> tenant_at (view (db g')) t P (I(k := None)) (D(k \<mapsto> enc e)) \<and> seq g' = seq g
      | ToDlqRaw v \<Rightarrow> tenant_at (view (db g')) t P (I(k := None)) (D(k \<mapsto> v)) \<and> seq g' = seq g
      | Retried x \<Rightarrow> tenant_at (view (db g')) t
          (P(encode_key (task_queue x) (seq g) \<mapsto> enc x)) (I(k := None)) D \<and> seq g' = seq g + 1"
    using nack_contract [OF T, of now k] by blast
  note inv' = env.inv_nack [OF inv wrap, where now = now and k = k]
  have ok: "key_ok (unat (seq g)) k" "task_queue x = key_queue k"
    using inv k(1) by (auto simp: tenant_inv_def inflight_ok_def dest!: all_kvD [of _ I])
  then have xq: "task_queue x = q" using key_ok_in_queue [OF _ k(2) q] by simp
  show ?thesis
  proof (cases "max_attempts \<le> attempts x")
    case True
    then have "nack_fate_of C now I k = ToDlqRaw (enc x)" by (simp add: nack_fate_of_def k(1))
    with g' post inv' show ?thesis unfolding del
      by (intro exI [of _ g'] exI [of _ P] exI [of _ "D(k \<mapsto> enc x)"]) simp
  next
    case False
    let ?k = "encode_key q (seq g)" and ?x = "x\<lparr>deadline := 0\<rparr>"
    have fate: "nack_fate_of C now I k = Retried ?x" using False by (simp add: nack_fate_of_def k(1))
    have seq: "unat (seq g + 1) = unat (seq g) + 1" using seq_no_wrap [OF wrap, of 1] by simp
    have few: "unat (attempts x) < 5" using False by (simp add: word_le_nat_alt max_attempts_value)
    then have "unat (attempts x + 1) = unat (attempts x) + 1" by (simp add: unat_word_ariths)
    with few have one: "deliveries C (enc ?x) = retries x"
      by (simp add: deliveries_def retries_def max_attempts_value)
    have "deliveries_left C (P(?k \<mapsto> enc ?x)) q = deliveries_left C P q + retries x"
      using tenant_inv_fresh [OF inv _ q, of "seq g"] deliveries_left_insert [OF env.tenant_finite(1) [OF T], of ?k q C "enc ?x"] one
      by simp
    moreover have "tenant_at (view (db g')) t (P(?k \<mapsto> enc ?x)) (I |` (- {k})) D" "seq g' = seq g + 1"
      using post unfolding fate del by (simp_all add: xq)
    moreover have "tenant_inv C (unat (seq g')) (P(?k \<mapsto> enc ?x)) (I |` (- {k})) D"
      using inv' calculation(3) unfolding fate del by (simp add: xq seq)
    ultimately show ?thesis using g' seq by (intro exI [of _ g'] exI [of _ "P(?k \<mapsto> enc ?x)"] exI [of _ D]) simp
  qed
qed

lemma settle_one:
  assumes T: "tenant_at (view (db (nd_registry n))) t P I D" and inv: "tenant_inv C (unat (seq (nd_registry n))) P I D"
    and k: "I k = Some (enc x)" "k \<in> in_queue q" and q: "name_ok q" and wrap: "unat (seq (nd_registry n)) + 1 < 2 ^ 64"
  shows "settled_to n (process_task R C handler latency now n t k x) t q P (I |` (- {k})) 1 (retries x)"
proof (cases "handler t x")
  case (Inl e)
  from settle_failed [OF T inv k q wrap, of now] obtain g' P' D' where g': "nack R C now (nd_registry n) t k = (Inr (), g')"
    "tenant_at (view (db g')) t P' (I |` (- {k})) D'" "tenant_inv C (unat (seq g')) P' (I |` (- {k})) D'"
    "others P' q = others P q" "deliveries_left C P' q \<le> deliveries_left C P q + retries x"
    "unat (seq g') \<le> unat (seq (nd_registry n)) + 1" by (elim exE conjE)
  with Inl show ?thesis
    unfolding settled_to_def by (intro exI [of _ P'] exI [of _ D']) (simp add: process_task_def)
next
  case (Inr u)
  then have ok: "handler t x = Inr ()" by simp
  obtain g' where a: "ack_batch R (nd_registry n) t [k] = (Inr 1, g')" and g': "tenant_at (view (db g')) t P (I |` (- {k})) D"
    using ack_contract [OF T, of "[k]"] k(1) by (auto simp: domIff)
  from env.ack_batch_outcome [OF T a] have "g' = (nd_registry n)\<lparr>db := db g', ack_locks := ack_locks g'\<rparr>" by blast
  then have seq: "seq g' = seq (nd_registry n)" by (rule seq_update(2))
  have "tenant_inv C (unat (seq (nd_registry n))) P (I |` (- {k})) D"
    using inv by (rule tenant_inv_submap) simp_all
  moreover have "nd_registry (process_task R C handler latency now n t k x) = g'"
    using a unfolding process_task_def ok sum.case old.unit.case by (simp add: ack_def)
  ultimately show ?thesis using g' seq unfolding settled_to_def by (intro exI [of _ P] exI [of _ D]) simp
qed

lemma settled_trans:
  assumes "settled_to n n1 t q P I1 m r" "\<And>P1 D1. tenant_at (view (db (nd_registry n1))) t P1 I1 D1 \<Longrightarrow>
      tenant_inv C (unat (seq (nd_registry n1))) P1 I1 D1 \<Longrightarrow> deliveries_left C P1 q \<le> deliveries_left C P q + r \<Longrightarrow>
      unat (seq (nd_registry n1)) \<le> unat (seq (nd_registry n)) + m \<Longrightarrow> settled_to n1 n2 t q P1 I2 m' r'"
  shows "settled_to n n2 t q P I2 (m + m') (r + r')"
proof -
  obtain P1 D1 where 1: "tenant_at (view (db (nd_registry n1))) t P1 I1 D1" "tenant_inv C (unat (seq (nd_registry n1))) P1 I1 D1"
    "others P1 q = others P q" "deliveries_left C P1 q \<le> deliveries_left C P q + r"
    "unat (seq (nd_registry n1)) \<le> unat (seq (nd_registry n)) + m"
    using assms(1) unfolding settled_to_def by (elim exE conjE)
  from assms(2) [OF 1(1,2,4,5)] obtain P2 D2 where 2: "tenant_at (view (db (nd_registry n2))) t P2 I2 D2"
    "tenant_inv C (unat (seq (nd_registry n2))) P2 I2 D2" "others P2 q = others P1 q"
    "deliveries_left C P2 q \<le> deliveries_left C P1 q + r'" "unat (seq (nd_registry n2)) \<le> unat (seq (nd_registry n1)) + m'"
    unfolding settled_to_def by (elim exE conjE)
  from 1 2 show ?thesis unfolding settled_to_def by (intro exI [of _ P2] exI [of _ D2]) simp
qed

lemma settle_many:
  "tenant_at (view (db (nd_registry n))) t P I D \<Longrightarrow> tenant_inv C (unat (seq (nd_registry n))) P I D \<Longrightarrow>
   distinct (map fst xs) \<Longrightarrow> (\<And>k x. (k, x) \<in> set xs \<Longrightarrow> I k = Some (enc x) \<and> k \<in> in_queue q) \<Longrightarrow> name_ok q \<Longrightarrow>
   unat (seq (nd_registry n)) + length xs < 2 ^ 64 \<Longrightarrow>
   settled_to n (process_tasks R C handler latency now t xs n) t q P (I |` (- fst ` set xs)) (length xs)
     (sum_list (map (\<lambda>(k, x). retries x) xs))"
proof (induction xs arbitrary: n P I D)
  case Nil
  then show ?case unfolding settled_to_def by auto
next
  case (Cons kx xs)
  obtain k x where kx: "kx = (k, x)" by fastforce
  let ?n = "process_task R C handler (latency k) (now k) n t k x"
  have I: "I |` (- {k}) |` (- fst ` set xs) = I |` (- fst ` set (kx # xs))" using kx by (auto simp: restrict_map_def)
  have k: "I k = Some (enc x)" "k \<in> in_queue q" using Cons.prems(4) [of k x] kx by simp_all
  have "settled_to n ?n t q P (I |` (- {k})) 1 (retries x)"
    using Cons.prems(6) by (intro settle_one [OF Cons.prems(1,2) k Cons.prems(5)]) simp
  moreover have "settled_to ?n (process_tasks R C handler latency now t xs ?n) t q P1 (I |` (- {k}) |` (- fst ` set xs)) (length xs)
      (sum_list (map (\<lambda>(k, x). retries x) xs))"
    if "tenant_at (view (db (nd_registry ?n))) t P1 (I |` (- {k})) D1" "tenant_inv C (unat (seq (nd_registry ?n))) P1 (I |` (- {k})) D1"
      "unat (seq (nd_registry ?n)) \<le> unat (seq (nd_registry n)) + 1" for P1 D1
    using that Cons.prems(3-6) kx by (intro Cons.IH [of ?n P1 "I |` (- {k})" D1]) (force simp: restrict_map_def)+
  ultimately have "settled_to n (process_tasks R C handler latency now t xs ?n) t q P (I |` (- {k}) |` (- fst ` set xs))
      (1 + length xs) (retries x + sum_list (map (\<lambda>(k, x). retries x) xs))"
    by (rule settled_trans)
  then show ?case unfolding I using kx by simp
qed

text \<open>One batch of a worker.\<close>

lemma work_queue_settles:
  assumes T: "tenant_at (view (db (nd_registry n))) t P I D" and inv: "tenant_inv C (unat (seq (nd_registry n))) P I D"
    and q: "name_ok q" and wrap: "unat (seq (nd_registry n)) + deliveries_left C P q < 2 ^ 64"
  shows "\<exists>P' D'. tenant_at (view (db (nd_registry (work_queue R C handler latency now clk slots t q n)))) t P' I D' \<and>
    tenant_inv C (unat (seq (nd_registry (work_queue R C handler latency now clk slots t q n)))) P' I D' \<and>
    others P' q = others P q \<and>
    deliveries_left C P' q + length (consumed C slots (entries P q)) \<le> deliveries_left C P q \<and>
    unat (seq (nd_registry (work_queue R C handler latency now clk slots t q n))) + deliveries_left C P' q
      \<le> unat (seq (nd_registry n)) + deliveries_left C P q"
proof -
  let ?ys = "consumed C slots (entries P q)"
  let ?out = "delivered C (saturating_add (clk 0) DEFAULT_VISIBILITY_TIMEOUT_MS) ?ys"
  let ?P = "P |` (- fst ` set ?ys)" and ?I = "I ++ stored C ?out" and ?D = "D ++ stored C (envelopes C q clk 0 ?ys)"
  have fin: "finite (dom P)" by (rule env.tenant_finite [OF T])
  obtain g where g: "dequeue R C clk (nd_registry n) t q slots = (Inr ?out, g)" "tenant_at (view (db g)) t ?P ?I ?D"
    using dequeue_contract [OF T, of clk q slots DEFAULT_VISIBILITY_TIMEOUT_MS] unfolding dequeue_def by blast
  have T': "tenant_at (view (db (queue_lock (nd_registry n) t q))) t P I D" using T by simp
  have "g = (queue_lock (nd_registry n) t q)\<lparr>db := db g\<rparr>"
    using env.dequeue_unlocked_outcome [OF T', of clk q slots DEFAULT_VISIBILITY_TIMEOUT_MS] g(1)
    unfolding dequeue_def dequeue_batch_def by blast
  from seq_update(1) [OF this] have seq: "seq g = seq (nd_registry n)" by simp
  have "tenant_inv C (unat (seq g)) ?P ?I ?D"
    using env.inv_dequeue [OF inv fin q prefix_consumed] unfolding seq stored_def .
  then have G: "tenant_at (view (db (nd_registry (n\<lparr>nd_registry := g\<rparr>)))) t ?P ?I ?D"
    "tenant_inv C (unat (seq (nd_registry (n\<lparr>nd_registry := g\<rparr>)))) ?P ?I ?D" using g(2) by simp_all
  have left: "deliveries_left C ?P q + (length ?ys + sum_list (map (\<lambda>(k, x). retries x) ?out)) = deliveries_left C P q"
    using deliveries_left_remove [OF fin prefix_consumed [of C slots "entries P q"], of C]
    unfolding deliveries_delivered [where dl = "saturating_add (clk 0) DEFAULT_VISIBILITY_TIMEOUT_MS"] .
  have few: "length ?out \<le> length ?ys" by (rule length_delivered_le)
  have keys: "?I k = Some (enc x) \<and> k \<in> in_queue q" if "(k, x) \<in> set ?out" for k x
  proof -
    have "map_of ?out k = Some x" using that distinct_delivered by (simp add: map_of_eq_Some_iff)
    moreover have "k \<in> in_queue q"
      using delivered_pending [OF fin, of k] that set_consumed [of C slots "entries P q"] fst_set_entries [OF fin, of q]
        in_delivered [OF that] by (metis IntD2 fst_conv image_eqI subsetD)
    ultimately show ?thesis by (simp add: map_add_Some_iff stored_apply)
  qed
  let ?n1 = "n\<lparr>nd_registry := g\<rparr>"
  have "settled_to ?n1 (process_tasks R C handler latency now t ?out ?n1) t q ?P (?I |` (- fst ` set ?out)) (length ?out)
      (sum_list (map (\<lambda>(k, x). retries x) ?out))"
    using keys wrap seq left few by (intro settle_many [OF G distinct_delivered]) (simp_all add: q)
  moreover have "?I |` (- fst ` set ?out) = I" by (rule settle_all [OF delivered_fresh [OF T inv]])
  moreover have eq: "work_queue R C handler latency now clk slots t q n = process_tasks R C handler latency now t ?out ?n1"
    using g(1) by (simp add: work_queue_def)
  ultimately have "settled_to ?n1 (work_queue R C handler latency now clk slots t q n) t q ?P I (length ?out)
      (sum_list (map (\<lambda>(k, x). retries x) ?out))" by simp
  then obtain P' D' where p: "tenant_at (view (db (nd_registry (work_queue R C handler latency now clk slots t q n)))) t P' I D'"
    "tenant_inv C (unat (seq (nd_registry (work_queue R C handler latency now clk slots t q n)))) P' I D'"
    "others P' q = others ?P q" "deliveries_left C P' q \<le> deliveries_left C ?P q + sum_list (map (\<lambda>(k, x). retries x) ?out)"
    "unat (seq (nd_registry (work_queue R C handler latency now clk slots t q n))) \<le> unat (seq (nd_registry ?n1)) + length ?out"
    unfolding settled_to_def by (elim exE conjE)
  have "others ?P q = others P q"
    using set_consumed [of C slots "entries P q"] fst_set_entries [OF fin, of q] by (intro others_simps) blast
  moreover have "deliveries_left C P' q + length ?ys \<le> deliveries_left C P q" using p(4) left by linarith
  moreover from this have "unat (seq (nd_registry (work_queue R C handler latency now clk slots t q n))) + deliveries_left C P' q
      \<le> unat (seq (nd_registry n)) + deliveries_left C P q"
    using p(5) few seq by simp
  ultimately show ?thesis using p(1-3) by (intro exI [of _ P'] exI [of _ D']) simp
qed

lemma rounds_settle:
  "tenant_at (view (db (nd_registry n))) t P I D \<Longrightarrow> tenant_inv C (unat (seq (nd_registry n))) P I D \<Longrightarrow> name_ok q \<Longrightarrow>
   (\<And>r. 0 < slots r) \<Longrightarrow> unat (seq (nd_registry n)) + deliveries_left C P q < 2 ^ 64 \<Longrightarrow> deliveries_left C P q \<le> length rs \<Longrightarrow>
   \<exists>P' D'. tenant_at (view (db (nd_registry
       (fold (\<lambda>r. work_queue R C (handler r) (latency r) (now r) (clk r) (slots r) t q) rs n)))) t P' I D' \<and>
     others P' q = others P q \<and> deliveries_left C P' q = 0"
proof (induction rs arbitrary: n P D)
  case Nil
  then show ?case by auto
next
  case (Cons r rs)
  let ?n = "work_queue R C (handler r) (latency r) (now r) (clk r) (slots r) t q n"
  from work_queue_settles [OF Cons.prems(1-3,5), of "handler r" "latency r" "now r" "clk r" "slots r"] obtain P1 D1 where
    1: "tenant_at (view (db (nd_registry ?n))) t P1 I D1" "tenant_inv C (unat (seq (nd_registry ?n))) P1 I D1"
    "others P1 q = others P q" "deliveries_left C P1 q + length (consumed C (slots r) (entries P q)) \<le> deliveries_left C P q"
    "unat (seq (nd_registry ?n)) + deliveries_left C P1 q \<le> unat (seq (nd_registry n)) + deliveries_left C P q"
    by (elim exE conjE)
  have few: "deliveries_left C P1 q \<le> length rs"
  proof (cases "entries P q")
    case Nil
    then have "deliveries_left C P q = 0" by (simp add: deliveries_left_def)
    with 1(4) show ?thesis by linarith
  next
    case (Cons e es)
    then have "consumed C (slots r) (entries P q) \<noteq> []" using Cons.prems(4) by (intro consumed_nonempty) simp_all
    with 1(4) Cons.prems(6) show ?thesis by (cases "consumed C (slots r) (entries P q)") simp_all
  qed
  have wrap: "unat (seq (nd_registry ?n)) + deliveries_left C P1 q < 2 ^ 64" using 1(5) Cons.prems(5) by (rule le_less_trans)
  from Cons.IH [OF 1(1,2) Cons.prems(3,4) wrap few] obtain P2 D2 where
    "tenant_at (view (db (nd_registry (fold (\<lambda>r. work_queue R C (handler r) (latency r) (now r) (clk r) (slots r) t q) rs ?n)))) t P2 I D2"
    "others P2 q = others P1 q" "deliveries_left C P2 q = 0"
    by (elim exE conjE)
  with 1(3) show ?case by (intro exI [of _ P2] exI [of _ D2]) simp
qed

end

section \<open>Workers empty a queue\<close>

text \<open>
  C10. Workers make progress whatever the handlers do. If nothing is added to a queue from
  outside, then after at most as many batches as its pending records can take deliveries (five for a
  new task) nothing of it is pending and exactly what was in flight before is in flight: every task has been
  acknowledged or is a dead letter, even if every handler fails every time. The other queues
  of the tenant are left alone.
\<close>

theorem workers_drain:
  assumes "reliable_env R view C" and "tenant_at (view (db (nd_registry n))) t P I D"
    and "tenant_inv C (unat (seq (nd_registry n))) P I D" and "name_ok q" and "\<And>r. 0 < slots r"
    and "unat (seq (nd_registry n)) + deliveries_left C P q < 2 ^ 64" and "deliveries_left C P q \<le> length rounds"
  shows "let n' = fold (\<lambda>r. work_queue R C (handler r) (latency r) (now r) (clk r) (slots r) t q) rounds n
    in \<exists>P' D'. tenant_at (view (db (nd_registry n'))) t P' I D' \<and> qcount P' q = 0 \<and>
      (\<forall>q'. name_ok q' \<longrightarrow> q' \<noteq> q \<longrightarrow> entries P' q' = entries P q')"
proof -
  obtain P' D' where p: "tenant_at (view (db (nd_registry
       (fold (\<lambda>r. work_queue R C (handler r) (latency r) (now r) (clk r) (slots r) t q) rounds n)))) t P' I D'"
    "others P' q = others P q" "deliveries_left C P' q = 0"
    using reliable_env.rounds_settle [where latency = latency and now = now and clk = clk and handler = handler and slots = slots, OF assms] by (elim exE conjE)
  have "entries P' q' = entries P q'" if "name_ok q'" "q' \<noteq> q" for q'
  proof -
    from in_queue_apart [OF that(1) assms(4) that(2)] have "P' |` in_queue q' = others P' q |` in_queue q'" "P |` in_queue q' = others P q |` in_queue q'"
      by (auto simp: others_def restrict_map_def fun_eq_iff)
    with p(2) show ?thesis by (simp add: entries_def)
  qed
  with p(1) deliveries_left_empty [OF p(3)] show ?thesis unfolding Let_def by blast
qed

text \<open>Two tasks and an unreadable record are pending; every handler fails.\<close>

theorem workers_drain_witness:
  "\<exists>P' D'. tenant_at (mem_view (db (nd_registry (fold (\<lambda>r. work_queue mem_rocksdb ref_task_codec
       (\<lambda>t x. Inl (QueueNotFound ''down'')) (\<lambda>_. 0) (\<lambda>_. 0) (\<lambda>_. 100) 2 ''t'' ''q'') [0..<20] sample_node))))
       ''t'' P' (map_of sample_inflight) D' \<and> qcount P' ''q'' = 0"
proof -
  have T: "tenant_at (mem_view (db (nd_registry sample_node))) ''t'' (map_of sample_pending) (map_of sample_inflight) (map_of sample_dlq)"
    using sample_tenant by (simp add: sample_node_def)
  have inv: "tenant_inv ref_task_codec (unat (seq (nd_registry sample_node))) (map_of sample_pending) (map_of sample_inflight) (map_of sample_dlq)"
    using sample_tenant_inv by (simp add: sample_node_def)
  have "deliveries ref_task_codec v \<le> 6" for v
    by (simp add: deliveries_def max_attempts_value split: sum.splits)
  then have "sum_list (map (\<lambda>(k, v). deliveries ref_task_codec v) xs) \<le> 6 * length xs" for xs :: "(bytes \<times> bytes) list"
    by (induction xs) (auto intro: add_mono)
  from this [of sample_pending] have left: "deliveries_left ref_task_codec (map_of sample_pending) ''q'' \<le> 18"
    unfolding deliveries_left_def sample_entries by (simp add: sample_pending_def)
  then have wrap: "unat (seq (nd_registry sample_node)) + deliveries_left ref_task_codec (map_of sample_pending) ''q'' < 2 ^ 64"
    and len: "deliveries_left ref_task_codec (map_of sample_pending) ''q'' \<le> length [0..<20]"
    by (simp_all add: sample_node_def sample_def)
  have pos: "0 < (\<lambda>_ :: nat. 2 :: nat) r" for r by simp
  show ?thesis
    using workers_drain [where slots = "\<lambda>_. 2" and handler = "\<lambda>_ t x. Inl (QueueNotFound ''down'')" and latency = "\<lambda>_ _. 0"
        and now = "\<lambda>_ _. 0" and clk = "\<lambda>_ _. 100", OF ref.reliable_env_axioms T inv sample_name pos wrap len]
    unfolding Let_def by blast
qed

end
