(* ===== verification/Rq_Batch_Properties.thy ===== *)
theory Rq_Batch_Properties
  imports Rq_Samples
begin

text \<open>
  The batch operations against their reference: a batch does what the single operations do one
  after the other.
\<close>

section \<open>One at a time\<close>

fun enqueue_each ::
  "'db rocksdb \<Rightarrow> task codec \<Rightarrow> (nat \<Rightarrow> u64) \<Rightarrow> (nat \<Rightarrow> 'db registry \<Rightarrow> 'db registry) \<Rightarrow> u64 \<Rightarrow> (nat \<Rightarrow> string)
   \<Rightarrow> 'db registry \<Rightarrow> string \<Rightarrow> string \<Rightarrow> bytes list \<Rightarrow> namespace_policy \<Rightarrow> ('db registry, string list) outcome option" where
  "enqueue_each R C clk env now uuid g t q [] policy = Some (Inr [], g)"
| "enqueue_each R C clk env now uuid g t q (p # ps) policy =
     (case enqueue R C clk env now uuid g t q p policy of
        None \<Rightarrow> None
      | Some (Inl e, g) \<Rightarrow> Some (Inl e, g)
      | Some (Inr uid, g) \<Rightarrow>
          map_option (\<lambda>r. bind_op r (\<lambda>ids g. (Inr (uid # ids), g)))
            (enqueue_each R C clk env now (\<lambda>i. uuid (Suc i)) g t q ps policy))"

fun ack_each :: "'db rocksdb \<Rightarrow> 'db registry \<Rightarrow> string \<Rightarrow> bytes list \<Rightarrow> ('db registry, nat) outcome" where
  "ack_each R g t [] = (Inr 0, g)"
| "ack_each R g t (k # ks) =
     bind_op (ack R g t k) (\<lambda>acked g. bind_op (ack_each R g t ks) (\<lambda>n g. (Inr ((if acked then 1 else 0) + n), g)))"

lemma tenant_view_eq:
  "tenant_at V t P I D \<Longrightarrow> tenant_at V' t P I D \<Longrightarrow> same_elsewhere t V0 V \<Longrightarrow> same_elsewhere t V0 V' \<Longrightarrow> V' = V"
  unfolding tenant_at_def same_elsewhere_def fun_eq_iff by metis

lemma stored_Cons:
  "distinct (map fst (kx # xs)) \<Longrightarrow> P ++ stored C (kx # xs) = (P ++ stored C [kx]) ++ stored C xs"
proof
  fix k
  assume "distinct (map fst (kx # xs))"
  then have "map_of xs (fst kx) = None" by (simp add: map_of_eq_None_iff)
  then show "(P ++ stored C (kx # xs)) k = ((P ++ stored C [kx]) ++ stored C xs) k"
    by (cases kx; cases "map_of xs k"; cases "k = fst kx") (auto simp: map_add_def stored_apply)
qed

context reliable_env
begin

lemma enqueue_each_contract:
  "tenant_at (view (db g)) t P I D \<Longrightarrow> unat (seq g) + length ps < 2 ^ 64 \<Longrightarrow> np_backlog_quota policy = None \<Longrightarrow>
   \<exists>g'. enqueue_each R C clk envr now uuid g t q ps policy = Some (Inr (map uuid [0..<length ps]), g') \<and>
     tenant_at (view (db g')) t (P ++ stored C (new_records q now uuid (seq g) 0 ps)) I D \<and>
     same_elsewhere t (view (db g)) (view (db g')) \<and> unat (seq g') = unat (seq g) + length ps"
proof (induction ps arbitrary: g P uuid)
  case Nil
  then show ?case by (auto simp: stored_def enc_all_def)
next
  case (Cons p ps)
  have wrap1: "unat (seq g) + length [p] < 2 ^ 64" using Cons.prems(2) by simp
  obtain g1 where 1: "enqueue_batch_sync R C clk envr now uuid g t q [p] policy = Some (Inr (map uuid [0..<length [p]]), g1)"
    "tenant_at (view (db g1)) t (P ++ stored C (new_records q now uuid (seq g) 0 [p])) I D"
    "same_elsewhere t (view (db g)) (view (db g1))" "unat (seq g1) = unat (seq g) + length [p]"
    using enqueue_contract [OF Cons.prems(1) wrap1 Cons.prems(3)] by blast
  have e: "enqueue R C clk envr now uuid g t q p policy = Some (Inr (uuid 0), g1)"
    using 1(1) by (simp add: enqueue_def)
  have wrap2: "unat (seq g1) + length ps < 2 ^ 64" using 1(4) Cons.prems(2) by simp
  obtain g2 where 2: "enqueue_each R C clk envr now (\<lambda>i. uuid (Suc i)) g1 t q ps policy = Some (Inr (map (\<lambda>i. uuid (Suc i)) [0..<length ps]), g2)"
    "tenant_at (view (db g2)) t ((P ++ stored C (new_records q now uuid (seq g) 0 [p])) ++
       stored C (new_records q now (\<lambda>i. uuid (Suc i)) (seq g1) 0 ps)) I D"
    "same_elsewhere t (view (db g1)) (view (db g2))" "unat (seq g2) = unat (seq g1) + length ps"
    using Cons.IH [OF 1(2) wrap2 Cons.prems(3)] by blast
  have seq1: "seq g1 = seq g + 1"
    using 1(4) seq_no_wrap [OF wrap1, of 1] by (simp add: word_unat_eq_iff)
  have shift: "new_records q now (\<lambda>i. uuid (Suc i)) s i ps = new_records q now uuid s (Suc i) ps" for s i ps
    by (induction ps arbitrary: s i) (simp_all add: new_task_def)
  have recs: "new_records q now uuid (seq g) 0 (p # ps) =
      hd (new_records q now uuid (seq g) 0 [p]) # new_records q now (\<lambda>i. uuid (Suc i)) (seq g1) 0 ps"
    by (simp add: seq1 shift)
  have "P ++ stored C (new_records q now uuid (seq g) 0 (p # ps)) =
      (P ++ stored C (new_records q now uuid (seq g) 0 [p])) ++ stored C (new_records q now (\<lambda>i. uuid (Suc i)) (seq g1) 0 ps)"
    using distinct_new_records [OF Cons.prems(2), of q now uuid 0] unfolding recs by (subst stored_Cons) simp_all
  moreover have "map uuid [0..<length (p # ps)] = uuid 0 # map (\<lambda>i. uuid (Suc i)) [0..<length ps]"
    by (simp add: upt_conv_Cons map_Suc_upt [symmetric] comp_def del: upt_Suc)
  ultimately show ?case
    using e 2 1(3,4) by (auto intro: same_elsewhere_trans)
qed

lemma ack_each_contract:
  "tenant_at (view (db g)) t P I D \<Longrightarrow> \<exists>g'. ack_each R g t ks = (Inr (card (set ks \<inter> dom I)), g') \<and>
     tenant_at (view (db g')) t P (I |` (- set ks)) D \<and> same_elsewhere t (view (db g)) (view (db g'))"
proof (induction ks arbitrary: g I)
  case Nil
  then show ?case by auto
next
  case (Cons k ks)
  obtain g1 where 1: "ack_batch R g t [k] = (Inr (card (set [k] \<inter> dom I)), g1)"
    "tenant_at (view (db g1)) t P (I |` (- set [k])) D" "same_elsewhere t (view (db g)) (view (db g1))"
    using ack_contract [OF Cons.prems] by blast
  obtain g2 where 2: "ack_each R g1 t ks = (Inr (card (set ks \<inter> dom (I |` (- set [k])))), g2)"
    "tenant_at (view (db g2)) t P (I |` (- set [k]) |` (- set ks)) D" "same_elsewhere t (view (db g1)) (view (db g2))"
    using Cons.IH [OF 1(2)] by blast
  have split: "set (k # ks) \<inter> dom I = (set [k] \<inter> dom I) \<union> (set ks \<inter> dom (I |` (- set [k])))" by auto
  have "card (set (k # ks) \<inter> dom I) = card (set [k] \<inter> dom I) + card (set ks \<inter> dom (I |` (- set [k])))"
    unfolding split by (rule card_Un_disjoint) auto
  moreover have "card (set [k] \<inter> dom I) = (if card (set [k] \<inter> dom I) = 1 then 1 else 0)"
    by (cases "k \<in> dom I") simp_all
  moreover have "I |` (- set [k]) |` (- set ks) = I |` (- set (k # ks))" by (auto simp: restrict_map_def)
  ultimately show ?case
    using 1 2 same_elsewhere_trans [OF 1(3) 2(3)] by (simp add: ack_def)
qed

end

section \<open>Batches\<close>

text \<open>
  C33. Batches are equivalent to single operations in sequence. To enqueue a batch for a tenant
  without a quota gives the identifiers, the contents of every column family and the sequence counter
  that enqueueing the payloads one by one gives; to acknowledge a batch of keys, repeated or
  unknown ones among them, counts and removes what acknowledging them one by one does.
\<close>

theorem batches_are_sequences:
  assumes "reliable_env R view C" and "tenant_at (view (db g)) t P I D"
  shows "(unat (seq g) + length ps < 2 ^ 64 \<longrightarrow> np_backlog_quota policy = None \<longrightarrow>
      (\<exists>ids g1 g2. enqueue_batch_sync R C clk env now uuid g t q ps policy = Some (Inr ids, g1) \<and>
        enqueue_each R C clk env now uuid g t q ps policy = Some (Inr ids, g2) \<and>
        view (db g1) = view (db g2) \<and> seq g1 = seq g2)) \<and>
    (\<exists>n g1 g2. ack_batch R g t ks = (Inr n, g1) \<and> ack_each R g t ks = (Inr n, g2) \<and> view (db g1) = view (db g2))"
proof (intro conjI impI)
  assume wrap: "unat (seq g) + length ps < 2 ^ 64" and quota: "np_backlog_quota policy = None"
  note b = reliable_env.enqueue_contract [OF assms wrap quota, where clk = clk and envr = env and now = now and uuid = uuid and q = q]
  note e = reliable_env.enqueue_each_contract [OF assms wrap quota, where clk = clk and envr = env and now = now and uuid = uuid and q = q]
  from b e show "\<exists>ids g1 g2. enqueue_batch_sync R C clk env now uuid g t q ps policy = Some (Inr ids, g1) \<and>
        enqueue_each R C clk env now uuid g t q ps policy = Some (Inr ids, g2) \<and>
        view (db g1) = view (db g2) \<and> seq g1 = seq g2"
    by (elim exE conjE) (intro exI conjI, assumption+, auto intro: tenant_view_eq simp: word_unat_eq_iff)
next
  from reliable_env.ack_contract [OF assms, of ks] reliable_env.ack_each_contract [OF assms, of ks]
  show "\<exists>n g1 g2. ack_batch R g t ks = (Inr n, g1) \<and> ack_each R g t ks = (Inr n, g2) \<and> view (db g1) = view (db g2)"
    by (elim exE conjE) (intro exI conjI, assumption+, auto intro: tenant_view_eq)
qed

theorem batches_are_sequences_witness:
  "\<exists>ids g1 g2. enqueue_batch_sync mem_rocksdb ref_task_codec (\<lambda>_. 0) (\<lambda>_ g. g) 7 (\<lambda>i. show_nat i) sample ''t'' ''q'' [[1], [2]]
       ((standard_policy ''t'')\<lparr>np_backlog_quota := None\<rparr>) = Some (Inr ids, g1) \<and>
     enqueue_each mem_rocksdb ref_task_codec (\<lambda>_. 0) (\<lambda>_ g. g) 7 (\<lambda>i. show_nat i) sample ''t'' ''q'' [[1], [2]]
       ((standard_policy ''t'')\<lparr>np_backlog_quota := None\<rparr>) = Some (Inr ids, g2) \<and>
     mem_view (db g1) = mem_view (db g2) \<and> seq g1 = seq g2"
proof -
  have "unat (seq sample) + length [[1 :: u8], [2]] < 2 ^ 64" by (simp add: sample_def)
  moreover have "np_backlog_quota ((standard_policy ''t'')\<lparr>np_backlog_quota := None\<rparr>) = None" by simp
  ultimately show ?thesis
    using batches_are_sequences [OF ref.reliable_env_axioms sample_tenant] by blast
qed

end
