(* ===== verification/Rq_Service.thy ===== *)
theory Rq_Service
  imports Rq_Contracts
begin

text \<open>
  What a tenant's queues promise, without keys, bytes and column families: a service that holds three
  lists of numbered tasks. Every operation of \<open>tenant.rs\<close> on queues is a command; \<open>serve\<close> says what the
  service answers and becomes, \<open>perform\<close> calls the operation of the registry. The lemmas of this theory
  relate lists of numbered tasks to the finite maps of a column family; the simulation is in
  \<open>Rq_Service_Facts\<close>.
\<close>

section \<open>The service\<close>

type_synonym numbered = "nat \<times> task"

record service =
  sv_waiting :: "numbered list"
  sv_leased :: "numbered list"
  sv_dead :: "numbered list"
  sv_next :: nat

text \<open>What a client sees of a numbered task: an opaque key.\<close>

definition handle :: "numbered \<Rightarrow> bytes" where
  "handle e = encode_key (task_queue (snd e)) (of_nat (fst e))"

definition of_queue :: "string \<Rightarrow> numbered list \<Rightarrow> numbered list" where
  "of_queue q xs = filter (\<lambda>e. task_queue (snd e) = q) xs"

definition without :: "bytes list \<Rightarrow> numbered list \<Rightarrow> numbered list" where
  "without hs xs = filter (\<lambda>e. handle e \<notin> set hs) xs"

definition joined :: "numbered list \<Rightarrow> numbered list \<Rightarrow> numbered list" where
  "joined xs ys = sort_key fst (xs @ ys)"

definition number_from :: "nat \<Rightarrow> task list \<Rightarrow> numbered list" where
  "number_from n xs = zip [n..<n + length xs] xs"

definition change :: "(task \<Rightarrow> task) \<Rightarrow> numbered list \<Rightarrow> numbered list" where
  "change f xs = map (apsnd f) xs"

datatype command =
    Enqueue string "bytes list" namespace_policy u64 "nat \<Rightarrow> string"
  | Dequeue string nat u64 "nat \<Rightarrow> u64"
  | DequeueCapped string nat u64 nat "nat \<Rightarrow> u64"
  | Ack "bytes list"
  | Nack bytes u64
  | CumulativeAck string u64
  | Reap string "nat \<Rightarrow> u64"
  | Purge
  | Replay
  | Depth string

datatype service_reply = Ids "string list" | Tasks "(bytes \<times> task) list" | Counted nat | Depths nat nat nat | Settled | Refused queue_error

definition seen :: "numbered list \<Rightarrow> (bytes \<times> task) list" where
  "seen xs = map (\<lambda>e. (handle e, snd e)) xs"

text \<open>The tasks of a queue in the order of their numbers, the first \<open>limit\<close> of them leased.\<close>

definition lease :: "string \<Rightarrow> nat \<Rightarrow> u64 \<Rightarrow> service \<Rightarrow> service_reply \<times> service" where
  "lease q limit dl S =
     (let taken = take limit (of_queue q (sv_waiting S));
          out = change (\<lambda>x. x\<lparr>attempts := attempts x + 1, deadline := dl\<rparr>) taken
      in (Tasks (seen out), S\<lparr>sv_waiting := without (map handle taken) (sv_waiting S), sv_leased := joined (sv_leased S) out\<rparr>))"

definition accept :: "string \<Rightarrow> bytes list \<Rightarrow> u64 \<Rightarrow> (nat \<Rightarrow> string) \<Rightarrow> service \<Rightarrow> service_reply \<times> service" where
  "accept q ps now uuid S =
     (Ids (map uuid [0..<length ps]),
      S\<lparr>sv_waiting := sv_waiting S @ number_from (sv_next S) (map (\<lambda>i. new_task q now (uuid i) (ps ! i)) [0..<length ps]),
        sv_next := sv_next S + length ps\<rparr>)"

definition expired_task :: "u64 \<Rightarrow> numbered \<Rightarrow> bool" where
  "expired_task now e \<longleftrightarrow> deadline (snd e) > 0 \<and> deadline (snd e) < now"

fun serve :: "string \<Rightarrow> command \<Rightarrow> service \<Rightarrow> service_reply \<times> service" where
  "serve t (Enqueue q ps policy now uuid) S =
     (case np_backlog_quota policy of
        None \<Rightarrow> accept q ps now uuid S
      | Some Q \<Rightarrow>
          (let used = length (of_queue q (sv_waiting S)) + length (of_queue q (sv_leased S));
               excess = used + length ps - Q
           in if np_backlog_policy policy = EvictOldest
              then accept q ps now uuid
                (S\<lparr>sv_waiting := without (map handle (take excess (of_queue q (sv_waiting S)))) (sv_waiting S)\<rparr>)
              else if excess > 0 then (Refused (BacklogQuotaExceeded t q used Q (length ps)), S)
              else accept q ps now uuid S))"
| "serve t (Dequeue q limit timeout clk) S = lease q limit (saturating_add (clk 0) timeout) S"
| "serve t (DequeueCapped q limit timeout cap clk) S =
     lease q (min limit (cap - length (of_queue q (sv_leased S)))) (saturating_add (clk 0) timeout) S"
| "serve t (Ack ks) S =
     (Counted (length (filter (\<lambda>e. handle e \<in> set ks) (sv_leased S))), S\<lparr>sv_leased := without ks (sv_leased S)\<rparr>)"
| "serve t (Nack k now) S =
     (case find (\<lambda>e. handle e = k) (sv_leased S) of
        None \<Rightarrow> (Settled, S)
      | Some e \<Rightarrow>
          if attempts (snd e) \<ge> max_attempts
          then (Settled, S\<lparr>sv_leased := without [k] (sv_leased S), sv_dead := joined (sv_dead S) [e]\<rparr>)
          else (Settled, S\<lparr>sv_leased := without [k] (sv_leased S),
            sv_waiting := sv_waiting S @ [(sv_next S, (snd e)\<lparr>deadline := 0\<rparr>)], sv_next := Suc (sv_next S)\<rparr>))"
| "serve t (CumulativeAck q s) S =
     (let taken = filter (\<lambda>e. fst e \<le> unat s) (of_queue q (sv_leased S))
      in (Counted (length taken), S\<lparr>sv_leased := without (map handle taken) (sv_leased S)\<rparr>))"
| "serve t (Reap q clk) S =
     (let taken = filter (expired_task (clk 0)) (of_queue q (sv_leased S))
      in (Settled, S\<lparr>sv_leased := without (map handle taken) (sv_leased S),
            sv_waiting := joined (sv_waiting S) (change (\<lambda>x. x\<lparr>deadline := 0\<rparr>) taken)\<rparr>))"
| "serve t Purge S = (Counted (length (sv_dead S)), S\<lparr>sv_dead := []\<rparr>)"
| "serve t Replay S =
     (let letters = map snd (sort_key handle (sv_dead S))
      in (Counted (length letters), S\<lparr>sv_dead := [], sv_next := sv_next S + length letters,
            sv_waiting := sv_waiting S @ number_from (sv_next S) (map (\<lambda>x. x\<lparr>attempts := 0, deadline := 0\<rparr>) letters)\<rparr>))"
| "serve t (Depth q) S =
     (Depths (length (of_queue q (sv_waiting S))) (length (of_queue q (sv_leased S))) (length (of_queue q (sv_dead S))), S)"

fun serve_all :: "string \<Rightarrow> command list \<Rightarrow> service \<Rightarrow> service_reply list \<times> service" where
  "serve_all t [] S = ([], S)"
| "serve_all t (c # cs) S = (case serve t c S of (r, S) \<Rightarrow> case serve_all t cs S of (rs, S) \<Rightarrow> (r # rs, S))"

text \<open>Names without NUL, and no policy under which a producer would wait.\<close>

fun command_ok :: "command \<Rightarrow> bool" where
  "command_ok (Enqueue q ps policy now uuid) \<longleftrightarrow> name_ok q \<and>
     (np_backlog_quota policy = None \<or> np_backlog_policy policy = Reject \<or> np_backlog_policy policy = EvictOldest)"
| "command_ok (Dequeue q limit timeout clk) \<longleftrightarrow> name_ok q"
| "command_ok (DequeueCapped q limit timeout cap clk) \<longleftrightarrow> name_ok q"
| "command_ok (CumulativeAck q s) \<longleftrightarrow> name_ok q"
| "command_ok (Reap q clk) \<longleftrightarrow> name_ok q"
| "command_ok (Depth q) \<longleftrightarrow> name_ok q"
| "command_ok c \<longleftrightarrow> True"

section \<open>The registry behind the commands\<close>

definition answer :: "('a \<Rightarrow> service_reply) \<Rightarrow> ('db registry, 'a) outcome \<Rightarrow> service_reply \<times> 'db registry" where
  "answer f out = (case fst out of Inl e \<Rightarrow> Refused e | Inr x \<Rightarrow> f x, snd out)"

fun perform :: "'db rocksdb \<Rightarrow> task codec \<Rightarrow> string \<Rightarrow> command \<Rightarrow> 'db registry \<Rightarrow> (service_reply \<times> 'db registry) option" where
  "perform R C t (Enqueue q ps policy now uuid) g =
     map_option (answer Ids) (enqueue_batch_sync R C (\<lambda>_. now) (\<lambda>_ g. g) now uuid g t q ps policy)"
| "perform R C t (Dequeue q limit timeout clk) g = Some (answer Tasks (dequeue_batch R C clk g t q limit timeout))"
| "perform R C t (DequeueCapped q limit timeout cap clk) g =
     Some (answer Tasks (dequeue_with_max_inflight R C clk g t q limit timeout cap))"
| "perform R C t (Ack ks) g = Some (answer Counted (ack_batch R g t ks))"
| "perform R C t (Nack k now) g = Some (answer (\<lambda>_. Settled) (nack R C now g t k))"
| "perform R C t (CumulativeAck q s) g = Some (answer Counted (cumulative_ack R g t q s))"
| "perform R C t (Reap q clk) g = Some (answer (\<lambda>_. Settled) (reap_inflight R C clk g t q))"
| "perform R C t Purge g = Some (answer Counted (purge_dlq R g t))"
| "perform R C t Replay g = Some (answer Counted (replay_dlq R C g t))"
| "perform R C t (Depth q) g = Some (answer (\<lambda>(p, i, d). Depths p i d) (depth R g t q, g))"

fun perform_all ::
  "'db rocksdb \<Rightarrow> task codec \<Rightarrow> string \<Rightarrow> command list \<Rightarrow> 'db registry \<Rightarrow> (service_reply list \<times> 'db registry) option" where
  "perform_all R C t [] g = Some ([], g)"
| "perform_all R C t (c # cs) g =
     (case perform R C t c g of None \<Rightarrow> None
      | Some (r, g) \<Rightarrow> (case perform_all R C t cs g of None \<Rightarrow> None | Some (rs, g) \<Rightarrow> Some (r # rs, g)))"

section \<open>Numbered tasks as the rows of a column family\<close>

definition in_range :: "numbered list \<Rightarrow> bool" where
  "in_range xs \<longleftrightarrow> distinct (map fst xs) \<and> (\<forall>e \<in> set xs. fst e < 2 ^ 64)"

definition rows :: "(task \<Rightarrow> bytes) \<Rightarrow> numbered list \<Rightarrow> (bytes \<times> bytes) list" where
  "rows f xs = map (\<lambda>e. (handle e, f (snd e))) xs"

definition table :: "(task \<Rightarrow> bytes) \<Rightarrow> numbered list \<Rightarrow> kv" where
  "table f xs = map_of (rows f xs)"

lemma rows_simps [simp]:
  "rows f [] = []" "rows f (e # xs) = (handle e, f (snd e)) # rows f xs" "rows f (xs @ ys) = rows f xs @ rows f ys"
  "fst ` set (rows f xs) = handle ` set xs" "map fst (rows f xs) = map handle xs" "length (rows f xs) = length xs"
  by (auto simp: rows_def image_image)

lemma set_rows: "set (rows f xs) = (\<lambda>e. (handle e, f (snd e))) ` set xs"
  by (simp add: rows_def)

lemma set_of_queue [simp]: "set (of_queue q xs) = {e \<in> set xs. task_queue (snd e) = q}"
  by (auto simp: of_queue_def)

lemma of_nat_less_u64: "m < 2 ^ 64 \<Longrightarrow> n < 2 ^ 64 \<Longrightarrow> (of_nat m :: u64) < of_nat n \<longleftrightarrow> m < n"
  by (simp add: word_less_nat_alt unat_of_nat take_bit_nat_eq_self)

lemma of_nat_eq_u64: "m < 2 ^ 64 \<Longrightarrow> n < 2 ^ 64 \<Longrightarrow> (of_nat m :: u64) = of_nat n \<longleftrightarrow> m = n"
  by (metis less_irrefl linorder_neqE_nat of_nat_less_u64)

lemma unat_of_nat_u64: "n < 2 ^ 64 \<Longrightarrow> unat (of_nat n :: u64) = n"
  by (simp add: unat_of_nat take_bit_nat_eq_self)

lemma handle_eq:
  "fst e < 2 ^ 64 \<Longrightarrow> fst e' < 2 ^ 64 \<Longrightarrow>
   handle e = handle e' \<longleftrightarrow> fst e = fst e' \<and> task_queue (snd e) = task_queue (snd e')"
  by (auto simp: handle_def of_nat_eq_u64)

lemma handle_less:
  "fst e < 2 ^ 64 \<Longrightarrow> fst e' < 2 ^ 64 \<Longrightarrow> task_queue (snd e) = task_queue (snd e') \<Longrightarrow>
   handle e < handle e' \<longleftrightarrow> fst e < fst e'"
  unfolding handle_def by (simp only: encode_key_less of_nat_less_u64)

lemma handle_in_queue: "name_ok q \<Longrightarrow> name_ok (task_queue (snd e)) \<Longrightarrow> handle e \<in> in_queue q \<longleftrightarrow> task_queue (snd e) = q"
  using queue_prefix_other_key [of q "task_queue (snd e)" "of_nat (fst e)"]
  by (auto simp: handle_def in_queue_def name_ok_def)

lemma in_range_handles: "in_range xs \<Longrightarrow> distinct (map handle xs)"
proof -
  assume r: "in_range xs"
  then have "distinct xs" "inj_on fst (set xs)" by (simp_all add: in_range_def distinct_map)
  moreover from this(2) r have "inj_on handle (set xs)"
    unfolding in_range_def by (intro inj_onI) (metis handle_eq inj_onD)
  ultimately show "distinct (map handle xs)" by (simp add: distinct_map)
qed

lemma in_range_inj: "in_range xs \<Longrightarrow> e \<in> set xs \<Longrightarrow> e' \<in> set xs \<Longrightarrow> handle e = handle e' \<Longrightarrow> e = e'"
  by (metis distinct_map inj_onD in_range_handles)

lemma in_range_sub: "in_range xs \<Longrightarrow> set ys \<subseteq> set xs \<Longrightarrow> distinct (map fst ys) \<Longrightarrow> in_range ys"
  by (auto simp: in_range_def)

lemma in_range_filter: "in_range xs \<Longrightarrow> in_range (filter P xs)"
  by (auto simp: in_range_def distinct_map_filter)

lemma in_range_append: "in_range (xs @ ys) \<Longrightarrow> in_range xs" "in_range (xs @ ys) \<Longrightarrow> in_range ys"
  by (auto simp: in_range_def)

lemma table_Nil [simp]: "table f [] = Map.empty"
  by (simp add: table_def)

lemma dom_table [simp]: "dom (table f xs) = handle ` set xs"
  by (simp add: table_def dom_map_of_conv_image_fst)

lemma table_at: "in_range xs \<Longrightarrow> table f xs k = Some v \<longleftrightarrow> (\<exists>e \<in> set xs. handle e = k \<and> v = f (snd e))"
  unfolding table_def by (subst map_of_eq_Some_iff) (auto simp: in_range_handles set_rows)

lemma table_set_eq: "in_range xs \<Longrightarrow> in_range ys \<Longrightarrow> set xs = set ys \<Longrightarrow> table f xs = table f ys"
proof
  fix k
  assume "in_range xs" "in_range ys" "set xs = set ys"
  then have "table f xs k = Some v \<longleftrightarrow> table f ys k = Some v" for v by (simp add: table_at)
  then show "table f xs k = table f ys k" by (metis not_None_eq)
qed

lemma table_without [simp]: "table f (without hs xs) = table f xs |` (- set hs)"
  by (induction xs) (auto simp: table_def without_def restrict_map_def fun_eq_iff)

lemma table_append: "in_range (xs @ ys) \<Longrightarrow> table f xs ++ table f ys = table f (xs @ ys)"
proof -
  assume r: "in_range (xs @ ys)"
  then have "in_range (ys @ xs)" by (auto simp: in_range_def)
  with r have "table f (xs @ ys) = table f (ys @ xs)" by (intro table_set_eq) auto
  then show ?thesis by (simp add: table_def)
qed

lemma set_joined [simp]: "set (joined xs ys) = set xs \<union> set ys"
  by (simp add: joined_def)

lemma in_range_joined: "in_range (xs @ ys) \<Longrightarrow> in_range (joined xs ys)"
proof -
  have "mset (map fst (joined xs ys)) = mset (map fst (xs @ ys))" by (simp add: joined_def)
  then have "distinct (map fst (joined xs ys)) \<longleftrightarrow> distinct (map fst (xs @ ys))" by (rule mset_eq_imp_distinct_iff)
  then show "in_range (xs @ ys) \<Longrightarrow> in_range (joined xs ys)" by (auto simp: in_range_def)
qed

lemma table_joined: "in_range (xs @ ys) \<Longrightarrow> table f xs ++ table f ys = table f (joined xs ys)"
  using in_range_joined by (simp add: table_append) (intro table_set_eq, auto)

lemma sorted_joined [simp]: "sorted (map fst (joined xs ys))"
  by (simp add: joined_def)

text \<open>The rows of a queue come in the order of the numbers.\<close>

lemma entries_table:
  assumes r: "in_range xs" and s: "sorted (map fst xs)" and q: "name_ok q" and ok: "\<forall>e \<in> set xs. name_ok (task_queue (snd e))"
  shows "entries (table f xs) q = rows f (of_queue q xs)"
proof -
  let ?ys = "of_queue q xs"
  have ry: "in_range ?ys" using r by (simp add: of_queue_def in_range_filter)
  have hq: "handle e \<in> in_queue q \<longleftrightarrow> task_queue (snd e) = q" if "e \<in> set xs" for e
    using handle_in_queue [OF q] ok that by blast
  have "table f xs |` in_queue q = table f ?ys"
  proof
    fix k
    have "(table f xs |` in_queue q) k = Some v \<longleftrightarrow> table f ?ys k = Some v" for v
    proof -
      have "(table f xs |` in_queue q) k = Some v \<longleftrightarrow> k \<in> in_queue q \<and> table f xs k = Some v"
        by (simp add: restrict_map_def)
      also have "\<dots> \<longleftrightarrow> table f ?ys k = Some v"
        unfolding table_at [OF r] table_at [OF ry] set_of_queue using hq by blast
      finally show ?thesis .
    qed
    then show "(table f xs |` in_queue q) k = table f ?ys k" by (metis not_None_eq)
  qed
  moreover have lt: "handle e < handle e'" if "e \<in> set ?ys" "e' \<in> set ?ys" "fst e < fst e'" for e e'
    using that r by (intro handle_less [THEN iffD2]) (auto simp: in_range_def)
  have "sorted_wrt (<) (map fst ?ys)"
    using ry s by (simp add: in_range_def strict_sorted_iff of_queue_def sorted_filter)
  then have "sorted_wrt (\<lambda>e e'. fst e < fst e') ?ys" by (simp add: sorted_wrt_map)
  then have "sorted_wrt (\<lambda>e e'. handle e < handle e') ?ys"
    using sorted_wrt_mono_rel [of ?ys "\<lambda>e e'. fst e < fst e'" "\<lambda>e e'. handle e < handle e'"] lt by blast
  then have "sorted_wrt (<) (map fst (rows f ?ys))" by (simp add: sorted_wrt_map)
  ultimately show ?thesis
    unfolding entries_def table_def [of f ?ys] by (simp only: kv_list_map_of)
qed

lemma qcount_table:
  assumes "in_range xs" and "sorted (map fst xs)" and "name_ok q" and "\<forall>e \<in> set xs. name_ok (task_queue (snd e))"
  shows "qcount (table f xs) q = length (of_queue q xs)"
  unfolding length_entries [symmetric] entries_table [OF assms] by simp

lemma kv_list_table: "in_range xs \<Longrightarrow> kv_list (table f xs) = rows f (sort_key handle xs)"
proof -
  assume r: "in_range xs"
  let ?ys = "sort_key handle xs"
  have "mset (map handle ?ys) = mset (map handle xs)" "mset (map fst ?ys) = mset (map fst xs)" by simp_all
  then have "distinct (map handle ?ys)" "distinct (map fst ?ys)"
    using in_range_handles [OF r] r mset_eq_imp_distinct_iff unfolding in_range_def by blast+
  then have "sorted_wrt (<) (map handle ?ys)" "in_range ?ys"
    using r by (simp_all add: strict_sorted_iff in_range_def)
  moreover have "table f xs = table f ?ys" using r \<open>in_range ?ys\<close> by (intro table_set_eq) auto
  ultimately show ?thesis by (simp add: table_def kv_list_map_of)
qed

text \<open>Numbers, order and names of a service; the counter is above every number.\<close>

definition service_ok :: "service \<Rightarrow> bool" where
  "service_ok S \<longleftrightarrow>
     sorted (map fst (sv_waiting S)) \<and> sorted (map fst (sv_leased S)) \<and> sorted (map fst (sv_dead S)) \<and>
     distinct (map fst (sv_waiting S @ sv_leased S @ sv_dead S)) \<and>
     (\<forall>e \<in> set (sv_waiting S @ sv_leased S @ sv_dead S). fst e < sv_next S \<and> name_ok (task_queue (snd e))) \<and>
     (\<forall>e \<in> set (sv_waiting S). deadline (snd e) = 0)"

text \<open>The operations of the service on rows.\<close>

lemma fst_change [simp]: "map fst (change f xs) = map fst xs"
  by (simp add: change_def)

lemma change_simps [simp]: "change f [] = []" "change f (e # xs) = (fst e, f (snd e)) # change f xs"
  by (auto simp: change_def apsnd_def map_prod_def split_beta)

lemma seen_simps [simp]: "seen [] = []" "seen (e # xs) = (handle e, snd e) # seen xs"
  by (simp_all add: seen_def)

context queue_env
begin

lemma stored_table [simp]: "stored C (seen xs) = table enc xs"
  by (simp add: stored_def enc_all_def table_def rows_def seen_def comp_def)

lemma stored_Nil [simp]: "stored C [] = Map.empty"
  by (simp add: stored_def enc_all_def)

lemma consumed_rows [simp]: "consumed C n (rows enc xs) = rows enc (take n xs)"
  by (induction xs arbitrary: n) (auto simp: take_Cons split: nat.splits)

lemma envelopes_rows [simp]: "envelopes C q clk i (rows enc xs) = []"
  by (induction xs) simp_all

lemma delivered_rows [simp]:
  "delivered C dl (rows enc xs) = seen (change (\<lambda>x. x\<lparr>attempts := attempts x + 1, deadline := dl\<rparr>) xs)"
  by (induction xs) (simp_all add: Let_def handle_def)

lemma expired_enc: "expired C now (enc (snd e)) = expired_task now e"
  by (simp add: expired_def expired_task_def)

lemma reclaimed_rows [simp]:
  "reclaimed C now (rows enc xs) = seen (change (\<lambda>x. x\<lparr>deadline := 0\<rparr>) (filter (expired_task now) xs))"
  by (induction xs) (simp_all add: reclaimed_def expired_enc handle_def)

lemma swept_rows: "fst ` set (swept C now (rows enc xs)) = handle ` set (filter (expired_task now) xs)"
  by (induction xs) (simp_all add: swept_def expired_enc)

lemma new_records_rows:
  "new_records q now uuid (of_nat n) i ps =
   seen (number_from n (map (\<lambda>j. new_task q now (uuid (i + j)) (ps ! j)) [0..<length ps]))"
  by (rule nth_equalityI)
    (simp_all add: nth_new_records number_from_def seen_def handle_def new_task_def)

lemma replayed_rows:
  "replayed C (of_nat n) (rows enc xs) =
   seen (number_from n (map (\<lambda>x. x\<lparr>attempts := 0, deadline := 0\<rparr>) (map snd xs)))"
proof (induction xs arbitrary: n)
  case (Cons e xs)
  have "(of_nat n :: u64) + 1 = of_nat (Suc n)" by simp
  with Cons [of "Suc n"] show ?case
    by (simp add: number_from_def handle_def Let_def upt_conv_Cons add.commute del: upt_Suc)
qed (simp add: number_from_def)

end

section \<open>A service stays well-formed\<close>

definition numbers :: "service \<Rightarrow> nat list" where
  "numbers S = map fst (sv_waiting S @ sv_leased S @ sv_dead S)"

text \<open>Tasks move, disappear, or come with numbers the counter has not given away.\<close>

lemma service_ok_change:
  assumes ok: "service_ok S" and grow: "sv_next S \<le> sv_next S'"
    and nums: "mset (numbers S') \<subseteq># mset (numbers S) + mset [sv_next S..<sv_next S']"
    and sorted: "sorted (map fst (sv_waiting S'))" "sorted (map fst (sv_leased S'))" "sorted (map fst (sv_dead S'))"
    and names: "\<forall>e \<in> set (sv_waiting S' @ sv_leased S' @ sv_dead S'). name_ok (task_queue (snd e))"
    and waits: "\<forall>e \<in> set (sv_waiting S'). deadline (snd e) = 0"
  shows "service_ok S'"
proof -
  have below: "\<forall>n \<in> set (numbers S). n < sv_next S" using ok by (auto simp: service_ok_def numbers_def)
  moreover have "distinct (numbers S)" using ok by (simp add: service_ok_def numbers_def)
  ultimately have "distinct (numbers S @ [sv_next S..<sv_next S'])" by auto
  moreover obtain zs where "mset (numbers S @ [sv_next S..<sv_next S']) = mset (numbers S' @ zs)"
    using nums by (metis ex_mset mset_append mset_subset_eq_exists_conv)
  ultimately have "distinct (numbers S')" by (metis distinct_append mset_eq_imp_distinct_iff)
  moreover have "set (numbers S') \<subseteq> set (numbers S) \<union> {sv_next S..<sv_next S'}"
    using set_mset_mono [OF nums] by simp
  with below grow have "\<forall>n \<in> set (numbers S'). n < sv_next S'" by fastforce
  ultimately show ?thesis using sorted names waits unfolding service_ok_def numbers_def by auto
qed

lemma service_range: "service_ok S \<Longrightarrow> sv_next S \<le> 2 ^ 64 \<Longrightarrow> in_range (sv_waiting S @ sv_leased S @ sv_dead S)"
  unfolding service_ok_def in_range_def by (meson order_less_le_trans)

lemma without_filter:
  assumes "in_range xs" and "set ts \<subseteq> set xs"
  shows "without (map handle ts) xs = filter (\<lambda>e. e \<notin> set ts) xs"
  unfolding without_def
proof (rule filter_cong [OF refl])
  fix e
  assume "e \<in> set xs"
  then have "handle e \<in> handle ` set ts \<longleftrightarrow> e \<in> set ts" using in_range_inj [OF assms(1)] assms(2) by blast
  then show "handle e \<notin> set (map handle ts) \<longleftrightarrow> e \<notin> set ts" by simp
qed

lemma mset_without:
  assumes "in_range xs" and "set ts \<subseteq> set xs" and "distinct ts"
  shows "mset (map fst (without (map handle ts) xs)) + mset (map fst ts) = mset (map fst xs)"
proof -
  have "distinct xs" using assms(1) by (simp add: in_range_def distinct_map)
  then have "mset (filter (\<lambda>e. e \<in> set ts) xs) = mset ts"
    using assms(2,3) by (intro set_eq_iff_mset_eq_distinct [THEN iffD1]) auto
  then have "mset (filter (\<lambda>e. e \<notin> set ts) xs) + mset ts = mset xs"
    using multiset_partition [of "mset xs" "\<lambda>e. e \<in> set ts"] by (simp add: union_commute)
  then have "image_mset fst (mset (filter (\<lambda>e. e \<notin> set ts) xs) + mset ts) = image_mset fst (mset xs)" by simp
  then show ?thesis by (simp add: without_filter [OF assms(1,2)])
qed

lemma mset_without_le: "mset (map fst (without hs xs)) \<subseteq># mset (map fst xs)"
  by (simp add: without_def mset_filter image_mset_subseteq_mono)

lemma sorted_without [simp]: "sorted (map fst xs) \<Longrightarrow> sorted (map fst (without hs xs))"
  by (simp add: without_def sorted_filter)

lemma set_without: "set (without hs xs) \<subseteq> set xs"
  by (auto simp: without_def)

lemma in_without: "e \<in> set (without hs xs) \<Longrightarrow> e \<in> set xs"
  by (simp add: without_def)

lemma mset_joined [simp]: "mset (map fst (joined xs ys)) = mset (map fst xs) + mset (map fst ys)"
  by (simp add: joined_def)

lemma fst_number_from [simp]: "map fst (number_from n xs) = [n..<n + length xs]"
  by (simp add: number_from_def)

lemma set_number_from: "e \<in> set (number_from n xs) \<Longrightarrow> snd e \<in> set xs"
  by (cases e) (auto simp: number_from_def dest: set_zip_rightD)

lemma sorted_append_new: "sorted (map fst xs) \<Longrightarrow> \<forall>e \<in> set xs. fst e < n \<Longrightarrow> map fst ys = [n..<m] \<Longrightarrow> sorted (map fst (xs @ ys))"
  by (fastforce simp: sorted_append)

lemma snd_change: "e \<in> set (change f xs) \<Longrightarrow> \<exists>e' \<in> set xs. snd e = f (snd e')"
  by (force simp: change_def)

end
