(* ===== verification/Rq_Service_Facts.thy ===== *)
theory Rq_Service_Facts
  imports Rq_Service
begin

text \<open>
  The simulation: when a registry implements a service, then after any command it gives the answer
  of the service and implements what the service has become.
\<close>

definition implements :: "('db \<Rightarrow> string \<Rightarrow> kv option) \<Rightarrow> task codec \<Rightarrow> string \<Rightarrow> 'db registry \<Rightarrow> service \<Rightarrow> bool" where
  "implements view C t g S \<longleftrightarrow> service_ok S \<and> sv_next S < 2 ^ 64 \<and> seq g = of_nat (sv_next S) \<and>
     tenant_at (view (db g)) t (table (bincode.enc C) (sv_waiting S)) (table (bincode.enc C) (sv_leased S))
       (table (bincode.enc C) (sv_dead S))"

section \<open>The operations of the service keep it well-formed\<close>

lemma service_okD:
  assumes "service_ok S"
  shows "sorted (map fst (sv_waiting S))" "sorted (map fst (sv_leased S))" "sorted (map fst (sv_dead S))"
    and "\<forall>e \<in> set (sv_waiting S). name_ok (task_queue (snd e)) \<and> deadline (snd e) = 0 \<and> fst e < sv_next S"
    and "\<forall>e \<in> set (sv_leased S). name_ok (task_queue (snd e)) \<and> fst e < sv_next S"
    and "\<forall>e \<in> set (sv_dead S). name_ok (task_queue (snd e)) \<and> fst e < sv_next S"
    and "distinct (sv_waiting S)" "distinct (sv_leased S)" "distinct (sv_dead S)"
  using assms by (simp_all add: service_ok_def distinct_map)

lemma service_rangeD:
  assumes "service_ok S" and "sv_next S \<le> 2 ^ 64"
  shows "in_range (sv_waiting S)" "in_range (sv_leased S)" "in_range (sv_dead S)"
    "in_range (sv_waiting S @ sv_leased S)" "in_range (sv_leased S @ sv_dead S)"
  using service_range [OF assms] by (auto simp: in_range_def)

lemma set_taken: "set (take n (of_queue q xs)) \<subseteq> set xs"
  using set_take_subset [of n "of_queue q xs"] by auto

lemma distinct_taken: "distinct xs \<Longrightarrow> distinct (take n (of_queue q xs))"
  by (simp add: of_queue_def)

lemma in_range_swap: "in_range (xs @ ys) \<Longrightarrow> in_range (ys @ xs)"
  by (auto simp: in_range_def)

lemma in_range_iff: "in_range xs \<longleftrightarrow> distinct (map fst xs) \<and> (\<forall>n \<in> set (map fst xs). n < 2 ^ 64)"
  by (auto simp: in_range_def)

lemma in_range_move:
  assumes "in_range (A @ B)" and "set ts \<subseteq> set A" and "distinct ts"
  shows "in_range (B @ change f ts)"
proof -
  have "distinct (map fst ts)"
    using assms by (auto simp: in_range_def distinct_map intro: inj_on_subset)
  moreover have sub: "fst ` set ts \<subseteq> fst ` set A" using assms(2) by blast
  have ab: "fst ` set A \<inter> fst ` set B = {}" "distinct (map fst B)"
    using assms(1) by (simp_all add: in_range_def)
  from ab(1) sub have "fst ` set B \<inter> fst ` set ts = {}" by blast
  with ab(2) have "distinct (map fst ts) \<Longrightarrow> distinct (map fst B @ map fst ts)" by simp
  moreover have "n < 2 ^ 64" if "n \<in> fst ` set B \<or> n \<in> fst ` set A" for n
    using that assms(1) unfolding in_range_def by fastforce
  with sub have "\<forall>n \<in> set (map fst B @ map fst ts). n < 2 ^ 64"
    unfolding set_append set_map by blast
  ultimately have "distinct (map fst (B @ change f ts))" "\<forall>n \<in> set (map fst (B @ change f ts)). n < 2 ^ 64" by simp_all
  then show ?thesis unfolding in_range_iff by blast
qed

lemma change_names:
  assumes "\<And>x. task_queue (f x) = task_queue x" and "set ts \<subseteq> set xs" and "\<forall>e \<in> set xs. name_ok (task_queue (snd e))"
  shows "\<forall>e \<in> set (change f ts). name_ok (task_queue (snd e))"
proof
  fix e
  assume "e \<in> set (change f ts)"
  from snd_change [OF this] obtain e' where "e' \<in> set ts" "snd e = f (snd e')" by blast
  with assms show "name_ok (task_queue (snd e))" by (metis subsetD)
qed

lemma lease_ok:
  assumes ok: "service_ok S" and range: "sv_next S \<le> 2 ^ 64"
  shows "service_ok (snd (lease q n dl S))"
proof (rule service_ok_change [OF ok])
  note d = service_okD [OF ok] and r = service_rangeD [OF ok range]
  let ?taken = "take n (of_queue q (sv_waiting S))"
  show "mset (numbers (snd (lease q n dl S))) \<subseteq># mset (numbers S) + mset [sv_next S..<sv_next (snd (lease q n dl S))]"
    using mset_without [OF r(1) set_taken distinct_taken [OF d(7)], of n q]
    by (simp add: lease_def Let_def numbers_def ac_simps flip: mset_map)
  have "\<forall>e \<in> set (change (\<lambda>x. x\<lparr>attempts := attempts x + 1, deadline := dl\<rparr>) ?taken). name_ok (task_queue (snd e))"
    by (rule change_names [OF _ set_taken]) (use d(4) in auto)
  then show "\<forall>e \<in> set (sv_waiting (snd (lease q n dl S)) @ sv_leased (snd (lease q n dl S)) @ sv_dead (snd (lease q n dl S))).
      name_ok (task_queue (snd e))"
    using d(4-6) by (auto simp: lease_def Let_def dest: in_without)
qed (use service_okD [OF ok] in \<open>auto simp: lease_def Let_def dest: in_without\<close>)

lemma accept_ok:
  assumes ok: "service_ok S" and q: "name_ok q"
  shows "service_ok (snd (accept q ps now uuid S))"
proof (rule service_ok_change [OF ok])
  note d = service_okD [OF ok]
  let ?new = "number_from (sv_next S) (map (\<lambda>i. new_task q now (uuid i) (ps ! i)) [0..<length ps])"
  have new: "\<forall>e \<in> set ?new. task_queue (snd e) = q \<and> deadline (snd e) = 0"
    using set_number_from by (fastforce simp: new_task_def)
  show "mset (numbers (snd (accept q ps now uuid S))) \<subseteq>#
      mset (numbers S) + mset [sv_next S..<sv_next (snd (accept q ps now uuid S))]"
    by (simp add: accept_def numbers_def ac_simps flip: mset_map)
  show "sorted (map fst (sv_waiting (snd (accept q ps now uuid S))))"
    using d(1,4) sorted_append_new [of "sv_waiting S" "sv_next S" ?new] by (simp add: accept_def)
  show "\<forall>e \<in> set (sv_waiting (snd (accept q ps now uuid S)) @ sv_leased (snd (accept q ps now uuid S)) @
      sv_dead (snd (accept q ps now uuid S))). name_ok (task_queue (snd e))"
    "\<forall>e \<in> set (sv_waiting (snd (accept q ps now uuid S))). deadline (snd e) = 0"
    using d(4-6) new q by (auto simp: accept_def)
qed (use service_okD [OF ok] in \<open>auto simp: accept_def\<close>)

text \<open>Tasks that go away.\<close>

lemma leave_ok:
  assumes ok: "service_ok S"
  shows "service_ok (S\<lparr>sv_waiting := without hs (sv_waiting S)\<rparr>)" "service_ok (S\<lparr>sv_leased := without hs (sv_leased S)\<rparr>)"
    "service_ok (S\<lparr>sv_dead := []\<rparr>)"
proof -
  note d = service_okD [OF ok]
  show "service_ok (S\<lparr>sv_waiting := without hs (sv_waiting S)\<rparr>)"
    by (rule service_ok_change [OF ok])
      (use d mset_without_le [of hs "sv_waiting S"] in \<open>auto simp: numbers_def simp flip: mset_map dest: in_without\<close>)
  show "service_ok (S\<lparr>sv_leased := without hs (sv_leased S)\<rparr>)"
    by (rule service_ok_change [OF ok])
      (use d mset_without_le [of hs "sv_leased S"] in \<open>auto simp: numbers_def simp flip: mset_map dest: in_without\<close>)
  show "service_ok (S\<lparr>sv_dead := []\<rparr>)"
    by (rule service_ok_change [OF ok]) (use d in \<open>auto simp: numbers_def simp flip: mset_map\<close>)
qed

text \<open>A leased task that goes to the dead letters, or waits again under a new number.\<close>

lemma bury_ok:
  assumes ok: "service_ok S" and range: "sv_next S \<le> 2 ^ 64" and e: "e \<in> set (sv_leased S)"
  shows "service_ok (S\<lparr>sv_leased := without [handle e] (sv_leased S), sv_dead := joined (sv_dead S) [e]\<rparr>)"
proof (rule service_ok_change [OF ok])
  let ?S = "S\<lparr>sv_leased := without [handle e] (sv_leased S), sv_dead := joined (sv_dead S) [e]\<rparr>"
  note d = service_okD [OF ok] and r = service_rangeD [OF ok range]
  show "mset (numbers ?S) \<subseteq># mset (numbers S) + mset [sv_next S..<sv_next ?S]"
    using mset_without [OF r(2), of "[e]"] e by (simp add: numbers_def ac_simps flip: mset_map)
qed (use service_okD [OF ok] e in \<open>auto dest: in_without\<close>)

lemma retry_ok:
  assumes ok: "service_ok S" and e: "e \<in> set (sv_leased S)"
  shows "service_ok (S\<lparr>sv_leased := without [handle e] (sv_leased S),
    sv_waiting := sv_waiting S @ [(sv_next S, (snd e)\<lparr>deadline := 0\<rparr>)], sv_next := Suc (sv_next S)\<rparr>)"
proof (rule service_ok_change [OF ok])
  let ?S = "S\<lparr>sv_leased := without [handle e] (sv_leased S),
    sv_waiting := sv_waiting S @ [(sv_next S, (snd e)\<lparr>deadline := 0\<rparr>)], sv_next := Suc (sv_next S)\<rparr>"
  note d = service_okD [OF ok]
  show "mset (numbers ?S) \<subseteq># mset (numbers S) + mset [sv_next S..<sv_next ?S]"
    using mset_without_le [of "[handle e]" "sv_leased S"] by (simp add: numbers_def ac_simps flip: mset_map)
  show "sorted (map fst (sv_waiting ?S))"
    using d(1,4) sorted_append_new [of "sv_waiting S" "sv_next S" "[(sv_next S, (snd e)\<lparr>deadline := 0\<rparr>)]" "Suc (sv_next S)"] by simp
qed (use service_okD [OF ok] e in \<open>auto dest: in_without\<close>)

lemma reap_ok:
  fixes P q
  assumes ok: "service_ok S" and range: "sv_next S \<le> 2 ^ 64"
  defines "taken \<equiv> filter P (of_queue q (sv_leased S))"
  shows "service_ok (S\<lparr>sv_leased := without (map handle taken) (sv_leased S),
    sv_waiting := joined (sv_waiting S) (change (\<lambda>x. x\<lparr>deadline := 0\<rparr>) taken)\<rparr>)" (is "service_ok ?S")
proof (rule service_ok_change [OF ok])
  note d = service_okD [OF ok] and r = service_rangeD [OF ok range]
  have taken: "set taken \<subseteq> set (sv_leased S)" "distinct taken"
    using d(8) by (auto simp: taken_def of_queue_def)
  show "mset (numbers ?S) \<subseteq># mset (numbers S) + mset [sv_next S..<sv_next ?S]"
    using mset_without [OF r(2) taken] by (simp add: numbers_def ac_simps flip: mset_map)
  have names: "\<forall>e \<in> set (change (\<lambda>x. x\<lparr>deadline := 0\<rparr>) taken). name_ok (task_queue (snd e))"
    by (rule change_names [OF _ taken(1)]) (use d(5) in auto)
  show "\<forall>e \<in> set (sv_waiting ?S @ sv_leased ?S @ sv_dead ?S). name_ok (task_queue (snd e))"
    using d(4-6) names by (auto dest: in_without)
  show "\<forall>e \<in> set (sv_waiting ?S). deadline (snd e) = 0"
    using d(4) by (auto dest: snd_change)
qed (use service_okD [OF ok] in auto)

lemma replay_ok:
  assumes ok: "service_ok S"
  defines "letters \<equiv> map snd (sort_key handle (sv_dead S))"
  shows "service_ok (S\<lparr>sv_dead := [], sv_next := sv_next S + length letters,
    sv_waiting := sv_waiting S @ number_from (sv_next S) (map (\<lambda>x. x\<lparr>attempts := 0, deadline := 0\<rparr>) letters)\<rparr>)"
    (is "service_ok ?S")
proof (rule service_ok_change [OF ok])
  note d = service_okD [OF ok]
  let ?new = "number_from (sv_next S) (map (\<lambda>x. x\<lparr>attempts := 0, deadline := 0\<rparr>) letters)"
  have new: "\<forall>e \<in> set ?new. name_ok (task_queue (snd e)) \<and> deadline (snd e) = 0"
    using d(6) set_number_from by (fastforce simp: letters_def)
  show "mset (numbers ?S) \<subseteq># mset (numbers S) + mset [sv_next S..<sv_next ?S]"
    by (simp add: numbers_def ac_simps flip: mset_map)
  show "sorted (map fst (sv_waiting ?S))"
    using d(1,4) sorted_append_new [of "sv_waiting S" "sv_next S" ?new] by simp
  show "\<forall>e \<in> set (sv_waiting ?S @ sv_leased ?S @ sv_dead ?S). name_ok (task_queue (snd e))"
    "\<forall>e \<in> set (sv_waiting ?S). deadline (snd e) = 0"
    using d(4-6) new by auto
qed (use service_okD [OF ok] in auto)

section \<open>Simulation\<close>

text \<open>The counter of the registry moves on an enqueue, a retry and a replay only.\<close>

lemma seq_unlocked: "dequeue_batch_unlocked R C clk g t q n timeout = (r, g') \<Longrightarrow> seq g' = seq g"
  by (auto simp: dequeue_batch_unlocked_def bind_res_def bind_op_def lift_db_def split: if_splits sum.splits prod.splits)

lemma seq_lock [simp]: "seq (queue_lock g t q) = seq g" "seq (ack_lock g t q) = seq g"
  by (simp_all add: queue_lock_def ack_lock_def)

lemma seq_dequeue: "dequeue_batch R C clk g t q n timeout = (r, g') \<Longrightarrow> seq g' = seq g"
  using seq_unlocked [of R C clk "queue_lock g t q" t q n timeout r g'] by (simp add: dequeue_batch_def)

lemma seq_dequeue_capped: "dequeue_with_max_inflight R C clk g t q n timeout m = (r, g') \<Longrightarrow> seq g' = seq g"
  by (auto simp: dequeue_with_max_inflight_def bind_res_def Let_def dest: seq_unlocked split: if_splits sum.splits)

lemma seq_ack_locks: "seq (fold (\<lambda>q g. ack_lock g t q) qs g) = seq g"
  by (induction qs arbitrary: g) simp_all

lemma seq_ack: "ack_batch R g t ks = (r, g') \<Longrightarrow> seq g' = seq g"
  by (auto simp: ack_batch_def bind_res_def bind_op_def lift_db_def Let_def seq_ack_locks split: if_splits sum.splits prod.splits)

lemma seq_cumulative_ack: "cumulative_ack R g t q s = (r, g') \<Longrightarrow> seq g' = seq g"
  by (auto simp: cumulative_ack_def bind_res_def bind_op_def lift_db_def split: if_splits sum.splits prod.splits)

lemma seq_reap: "reap_inflight R C clk g t q = (r, g') \<Longrightarrow> seq g' = seq g"
  by (auto simp: reap_inflight_def bind_res_def bind_op_def lift_db_def split: if_splits sum.splits prod.splits)

lemma seq_purge: "purge_dlq R g t = (r, g') \<Longrightarrow> seq g' = seq g"
  by (auto simp: purge_dlq_def bind_res_def bind_op_def lift_db_def split: if_splits sum.splits prod.splits)

lemma seq_evict: "evict_oldest_pending R g t q n = (r, g') \<Longrightarrow> seq g' = seq g"
  by (auto simp: evict_oldest_pending_def bind_res_def lift_db_def split: if_splits sum.splits prod.splits)

lemma seq_quota:
  assumes "enforce_quota R clk envr g t q policy n = Some (r, g')"
    and "np_backlog_quota policy = None \<or> np_backlog_policy policy = Reject \<or> np_backlog_policy policy = EvictOldest"
  shows "seq g' = seq g"
  using assms by (auto simp: enforce_quota_def Let_def dest: seq_evict split: if_splits sum.splits prod.splits option.splits)

context reliable_env
begin

lemma seq_enqueue:
  assumes "enqueue_batch_sync R C clk envr now uuid g t q ps policy = Some (Inr ids, g')"
    and "np_backlog_quota policy = None \<or> np_backlog_policy policy = Reject \<or> np_backlog_policy policy = EvictOldest"
  shows "seq g' = seq g + of_nat (length ps)"
proof -
  from assms(1) obtain r0 g0 where q: "enforce_quota R clk envr (queue_lock g t q) t q policy (length ps) = Some (r0, g0)"
    by (auto simp: enqueue_batch_sync_def)
  from seq_quota [OF q assms(2)] have "seq g0 = seq g" by simp
  with assms(1) q show ?thesis
    by (auto simp: enqueue_batch_sync_def bind_op_def bind_res_def env.enqueue_loop_total lift_db_def split: sum.splits prod.splits)
qed

text \<open>What the registry must have done to implement the service after a command.\<close>

lemma implements_intro:
  assumes "service_ok S" and "sv_next S < 2 ^ 64" and "seq g = of_nat (sv_next S)"
    and "tenant_at (view (db g)) t P I D" and "P = table enc (sv_waiting S)" and "I = table enc (sv_leased S)"
    and "D = table enc (sv_dead S)"
  shows "implements view C t g S"
  using assms by (simp add: implements_def)

lemma implementsD:
  assumes "implements view C t g S"
  shows "service_ok S" "sv_next S < 2 ^ 64" "seq g = of_nat (sv_next S)" "sv_next S \<le> 2 ^ 64" "unat (seq g) = sv_next S"
    "tenant_at (view (db g)) t (table enc (sv_waiting S)) (table enc (sv_leased S)) (table enc (sv_dead S))"
proof -
  have n: "sv_next S < 2 ^ 64" "seq g = of_nat (sv_next S)" using assms by (simp_all add: implements_def)
  then show "sv_next S < 2 ^ 64" "seq g = of_nat (sv_next S)" "sv_next S \<le> 2 ^ 64" by simp_all
  show "unat (seq g) = sv_next S" unfolding n(2) by (rule unat_of_nat_u64 [OF n(1)])
qed (use assms in \<open>simp_all add: implements_def\<close>)

text \<open>The queues of the maps are the queues of the lists.\<close>

lemma service_entries:
  assumes "implements view C t g S" and q: "name_ok q"
  shows "entries (table enc (sv_waiting S)) q = rows enc (of_queue q (sv_waiting S))"
    "entries (table enc (sv_leased S)) q = rows enc (of_queue q (sv_leased S))"
    "qcount (table enc (sv_waiting S)) q = length (of_queue q (sv_waiting S))"
    "qcount (table enc (sv_leased S)) q = length (of_queue q (sv_leased S))"
    "qcount (table enc (sv_dead S)) q = length (of_queue q (sv_dead S))"
proof -
  note i = implementsD [OF assms(1)]
  note d = service_okD [OF i(1)] and r = service_rangeD [OF i(1,4)]
  have n: "\<forall>e \<in> set (sv_waiting S). name_ok (task_queue (snd e))" "\<forall>e \<in> set (sv_leased S). name_ok (task_queue (snd e))"
    "\<forall>e \<in> set (sv_dead S). name_ok (task_queue (snd e))" using d(4-6) by simp_all
  show "entries (table enc (sv_waiting S)) q = rows enc (of_queue q (sv_waiting S))"
    by (rule entries_table [OF r(1) d(1) q n(1)])
  show "entries (table enc (sv_leased S)) q = rows enc (of_queue q (sv_leased S))"
    by (rule entries_table [OF r(2) d(2) q n(2)])
  show "qcount (table enc (sv_waiting S)) q = length (of_queue q (sv_waiting S))"
    by (rule qcount_table [OF r(1) d(1) q n(1)])
  show "qcount (table enc (sv_leased S)) q = length (of_queue q (sv_leased S))"
    by (rule qcount_table [OF r(2) d(2) q n(2)])
  show "qcount (table enc (sv_dead S)) q = length (of_queue q (sv_dead S))"
    by (rule qcount_table [OF r(3) d(3) q n(3)])
qed

lemma lease_tables:
  assumes i: "implements view C t g S" and q: "name_ok q" and ys: "ys = consumed C n (entries (table enc (sv_waiting S)) q)"
    and T: "tenant_at (view (db g')) t (table enc (sv_waiting S) |` (- fst ` set ys))
      (table enc (sv_leased S) ++ stored C (delivered C dl ys)) (table enc (sv_dead S) ++ stored C (envelopes C q clk 0 ys))"
    and s: "seq g' = seq g"
  shows "implements view C t g' (snd (lease q n dl S))" and "fst (lease q n dl S) = Tasks (delivered C dl ys)"
proof -
  note d = implementsD [OF i]
  let ?taken = "take n (of_queue q (sv_waiting S))"
  let ?out = "change (\<lambda>x. x\<lparr>attempts := attempts x + 1, deadline := dl\<rparr>) ?taken"
  have y: "ys = rows enc ?taken" unfolding ys service_entries [OF i q] by (rule env.consumed_rows)
  have ok: "service_ok (snd (lease q n dl S))" by (rule lease_ok [OF d(1,4)])
  have out: "in_range (sv_leased S @ ?out)"
    using in_range_move [of "sv_waiting S" "sv_leased S" ?taken] service_rangeD [OF d(1,4)] set_taken
      distinct_taken [OF service_okD(7) [OF d(1)]] by blast
  show "implements view C t g' (snd (lease q n dl S))"
    by (rule implements_intro [OF ok _ _ T]) (use d s table_joined [OF out] in \<open>auto simp: lease_def Let_def y env.stored_table\<close>)
  show "fst (lease q n dl S) = Tasks (delivered C dl ys)"
    by (simp add: lease_def Let_def y)
qed

definition simulates where
  "simulates t c g S \<longleftrightarrow>
     (\<exists>g'. perform R C t c g = Some (fst (serve t c S), g') \<and> implements view C t g' (snd (serve t c S)))"

lemma simulates_intro:
  assumes "perform R C t c g = Some (r, g')" and "r = fst (serve t c S)" and "implements view C t g' (snd (serve t c S))"
  shows "simulates t c g S"
  using assms unfolding simulates_def by blast

lemma accept_tables:
  assumes ok: "service_ok S" and q: "name_ok q" and n: "sv_next S + length ps < 2 ^ 64"
    and T: "tenant_at (view (db g')) t (table enc (sv_waiting S) ++ stored C (new_records q now uuid (of_nat (sv_next S)) 0 ps))
      (table enc (sv_leased S)) (table enc (sv_dead S))"
    and s: "seq g' = of_nat (sv_next S) + of_nat (length ps)"
  shows "implements view C t g' (snd (accept q ps now uuid S))"
proof -
  let ?new = "number_from (sv_next S) (map (\<lambda>i. new_task q now (uuid i) (ps ! i)) [0..<length ps])"
  note ok' = accept_ok [OF ok q, of ps now uuid]
  have nx: "sv_next (snd (accept q ps now uuid S)) = sv_next S + length ps" by (simp add: accept_def)
  with n have n': "sv_next (snd (accept q ps now uuid S)) < 2 ^ 64" by simp
  from service_rangeD(1) [OF ok' less_imp_le [OF n']] have "in_range (sv_waiting S @ ?new)" by (simp add: accept_def)
  note tab = table_append [OF this, of enc]
  show ?thesis
  proof (rule implements_intro [OF ok' n' _ T])
    show "table enc (sv_waiting S) ++ stored C (new_records q now uuid (word_of_nat (sv_next S)) 0 ps) =
        table enc (sv_waiting (snd (accept q ps now uuid S)))"
      using tab by (simp add: accept_def env.new_records_rows env.stored_table)
  qed (simp_all add: accept_def s)
qed

lemma fst_accept: "fst (accept q ps now uuid S) = Ids (map uuid [0..<length ps])"
  by (simp add: accept_def)

lemma enqueue_simulated:
  assumes i: "implements view C t g S" and ok: "command_ok (Enqueue q ps policy now uuid)"
    and n: "sv_next (snd (serve t (Enqueue q ps policy now uuid) S)) < 2 ^ 64"
  shows "simulates t (Enqueue q ps policy now uuid) g S"
proof -
  note d = implementsD [OF i]
  have q: "name_ok q" and pol: "np_backlog_quota policy = None \<or> np_backlog_policy policy = Reject \<or> np_backlog_policy policy = EvictOldest"
    using ok by simp_all
  note e = service_entries [OF i q] and seqs = seq_enqueue [OF _ pol]
  show ?thesis
  proof (cases "np_backlog_quota policy")
    case None
    then have n': "sv_next S + length ps < 2 ^ 64" using n by (simp add: accept_def)
    from enqueue_contract [OF d(6) _ None, where clk = "\<lambda>_. now" and envr = "\<lambda>_ g. g" and now = now and uuid = uuid and q = q] n'
    obtain g' where r: "enqueue_batch_sync R C (\<lambda>_. now) (\<lambda>_ g. g) now uuid g t q ps policy = Some (Inr (map uuid [0..<length ps]), g')"
      and T: "tenant_at (view (db g')) t (table enc (sv_waiting S) ++ stored C (new_records q now uuid (seq g) 0 ps))
        (table enc (sv_leased S)) (table enc (sv_dead S))" unfolding d(5) by blast
    have "implements view C t g' (snd (accept q ps now uuid S))"
      by (rule accept_tables [OF d(1) q n']) (use T seqs [OF r] in \<open>simp_all add: d(3)\<close>)
    with r None show ?thesis by (intro simulates_intro) (simp_all add: answer_def fst_accept)
  next
    case (Some Q)
    let ?used = "length (of_queue q (sv_waiting S)) + length (of_queue q (sv_leased S))"
    show ?thesis
    proof (cases "np_backlog_policy policy = EvictOldest")
      case True
      let ?old = "take (?used + length ps - Q) (of_queue q (sv_waiting S))"
      let ?S = "S\<lparr>sv_waiting := without (map handle ?old) (sv_waiting S)\<rparr>"
      have n': "sv_next S + length ps < 2 ^ 64" using n Some True by (simp add: accept_def Let_def)
      from evict_contract [OF d(6) _ Some True, where clk = "\<lambda>_. now" and envr = "\<lambda>_ g. g" and now = now and uuid = uuid and q = q] n'
      obtain g' where r: "enqueue_batch_sync R C (\<lambda>_. now) (\<lambda>_ g. g) now uuid g t q ps policy = Some (Inr (map uuid [0..<length ps]), g')"
        and T: "tenant_at (view (db g')) t (table enc (sv_waiting ?S) ++ stored C (new_records q now uuid (seq g) 0 ps))
          (table enc (sv_leased S)) (table enc (sv_dead S))"
        unfolding d(5) e by (auto simp: take_map rows_def image_image)
      have "implements view C t g' (snd (accept q ps now uuid ?S))"
        by (rule accept_tables [OF leave_ok(1) [OF d(1)] q]) (use n' T seqs [OF r] in \<open>simp_all add: d(3)\<close>)
      with r Some True show ?thesis by (intro simulates_intro) (simp_all add: answer_def fst_accept Let_def)
    next
      case False
      with Some pol have rej: "np_backlog_policy policy = Reject" by auto
      show ?thesis
      proof (cases "?used + length ps > Q")
        case True
        have "tenant_at (view (db (queue_lock g t q))) t (table enc (sv_waiting S)) (table enc (sv_leased S)) (table enc (sv_dead S))"
          using d(6) by simp
        from enforce_quota_reject [OF this Some rej] True
        have "enqueue_batch_sync R C (\<lambda>_. now) (\<lambda>_ g. g) now uuid g t q ps policy =
            Some (Inl (BacklogQuotaExceeded t q ?used Q (length ps)), queue_lock g t q)"
          by (simp add: enqueue_batch_sync_def e)
        moreover have "implements view C t (queue_lock g t q) S" using i by (simp add: implements_def)
        ultimately show ?thesis using Some False True by (intro simulates_intro) (simp_all add: answer_def Let_def)
      next
        case fits: False
        then have n': "sv_next S + length ps < 2 ^ 64" using n Some False by (simp add: accept_def Let_def)
        note con = reject_contract [OF d(6) _ Some rej, where clk = "\<lambda>_. now" and envr = "\<lambda>_ g. g" and now = now and uuid = uuid and q = q,
            unfolded d(5) e]
        from con [OF n'] fits obtain g' where r: "enqueue_batch_sync R C (\<lambda>_. now) (\<lambda>_ g. g) now uuid g t q ps policy = Some (Inr (map uuid [0..<length ps]), g')"
          and T: "tenant_at (view (db g')) t (table enc (sv_waiting S) ++ stored C (new_records q now uuid (seq g) 0 ps))
            (table enc (sv_leased S)) (table enc (sv_dead S))" by (auto split: if_splits)
        have "implements view C t g' (snd (accept q ps now uuid S))"
          by (rule accept_tables [OF d(1) q n']) (use T seqs [OF r] in \<open>simp_all add: d(3)\<close>)
        with r Some False fits show ?thesis by (intro simulates_intro) (simp_all add: answer_def fst_accept Let_def)
      qed
    qed
  qed
qed

lemma dequeue_simulated:
  assumes i: "implements view C t g S" and q: "name_ok q"
  shows "simulates t (Dequeue q n timeout clk) g S" and "simulates t (DequeueCapped q n timeout m clk) g S"
proof -
  note d = implementsD [OF i]
  let ?dl = "saturating_add (clk 0) timeout"
  obtain g' where r: "dequeue_batch R C clk g t q n timeout = (Inr (delivered C ?dl (consumed C n (entries (table enc (sv_waiting S)) q))), g')"
    and T: "tenant_at (view (db g')) t (table enc (sv_waiting S) |` (- fst ` set (consumed C n (entries (table enc (sv_waiting S)) q))))
      (table enc (sv_leased S) ++ stored C (delivered C ?dl (consumed C n (entries (table enc (sv_waiting S)) q))))
      (table enc (sv_dead S) ++ stored C (envelopes C q clk 0 (consumed C n (entries (table enc (sv_waiting S)) q))))"
    using dequeue_contract [OF d(6), where clk = clk and q = q and n = n and timeout = timeout] by blast
  note l = lease_tables [OF i q refl T seq_dequeue [OF r]]
  from r l show "simulates t (Dequeue q n timeout clk) g S"
    by (intro simulates_intro) (simp_all add: answer_def)
  let ?n = "min n (m - qcount (table enc (sv_leased S)) q)"
  obtain g' where r: "dequeue_with_max_inflight R C clk g t q n timeout m =
      (Inr (delivered C ?dl (consumed C ?n (entries (table enc (sv_waiting S)) q))), g')"
    and T: "tenant_at (view (db g')) t (table enc (sv_waiting S) |` (- fst ` set (consumed C ?n (entries (table enc (sv_waiting S)) q))))
      (table enc (sv_leased S) ++ stored C (delivered C ?dl (consumed C ?n (entries (table enc (sv_waiting S)) q))))
      (table enc (sv_dead S) ++ stored C (envelopes C q clk 0 (consumed C ?n (entries (table enc (sv_waiting S)) q))))"
    using dequeue_capped_exact [OF d(6) refl refl, where clk = clk and q = q and n = n and timeout = timeout and m = m] by blast
  note l = lease_tables [OF i q refl T seq_dequeue_capped [OF r]]
  from r l show "simulates t (DequeueCapped q n timeout m clk) g S"
    by (intro simulates_intro) (simp_all add: answer_def service_entries [OF i q])
qed

lemma taken_leased:
  assumes i: "implements view C t g S"
  shows "card (set ks \<inter> dom (table enc (sv_leased S))) = length (filter (\<lambda>e. handle e \<in> set ks) (sv_leased S))"
proof -
  note d = implementsD [OF i]
  note r = service_rangeD(2) [OF d(1,4)]
  let ?ts = "filter (\<lambda>e. handle e \<in> set ks) (sv_leased S)"
  have "distinct (map handle ?ts)" using in_range_handles [OF in_range_filter [OF r]] .
  then have "length ?ts = card (handle ` set ?ts)" by (metis distinct_card length_map list.set_map)
  moreover have "handle ` set ?ts = set ks \<inter> dom (table enc (sv_leased S))" by auto
  ultimately show ?thesis by simp
qed

lemma ack_simulated:
  assumes i: "implements view C t g S"
  shows "simulates t (Ack ks) g S"
proof -
  note d = implementsD [OF i]
  obtain g' where r: "ack_batch R g t ks = (Inr (card (set ks \<inter> dom (table enc (sv_leased S)))), g')"
    and T: "tenant_at (view (db g')) t (table enc (sv_waiting S)) (table enc (sv_leased S) |` (- set ks)) (table enc (sv_dead S))"
    using ack_contract [OF d(6), of ks] by blast
  have "implements view C t g' (S\<lparr>sv_leased := without ks (sv_leased S)\<rparr>)"
    by (rule implements_intro [OF leave_ok(2) [OF d(1)] _ _ T]) (use d seq_ack [OF r] in simp_all)
  with r taken_leased [OF i, of ks] show ?thesis by (intro simulates_intro) (simp_all add: answer_def)
qed

lemma purge_simulated:
  assumes i: "implements view C t g S"
  shows "simulates t Purge g S"
proof -
  note d = implementsD [OF i]
  obtain g' where r: "purge_dlq R g t = (Inr (card (dom (table enc (sv_dead S)))), g')"
    and T: "tenant_at (view (db g')) t (table enc (sv_waiting S)) (table enc (sv_leased S)) Map.empty"
    using purge_contract [OF d(6)] by blast
  have "implements view C t g' (S\<lparr>sv_dead := []\<rparr>)"
    by (rule implements_intro [OF leave_ok(3) [OF d(1)] _ _ T]) (use d seq_purge [OF r] in simp_all)
  moreover have "card (dom (table enc (sv_dead S))) = length (sv_dead S)"
    using in_range_handles [OF service_rangeD(3) [OF d(1,4)]] by (metis distinct_card dom_table length_map list.set_map)
  ultimately show ?thesis using r by (intro simulates_intro) (simp_all add: answer_def)
qed

lemma depth_simulated:
  assumes i: "implements view C t g S" and q: "name_ok q"
  shows "simulates t (Depth q) g S"
  using i depth_eq [OF implementsD(6) [OF i]] service_entries [OF i q]
  by (intro simulates_intro) (simp_all add: answer_def)

lemma reap_simulated:
  assumes i: "implements view C t g S" and q: "name_ok q"
  shows "simulates t (Reap q clk) g S"
proof -
  note d = implementsD [OF i]
  let ?taken = "filter (expired_task (clk 0)) (of_queue q (sv_leased S))"
  have taken: "set ?taken \<subseteq> set (sv_leased S)" "distinct ?taken"
    using service_okD(8) [OF d(1)] by (auto simp: of_queue_def)
  obtain g' where r: "reap_inflight R C clk g t q = (Inr (), g')"
    and T: "tenant_at (view (db g')) t
      (table enc (sv_waiting S) ++ stored C (reclaimed C (clk 0) (entries (table enc (sv_leased S)) q)))
      (table enc (sv_leased S) |` (- fst ` set (swept C (clk 0) (entries (table enc (sv_leased S)) q))))
      (table enc (sv_dead S) ++ stored C (envelopes C q clk 0 (entries (table enc (sv_leased S)) q)))"
    using reap_contract [OF d(6), where clk = clk and q = q] by blast
  have "in_range (sv_waiting S @ change (\<lambda>x. x\<lparr>deadline := 0\<rparr>) ?taken)"
    by (rule in_range_move [OF in_range_swap [OF service_rangeD(4) [OF d(1,4)]] taken])
  note tab = table_joined [OF this, of enc]
  have "implements view C t g' (S\<lparr>sv_leased := without (map handle ?taken) (sv_leased S),
      sv_waiting := joined (sv_waiting S) (change (\<lambda>x. x\<lparr>deadline := 0\<rparr>) ?taken)\<rparr>)"
    by (rule implements_intro [OF reap_ok [OF d(1,4)] _ _ T])
      (use d(2,3) tab seq_reap [OF r] in \<open>simp_all add: service_entries [OF i q] env.swept_rows\<close>)
  with r show ?thesis by (intro simulates_intro) (simp_all add: answer_def Let_def)
qed

lemma leased_at:
  assumes i: "implements view C t g S" and e: "find (\<lambda>e. handle e = k) (sv_leased S) = Some e"
  shows "e \<in> set (sv_leased S)" "handle e = k" "table enc (sv_leased S) k = Some (enc (snd e))"
proof -
  note d = implementsD [OF i]
  from e show "e \<in> set (sv_leased S)" "handle e = k" by (auto simp: find_Some_iff)
  then show "table enc (sv_leased S) k = Some (enc (snd e))"
    unfolding table_at [OF service_rangeD(2) [OF d(1,4)]] by blast
qed

lemma upd_table: "m(handle e \<mapsto> enc (snd e)) = m ++ table enc [e]"
  by (simp add: table_def)

lemma drop_restrict: "m(k := None) = m |` (- {k})"
  by (auto simp: restrict_map_def fun_eq_iff)

lemma nack_simulated:
  assumes i: "implements view C t g S" and n: "sv_next (snd (serve t (Nack k now) S)) < 2 ^ 64"
  shows "simulates t (Nack k now) g S"
proof -
  note d = implementsD [OF i]
  obtain g' where r: "nack R C now g t k = (Inr (), g')"
    and f: "case nack_fate_of C now (table enc (sv_leased S)) k of
        NotInflight \<Rightarrow> g' = g
      | ToDlq e \<Rightarrow> tenant_at (view (db g')) t (table enc (sv_waiting S)) ((table enc (sv_leased S))(k := None))
          ((table enc (sv_dead S))(k \<mapsto> enc e)) \<and> seq g' = seq g
      | ToDlqRaw v \<Rightarrow> tenant_at (view (db g')) t (table enc (sv_waiting S)) ((table enc (sv_leased S))(k := None))
          ((table enc (sv_dead S))(k \<mapsto> v)) \<and> seq g' = seq g
      | Retried x \<Rightarrow> tenant_at (view (db g')) t ((table enc (sv_waiting S))(encode_key (task_queue x) (seq g) \<mapsto> enc x))
          ((table enc (sv_leased S))(k := None)) (table enc (sv_dead S)) \<and> seq g' = seq g + 1"
    using nack_contract [OF d(6), of now k] by blast
  show ?thesis
  proof (cases "find (\<lambda>e. handle e = k) (sv_leased S)")
    case None
    then have "k \<notin> dom (table enc (sv_leased S))" by (auto simp: find_None_iff)
    then have "table enc (sv_leased S) k = None" by blast
    with f have "g' = g" by (simp add: nack_fate_of_def)
    with r i None show ?thesis by (intro simulates_intro) (simp_all add: answer_def)
  next
    case (Some e)
    note e = leased_at [OF i Some]
    have leased: "(table enc (sv_leased S))(k := None) = table enc (without [handle e] (sv_leased S))"
      by (simp add: drop_restrict e(2))
    show ?thesis
    proof (cases "attempts (snd e) \<ge> max_attempts")
      case True
      let ?S = "S\<lparr>sv_leased := without [handle e] (sv_leased S), sv_dead := joined (sv_dead S) [e]\<rparr>"
      from f True have T: "tenant_at (view (db g')) t (table enc (sv_waiting S)) ((table enc (sv_leased S))(k := None))
          ((table enc (sv_dead S))(k \<mapsto> enc (snd e)))" and s: "seq g' = seq g"
        by (simp_all add: nack_fate_of_def e(3))
      have "in_range (sv_dead S @ change id [e])"
        by (rule in_range_move [OF service_rangeD(5) [OF d(1,4)]]) (use e in simp_all)
      then have "in_range (sv_dead S @ [e])" by simp
      note tab = table_joined [OF this, of enc]
      have "implements view C t g' ?S"
        by (rule implements_intro [OF bury_ok [OF d(1,4) e(1)] _ _ T])
          (use d(2,3) s tab in \<open>simp_all add: drop_restrict upd_table flip: e(2)\<close>)
      with r Some True e(2) show ?thesis by (intro simulates_intro) (simp_all add: answer_def)
    next
      case False
      let ?x = "(snd e)\<lparr>deadline := 0\<rparr>"
      let ?S = "S\<lparr>sv_leased := without [handle e] (sv_leased S), sv_waiting := sv_waiting S @ [(sv_next S, ?x)],
        sv_next := Suc (sv_next S)\<rparr>"
      from f False have T: "tenant_at (view (db g')) t ((table enc (sv_waiting S))(encode_key (task_queue ?x) (seq g) \<mapsto> enc ?x))
          ((table enc (sv_leased S))(k := None)) (table enc (sv_dead S))" and s: "seq g' = seq g + 1"
        by (simp_all add: nack_fate_of_def e(3))
      have n': "sv_next ?S < 2 ^ 64" using n Some False e(2) by simp
      note ok = retry_ok [OF d(1) e(1)]
      from service_rangeD(1) [OF ok less_imp_le [OF n']] have "in_range (sv_waiting S @ [(sv_next S, ?x)])" by simp
      note tab = table_append [OF this, of enc]
      have h: "encode_key (task_queue ?x) (seq g) = handle (sv_next S, ?x)" by (simp add: handle_def d(3))
      have w: "(table enc (sv_waiting S))(encode_key (task_queue ?x) (seq g) \<mapsto> enc ?x) =
          table enc (sv_waiting S @ [(sv_next S, ?x)])"
        unfolding h using tab upd_table [of "table enc (sv_waiting S)" "(sv_next S, ?x)"] by simp
      have "implements view C t g' ?S"
        by (rule implements_intro [OF ok n' _ T]) (use d(3) s w leased in simp_all)
      with r Some False e(2) show ?thesis by (intro simulates_intro) (simp_all add: answer_def)
    qed
  qed
qed

lemma service_inv:
  assumes i: "implements view C t g S"
  shows "tenant_inv C (sv_next S) (table enc (sv_waiting S)) (table enc (sv_leased S)) (table enc (sv_dead S))"
proof -
  note d = implementsD [OF i]
  note r = service_rangeD [OF d(1,4)] and o = service_okD [OF d(1)]
  have "distinct (map handle (sv_waiting S @ sv_leased S @ sv_dead S))"
    by (rule in_range_handles [OF service_range [OF d(1,4)]])
  then have "disjoint3 (table enc (sv_waiting S)) (table enc (sv_leased S)) (table enc (sv_dead S))"
    by (auto simp: disjoint3_def)
  moreover have "key_ok (sv_next S) (handle e) \<and> filed C (handle e) (enc (snd e))"
    if "name_ok (task_queue (snd e)) \<and> fst e < sv_next S" for e
  proof -
    have "fst e < 2 ^ 64" using that d(2) by (meson order_less_trans)
    from unat_of_nat_u64 [OF this] that show ?thesis by (simp add: handle_def filed_def)
  qed
  ultimately show ?thesis using o(4-6)
    unfolding tenant_inv_def all_kv_def table_at [OF r(1)] table_at [OF r(2)] table_at [OF r(3)]
      pending_ok_def inflight_ok_def letter_ok_def
    by (auto simp: waiting_def)
qed

lemma cumulative_ack_simulated:
  assumes i: "implements view C t g S" and q: "name_ok q"
  shows "simulates t (CumulativeAck q s) g S"
proof -
  note d = implementsD [OF i]
  note r2 = service_rangeD(2) [OF d(1,4)]
  let ?taken = "filter (\<lambda>e. fst e \<le> unat s) (of_queue q (sv_leased S))"
  let ?K = "{k \<in> dom (table enc (sv_leased S)). \<exists>m \<le> s. k = encode_key q m}"
  have eq: "(\<exists>m \<le> s. handle e = encode_key q m) \<longleftrightarrow> task_queue (snd e) = q \<and> fst e \<le> unat s" if "e \<in> set (sv_leased S)" for e
  proof -
    have "fst e < 2 ^ 64" using r2 that unfolding in_range_def by blast
    from unat_of_nat_u64 [OF this] show ?thesis by (auto simp: handle_def word_le_nat_alt)
  qed
  have K: "?K = handle ` set ?taken" using eq by auto
  have "distinct (map handle ?taken)"
    using in_range_handles [OF in_range_filter [OF in_range_filter [OF r2]]] by (simp add: of_queue_def)
  then have card: "card ?K = length ?taken" unfolding K by (metis distinct_card length_map list.set_map)
  obtain g' where r: "cumulative_ack R g t q s = (Inr (card ?K), g')"
    and T: "tenant_at (view (db g')) t (table enc (sv_waiting S)) (table enc (sv_leased S) |` (- ?K)) (table enc (sv_dead S))"
    using cumulative_ack_contract [OF d(6) service_inv [OF i] q, of s] by blast
  have "implements view C t g' (S\<lparr>sv_leased := without (map handle ?taken) (sv_leased S)\<rparr>)"
    by (rule implements_intro [OF leave_ok(2) [OF d(1)] _ _ T]) (use d(2,3) seq_cumulative_ack [OF r] K in simp_all)
  with r card show ?thesis by (intro simulates_intro) (simp_all add: answer_def Let_def)
qed

lemma replay_simulated:
  assumes i: "implements view C t g S" and n: "sv_next (snd (serve t Replay S)) < 2 ^ 64"
  shows "simulates t Replay g S"
proof -
  note d = implementsD [OF i]
  note r3 = service_rangeD(3) [OF d(1,4)]
  let ?letters = "map snd (sort_key handle (sv_dead S))"
  let ?new = "number_from (sv_next S) (map (\<lambda>x. x\<lparr>attempts := 0, deadline := 0\<rparr>) ?letters)"
  let ?S = "S\<lparr>sv_dead := [], sv_next := sv_next S + length ?letters, sv_waiting := sv_waiting S @ ?new\<rparr>"
  have card: "card (dom (table enc (sv_dead S))) = length (sv_dead S)"
    using in_range_handles [OF r3] by (metis distinct_card dom_table length_map list.set_map)
  have n': "sv_next ?S < 2 ^ 64" using n by (simp add: Let_def)
  then have "unat (seq g) + card (dom (table enc (sv_dead S))) < 2 ^ 64" unfolding card d(5) by simp
  from replay_contract [OF d(6) service_inv [OF i, folded d(5)] this] obtain g' where
    r: "replay_dlq R C g t = (Inr (length (sv_dead S)), g')" and
    T: "tenant_at (view (db g')) t (table enc (sv_waiting S) ++
      map_of (rev (enc_all enc (replayed C (seq g) (kv_list (table enc (sv_dead S))))))) (table enc (sv_leased S)) Map.empty"
    unfolding card by blast
  have s: "seq g' = seq g + of_nat (length (sv_dead S))"
  proof -
    have "env.replay_post g g' t (table enc (sv_waiting S)) (table enc (sv_leased S)) (table enc (sv_dead S)) (length (sv_dead S))"
      using env.replay_outcome [OF d(6) r] by simp
    from this [unfolded env.replay_post_def, THEN conjunct2, THEN conjunct1] show ?thesis by (rule seq_update(3))
  qed
  note ok = replay_ok [OF d(1)]
  have range: "in_range (sv_waiting S @ ?new)" using service_rangeD(1) [OF ok less_imp_le [OF n']] by simp
  have rep: "replayed C (seq g) (kv_list (table enc (sv_dead S))) = seen ?new"
    unfolding d(3) kv_list_table [OF r3] by (rule env.replayed_rows)
  have "distinct (map fst (seen ?new))"
    using in_range_handles [OF in_range_append(2) [OF range]] by (simp add: seen_def comp_def)
  then have "map_of (rev (enc_all enc (seen ?new))) = table enc ?new" by (simp add: stored_rev env.stored_table)
  with T have T': "tenant_at (view (db g')) t (table enc (sv_waiting S) ++ table enc ?new) (table enc (sv_leased S)) Map.empty"
    by (simp only: rep)
  have "implements view C t g' ?S"
    by (rule implements_intro [OF ok n' _ T']) (use s d(3) table_append [OF range, of enc] in simp_all)
  with r show ?thesis by (intro simulates_intro) (simp_all add: answer_def Let_def)
qed

lemma command_simulated:
  assumes "implements view C t g S" and "command_ok c" and "sv_next (snd (serve t c S)) < 2 ^ 64"
  shows "simulates t c g S"
  using assms
proof (cases c)
  case (Enqueue q ps policy now uuid)
  with assms show ?thesis using enqueue_simulated by blast
qed (use assms dequeue_simulated ack_simulated nack_simulated cumulative_ack_simulated reap_simulated
    purge_simulated replay_simulated depth_simulated in auto)

end

lemma serve_grows: "sv_next S \<le> sv_next (snd (serve t c S))"
  by (cases c) (auto simp: accept_def lease_def Let_def split: option.splits)

lemma serve_all_grows: "sv_next S \<le> sv_next (snd (serve_all t cs S))"
proof (induction cs arbitrary: S)
  case (Cons c cs)
  from Cons [of "snd (serve t c S)"] serve_grows [of S t c] show ?case by (auto split: prod.splits)
qed simp

end
