(* ===== verification/Rq_Service_Properties.thy ===== *)
theory Rq_Service_Properties
  imports Rq_Service_Facts Rq_Samples
begin

text \<open>
  The registry implements the service: answer by answer, for every sequence of commands.
\<close>

text \<open>
  C1. The registry implements a service that knows nothing of keys, bytes and column families: on
  a reliable store, for every sequence of queue commands on a tenant (enqueue without a quota or with the
  policies that do not wait, dequeue with and without a cap, acknowledge, hand back, cumulative
  acknowledgement, sweep, purge, replay, depth), each operation of the registry gives the answer of the service, and what
  is in the column families afterwards is what the service holds.
\<close>

theorem registry_refines_service:
  assumes "reliable_env R view C" and "implements view C t g S"
    and "\<forall>c \<in> set cs. command_ok c" and "sv_next (snd (serve_all t cs S)) < 2 ^ 64"
  shows "\<exists>g'. perform_all R C t cs g = Some (fst (serve_all t cs S), g') \<and> implements view C t g' (snd (serve_all t cs S))"
  using assms(2-4)
proof (induction cs arbitrary: g S)
  case (Cons c cs)
  obtain r S1 where s: "serve t c S = (r, S1)" by (cases "serve t c S")
  obtain rs S2 where ss: "serve_all t cs S1 = (rs, S2)" by (cases "serve_all t cs S1")
  have n: "sv_next S2 < 2 ^ 64" using Cons.prems(3) s ss by simp
  moreover have "sv_next S1 \<le> sv_next S2" using serve_all_grows [of S1 t cs] ss by simp
  ultimately have "sv_next (snd (serve t c S)) < 2 ^ 64" using s by simp
  with Cons.prems have "reliable_env.simulates R view C t c g S"
    by (intro reliable_env.command_simulated [OF assms(1)]) simp_all
  then obtain g1 where "perform R C t c g = Some (r, g1)" "implements view C t g1 S1"
    unfolding reliable_env.simulates_def [OF assms(1)] s by auto
  moreover from Cons.IH [OF this(2)] Cons.prems(2) n ss
  obtain g2 where "perform_all R C t cs g1 = Some (rs, g2)" "implements view C t g2 S2" by auto
  ultimately show ?case using s ss by auto
qed simp

text \<open>A tenant that has just been provisioned is an empty service.\<close>

lemma provisioned_empty:
  assumes "tenant_at (view (db g)) t Map.empty Map.empty Map.empty"
  shows "implements view C t g \<lparr>sv_waiting = [], sv_leased = [], sv_dead = [], sv_next = unat (seq g)\<rparr>"
  using assms unsigned_less [of "seq g"] by (simp add: implements_def service_ok_def)

theorem registry_refines_service_witness:
  "\<exists>g g'. provision_tenant mem_rocksdb ref_policy_codec sample ''u'' (premium_policy ''u'') = (Inr (), g) \<and>
     perform_all mem_rocksdb ref_task_codec ''u''
       [Enqueue ''q'' [[1], [2]] (standard_policy ''u'') 7 (\<lambda>i. show_nat i),
        Dequeue ''q'' 1 50 (\<lambda>_. 100), Nack (encode_key ''q'' (seq sample)) 120, Depth ''q'',
        Dequeue ''q'' 1 50 (\<lambda>_. 200), Ack [encode_key ''q'' (seq sample + 1)], Depth ''q''] g =
     Some ([Ids [show_nat 0, show_nat 1],
        Tasks [(encode_key ''q'' (seq sample), (new_task ''q'' 7 (show_nat 0) [1])\<lparr>attempts := 1, deadline := 150\<rparr>)],
        Settled, Depths 2 0 0,
        Tasks [(encode_key ''q'' (seq sample + 1), (new_task ''q'' 7 (show_nat 1) [2])\<lparr>attempts := 1, deadline := 250\<rparr>)],
        Counted 1, Depths 1 0 0], g')"
proof -
  obtain g where g: "provision_tenant mem_rocksdb ref_policy_codec sample ''u'' (premium_policy ''u'') = (Inr (), g)"
    using ref_reg.provision_total [of sample "''u''" "premium_policy ''u''"]
    by (auto simp: sample_view sample_system)
  note out = ref_reg.renv.provision_outcome [OF g]
  have v: "mem_view (db g) = registry_env.with_meta (registry_env.with_tenant (mem_view (db sample)) ''u'') ''u''
      (Some (bincode.enc ref_policy_codec (premium_policy ''u'')))" using out by blast
  have "g = sample\<lparr>db := db g, policies := (policies sample)(''u'' \<mapsto> premium_policy ''u'')\<rparr>" using out by blast
  then have "seq g = seq (sample\<lparr>db := db g, policies := (policies sample)(''u'' \<mapsto> premium_policy ''u'')\<rparr>)" by (rule arg_cong)
  then have s: "seq g = seq sample" by simp
  have T: "tenant_at (mem_view (db g)) ''u'' Map.empty Map.empty Map.empty"
    by (auto simp: v tenant_at_def ref_reg.renv.with_meta_def ref_reg.renv.with_tenant_def)
  have start: "implements mem_view ref_task_codec ''u'' g \<lparr>sv_waiting = [], sv_leased = [], sv_dead = [], sv_next = 5\<rparr>"
    using provisioned_empty [where view = mem_view and g = g and C = ref_task_codec, OF T] by (simp add: s)
  let ?cs = "[Enqueue ''q'' [[1], [2]] (standard_policy ''u'') 7 (\<lambda>i. show_nat i),
        Dequeue ''q'' 1 50 (\<lambda>_. 100), Nack (encode_key ''q'' (seq sample)) 120, Depth ''q'',
        Dequeue ''q'' 1 50 (\<lambda>_. 200), Ack [encode_key ''q'' (seq sample + 1)], Depth ''q'']"
  let ?rs = "[Ids [show_nat 0, show_nat 1],
        Tasks [(encode_key ''q'' (seq sample), (new_task ''q'' 7 (show_nat 0) [1])\<lparr>attempts := 1, deadline := 150\<rparr>)],
        Settled, Depths 2 0 0,
        Tasks [(encode_key ''q'' (seq sample + 1), (new_task ''q'' 7 (show_nat 1) [2])\<lparr>attempts := 1, deadline := 250\<rparr>)],
        Counted 1, Depths 1 0 0]"
  let ?S = "\<lparr>sv_waiting = [(7, (new_task ''q'' 7 (show_nat 0) [1])\<lparr>attempts := 1\<rparr>)], sv_leased = [], sv_dead = [], sv_next = 8\<rparr>"
  have few: "\<not> max_attempts \<le> 1" by (simp add: max_attempts_def word_le_nat_alt)
  have run: "serve_all ''u'' ?cs \<lparr>sv_waiting = [], sv_leased = [], sv_dead = [], sv_next = 5\<rparr> = (?rs, ?S)"
    by (simp add: standard_policy_def accept_def lease_def number_from_def of_queue_def without_def joined_def seen_def
        handle_def new_task_def few saturating_add_def upt_rec)
  have "\<forall>c \<in> set ?cs. command_ok c" using sample_name by (simp add: standard_policy_def)
  from registry_refines_service [OF ref.reliable_env_axioms start this] g run show ?thesis by auto
qed

end
