(* ===== verification/Rq_Process_Properties.thy ===== *)
theory Rq_Process_Properties
  imports Rq_Process Rq_Node_Properties Rq_Threads
begin

text \<open>
  The process from its start on: what \<open>main\<close> builds agrees on the tenants, and stays so. Two things
  that the process does not do: reap queues other than the default one, and heed its scheduler.
\<close>

section \<open>From the environment to a serving node\<close>









section \<open>Queues that are never reaped\<close>

lemma reap_unprovisioned:
  assumes "\<not> provisioned R g u"
  shows "snd (reap_inflight R C clk g u q) = g"
  using assms by (auto simp: reap_inflight_def provisioned_def pending_cf_def inflight_cf_def dlq_cf_def)

context reliable_env
begin

lemma reap_elsewhere:
  assumes T: "tenant_at (view (db g)) t P I D" and q: "name_ok q" "name_ok r" "q \<noteq> r"
  shows "\<exists>P' I' D'. tenant_at (view (db (snd (reap_inflight R C clk g u r)))) t P' I' D' \<and> I' |` in_queue q = I |` in_queue q"
proof (cases "provisioned R g u")
  case False
  with T show ?thesis by (auto simp: reap_unprovisioned)
next
  case True
  then obtain P1 I1 D1 where T1: "tenant_at (view (db g)) u P1 I1 D1" by (rule env.provisioned_tenant)
  obtain g' where r: "reap_inflight R C clk g u r = (Inr (), g')"
    and T': "tenant_at (view (db g')) u (P1 ++ stored C (reclaimed C (clk 0) (entries I1 r)))
      (I1 |` (- fst ` set (swept C (clk 0) (entries I1 r)))) (D1 ++ stored C (envelopes C r clk 0 (entries I1 r)))"
    and se: "same_elsewhere u (view (db g)) (view (db g'))"
    using reap_contract [OF T1, where clk = clk and q = r] by blast
  show ?thesis
  proof (cases "u = t")
    case True
    with T T1 have I: "I1 = I" by (simp add: tenant_at_def)
    have "fst ` set (swept C (clk 0) (entries I1 r)) \<subseteq> in_queue r"
      using fst_set_entries [of I1 r] env.tenant_finite [OF T1] by (auto simp: swept_def)
    moreover have "in_queue q \<subseteq> - in_queue r" by (rule in_queue_apart [OF q])
    ultimately have "in_queue q \<inter> - fst ` set (swept C (clk 0) (entries I1 r)) = in_queue q" by blast
    then have "(I1 |` (- fst ` set (swept C (clk 0) (entries I1 r)))) |` in_queue q = I |` in_queue q"
      by (simp add: I Int_commute)
    moreover from T' True have "\<exists>P' D'. tenant_at (view (db g')) t P' (I1 |` (- fst ` set (swept C (clk 0) (entries I1 r)))) D'"
      by blast
    ultimately show ?thesis unfolding r snd_conv by blast
  next
    case False
    from same_elsewhere_tenant [OF se, of t P I D] False T r show ?thesis by auto
  qed
qed

end

text \<open>
  The reaper of the process watches the queue \<open>default\<close> only. A task of any other queue that a consumer
  took and never settled stays in flight for ever, whatever its deadline.
\<close>

theorem other_queues_never_reaped:
  assumes "reliable_env R view C" and "tenant_at (view (db g)) t P I D" and "name_ok q" and "q \<noteq> ''default''"
  shows "\<exists>P' I' D'. tenant_at (view (db (reaper_tick R C clk order default_queues g))) t P' I' D' \<and>
    I' |` in_queue q = I |` in_queue q"
proof -
  have d: "name_ok ''default''" by code_simp
  have "\<exists>P' I' D'. tenant_at (view (db (fold (\<lambda>u g. snd (reap_inflight R C clk g u ''default'')) us g))) t P' I' D' \<and>
      I' |` in_queue q = I |` in_queue q" for us
    using assms(2)
  proof (induction us arbitrary: g P I D)
    case (Cons u us)
    from reliable_env.reap_elsewhere [OF assms(1) Cons.prems assms(3) d assms(4), of clk u] obtain P1 I1 D1 where
      1: "tenant_at (view (db (snd (reap_inflight R C clk g u ''default'')))) t P1 I1 D1" "I1 |` in_queue q = I |` in_queue q"
      by blast
    from Cons.IH [OF 1(1)] 1(2) show ?case by auto
  qed auto
  then show ?thesis by (simp add: reaper_tick_def default_queues_def)
qed

section \<open>A scheduler nobody asks\<close>

text \<open>
  Neither a dequeue request nor a worker looks at the scheduler: a paused tenant, and one whose rate the
  throttle has reduced, is served exactly as before.
\<close>

lemma dequeue_ignores_scheduler:
  "rpc_dequeue_tasks R C H clk t queue limit (n\<lparr>nd_scheduler := s\<rparr>) =
   (case rpc_dequeue_tasks R C H clk t queue limit n of (r, n') \<Rightarrow> (r, n'\<lparr>nd_scheduler := s\<rparr>))"
  by (auto simp: rpc_dequeue_tasks_def bind_reply_def offload_def Let_def split: option.splits prod.splits sum.splits)

lemma process_ignores_scheduler:
  "process_task R C handler latency now (n\<lparr>nd_scheduler := s\<rparr>) t k x =
   (process_task R C handler latency now n t k x)\<lparr>nd_scheduler := s\<rparr>"
proof (cases "handler t x")
  case (Inl e)
  obtain r g where "nack R C now (nd_registry n) t k = (r, g)" by (cases "nack R C now (nd_registry n) t k")
  with Inl show ?thesis by (simp add: process_task_def)
next
  case (Inr u)
  obtain r g where a: "ack R (nd_registry n) t k = (r, g)" by (cases "ack R (nd_registry n) t k")
  have "handler t x = Inr ()" using Inr by simp
  then show ?thesis
    unfolding process_task_def by (simp only: sum.case old.unit.case) (cases r; simp add: a)
qed

lemma tasks_ignore_scheduler:
  "process_tasks R C handler latency now t xs (n\<lparr>nd_scheduler := s\<rparr>) =
   (process_tasks R C handler latency now t xs n)\<lparr>nd_scheduler := s\<rparr>"
  by (induction R C handler latency now t xs n rule: process_tasks.induct) (simp_all add: process_ignores_scheduler)

lemma work_ignores_scheduler:
  "work_queue R C handler latency now clk slots t q (n\<lparr>nd_scheduler := s\<rparr>) =
   (work_queue R C handler latency now clk slots t q n)\<lparr>nd_scheduler := s\<rparr>"
proof -
  have swap: "n\<lparr>nd_scheduler := s, nd_registry := g\<rparr> = n\<lparr>nd_registry := g, nd_scheduler := s\<rparr>" for g by simp
  have sel: "nd_registry (n\<lparr>nd_scheduler := s\<rparr>) = nd_registry n" by simp
  obtain r g where d: "dequeue R C clk (nd_registry n) t q slots = (r, g)" by (cases "dequeue R C clk (nd_registry n) t q slots")
  show ?thesis
    by (cases r) (simp_all only: work_queue_def sel d swap prod.case sum.case tasks_ignore_scheduler)
qed

lemma worker_ignores_scheduler:
  "worker_tick R C handler latency now clk order now1 now2 queues slots conc (n\<lparr>nd_scheduler := s\<rparr>) =
   (worker_tick R C handler latency now clk order now1 now2 queues slots conc n)\<lparr>nd_scheduler := s\<rparr>"
proof -
  let ?work = "\<lambda>t slots q n. work_queue R C handler latency now (clk t q) slots t q n"
  have qs: "fold (?work t slots) qs (m\<lparr>nd_scheduler := s\<rparr>) = (fold (?work t slots) qs m)\<lparr>nd_scheduler := s\<rparr>" for t slots qs m
    by (induction qs arbitrary: m) (simp_all add: work_ignores_scheduler)
  have "fold (\<lambda>(t, slots) n. if slots = 0 then n else fold (?work t slots) queues n) al (m\<lparr>nd_scheduler := s\<rparr>) =
      (fold (\<lambda>(t, slots) n. if slots = 0 then n else fold (?work t slots) queues n) al m)\<lparr>nd_scheduler := s\<rparr>" for al m
    by (induction al arbitrary: m) (auto simp: qs)
  then show ?thesis by (simp add: worker_tick_def)
qed

theorem pool_ignores_scheduler:
  "pool_run R C pool ticks (n\<lparr>nd_scheduler := s\<rparr>) = (pool_run R C pool ticks n)\<lparr>nd_scheduler := s\<rparr>"
proof -
  have "worker_loop R C pool ks (m\<lparr>nd_scheduler := s\<rparr>) = (worker_loop R C pool ks m)\<lparr>nd_scheduler := s\<rparr>" for ks m
    by (induction ks arbitrary: m) (simp_all add: worker_ignores_scheduler)
  then show ?thesis by (simp add: pool_run_def)
qed

end
