(* ===== verification/Spec2Isabelle.thy ===== *)
theory Spec2Isabelle
  imports Rq_Queue_Properties Rq_Registry_Properties Rq_Hazards Rq_Scheduler_Properties Rq_Node_Properties
    Rq_Progress_Properties Rq_Batch_Properties Rq_Threads_Properties Rq_Service_Properties Rq_Process_Properties
begin

text \<open>
  \<^bold>\<open>The program.\<close> \<open>rocksqueue\<close> is a task queue for many tenants on top of RocksDB. A tenant has three
  column families (pending, inflight, dlq); a queue of the tenant is a key prefix in each. Producers
  enqueue, consumers dequeue tasks (which moves them to inflight with a deadline), and acknowledge
  them or give them back; the reaper returns tasks whose deadline has passed; what cannot be
  processed goes to the dead letters. Around the registry a process runs a weighted fair
  scheduler, a statistics collector, baselines of the arrival rates, an automatic throttle, a store for
  their state in the same database, a worker pool, and a gRPC control plane.

  \<^bold>\<open>Models.\<close> One theory per source file (below \<open>src/src/\<close>), definitions under the names of the code.
  \<^item> \<open>Rq_Prelude\<close>: words, bytes and UTF-8, lists in byte order, the results of fallible calls;
    \<open>Rq_Float\<close>: IEEE double arithmetic (round to nearest, ties to even) on exact rationals.
  \<^item> \<open>Rq_Task\<close>: \<open>task.rs\<close>, \<open>error.rs\<close>; \<open>Rq_Policy\<close>: \<open>policy.rs\<close>; \<open>Rq_Compaction\<close>:
    \<open>compaction.rs\<close>; \<open>Rq_Paths\<close>: the components of \<open>std::path\<close>;
    \<open>Rq_Registry\<close>, \<open>Rq_Queue\<close>: \<open>tenant.rs\<close> (opening, life cycle, checkpoints; then the queue
    operations); \<open>Rq_Reaper\<close>: \<open>reaper.rs\<close>. The record \<open>registry\<close> is \<open>TenantRegistry\<close>: database,
    sequence counter, policies, the keys of the two lock maps and the compaction counters.
  \<^item> \<open>Rq_Scheduler\<close>: \<open>scheduler.rs\<close>; \<open>Rq_Stats\<close>: \<open>stats.rs\<close>; \<open>Rq_Baseline\<close>, \<open>Rq_Baselines\<close>:
    \<open>baseline.rs\<close>; \<open>Rq_Stats_Store\<close>: \<open>stats_store.rs\<close>; \<open>Rq_Throttle\<close>: \<open>throttle.rs\<close>;
    \<open>Rq_Daemon\<close>: \<open>stats_daemon.rs\<close>, \<open>fair_worker.rs\<close>; \<open>Rq_Control\<close>, \<open>Rq_Admin\<close>:
    \<open>grpc/control_plane.rs\<close> (requests on tenants, policies and tasks; statistics, throttles,
    baselines, administration); \<open>Rq_Main\<close>: \<open>config.rs\<close>, \<open>ownership.rs\<close>, \<open>main.rs\<close>. The record \<open>node\<close> is a running process:
    registry, scheduler, collector, throttles and baselines.
  \<^item> \<open>Rq_Threads\<close>: consumers in parallel. \<open>dequeue_batch_unlocked\<close> and \<open>reap_inflight\<close> in two halves, a
    scan and a commit (equal to the whole by \<open>dequeue_halves\<close>, \<open>reap_halves\<close>), and the machine of threads
    that run a dequeue under the lock of its queue while operations without that lock run between.
  \<^item> \<open>Rq_Process\<close>: the process after its start: the requests (\<open>request_step\<close>), the tasks \<open>main\<close> spawns over
    its default queue (\<open>main_step\<close>), and the worker pool of \<open>fair_worker.rs\<close> over the ticks of its timers.
  \<^item> A call that may fail returns \<open>Inl\<close> an error or \<open>Inr\<close> a result, beside the state after it; a
    panic is \<open>None\<close> or \<open>Panicked\<close>, a call that hangs on a lock it holds itself \<open>Blocked\<close>.
    Machine integers are words and wrap as the code does in a release build.

  \<^bold>\<open>Parameters.\<close> Code outside the repository is an argument of the definitions: RocksDB (the record
  \<open>rocksdb\<close>, over an arbitrary type of databases), \<open>bincode\<close> (\<open>codec\<close>), \<open>hex\<close>, \<open>f64::powf\<close>, the
  task handler, \<open>uuid\<close>, clock readings, and the order in which a concurrent map is enumerated.
  \<open>Rq_Store\<close> states what the code relies on: the locale \<open>kv_store\<close> is the documented behaviour of
  point reads, prefix iteration and atomic batches over a view from column families to finite maps,
  where every call may also fail without effect; \<open>reliable_store\<close> adds that calls on existing column
  families succeed. \<open>queue_env\<close> and \<open>reliable_env\<close> are these with a codec of tasks;
  \<open>registry_env\<close>, \<open>reliable_registry\<close>, \<open>stats_env\<close> and \<open>hex_law\<close> extend this to
  policies, to the statistics and to the keys sent to clients. \<open>Rq_Reference\<close> and
  \<open>Rq_Runtime_Reference\<close> interpret all of them: an association-list database, an encoder and a decoder
  for tasks, policies and records, and a database whose writes fail. The witnesses run the
  properties on these.

  \<^bold>\<open>Facts.\<close> \<open>Rq_Queue_Facts\<close>, \<open>Rq_Enqueue_Facts\<close>, \<open>Rq_Ack_Facts\<close>, \<open>Rq_Reaper_Facts\<close> give every queue
  operation on a reliable store as a function of three finite maps; \<open>Rq_Invariant\<close> and \<open>Rq_System\<close> state
  the invariant of a tenant and prove it for the step relation \<open>reg_step\<close> of the registry on a store
  that may fail; \<open>Rq_Conservation\<close> counts payloads; \<open>Rq_Lifecycle\<close> treats provisioning, dropping and opening;
  \<open>Rq_Contracts\<close> collects the contracts. \<open>Rq_Scheduler_Facts\<close>, \<open>Rq_Stats_Facts\<close>, \<open>Rq_Baseline_Facts\<close> bound
  the floating point quantities; \<open>Rq_Store_Facts\<close> refines the store to three tables;
  \<open>Rq_Throttle_Facts\<close> follows a throttle through its life. In \<open>Rq_Threads\<close>, \<open>keeps\<close> is what every thread grants
  to the holder of a queue lock (its pending records stay), in \<open>Rq_Progress_Properties\<close> \<open>deliveries_left\<close> is
  the measure every round of a worker decreases.

  \<^bold>\<open>The abstract service.\<close> \<open>Rq_Service\<close> specifies what the queues of a tenant promise: three lists of
  numbered tasks and a counter, the operations as commands with replies (\<open>serve\<close>), no keys, no bytes, no column
  families. \<open>Rq_Service_Facts\<close> relates lists to the maps of the column families (\<open>table\<close>, \<open>implements\<close>)
  and proves the simulation command by command; \<open>Rq_Service_Properties\<close> lifts it to sequences of commands.
  The policy that blocks a producer is not a command, since what it does depends on the others.

  \<^bold>\<open>Properties\<close> stand in the theories \<open>Rq_*_Properties\<close> and below, each under its number C1 to C40:
  the queue (conservation, order, quota policies, acknowledgement, retries, the reaper, errors), the registry
  (invariant, isolation of tenants and queues, restart, compaction, checkpoints), the scheduler,
  statistics, the store, throttling, the start of the process, workers, the control plane, the
  process as a whole, parallel consumers (no double delivery), the refinement of the abstract service, batches against single operations,
  and progress (worker rounds drain a queue). \<open>Rq_Hazards\<close> and the end of \<open>Rq_Process_Properties\<close> show behaviour that a user of
  the code should know of.

  \<^bold>\<open>Loops.\<close> The batch loops are recursions on the records still to be read. The loop of a blocked
  producer (\<open>block_wait\<close>) and of a drain (\<open>drain_wait\<close>) poll a clock and are partial functions: \<open>None\<close> is
  not returning, and it is proved that they return once the clock passes the deadline at some poll,
  whatever others do between polls. There is no fuel.

  \<^bold>\<open>Not modelled.\<close> The tuning options of \<open>open\<close> that have no effect on contents; logging; the servers, signals and timers of \<open>tokio\<close>, \<open>axum\<close> and \<open>tonic\<close> (of a background task the body of
  its loop is modelled, of a stream its run over a list of ticks); \<open>build.rs\<close>, module lists and generated code.
  Operations are atomic steps, except where the code waits (the two loops above), in the machine of
  \<open>Rq_Threads\<close>, and where \<open>Rq_Hazards\<close> splits one into its read and its write.
\<close>

section \<open>The registry over time\<close>

text \<open>
  C2. In every state the registry reaches by its operations, whatever fails and whatever the
  interleaving of whole operations, each tenant satisfies the invariant: a key is in at most one
  of its three column families, every key is a queue name, a NUL and a number the counter has
  passed, records are filed under the queue they name, waiting tasks carry no deadline and
  every dead letter can be read.
\<close>

theorem registry_invariant:
  assumes "queue_env R view C" and "(reg_step R C PC)\<^sup>*\<^sup>* g g'" and "registry_inv C view g"
  shows "registry_inv C view g'"
  by (rule queue_env.reg_steps_inv [OF assms])

theorem registry_invariant_witness:
  "\<exists>g' g''. (reg_step mem_rocksdb ref_task_codec ref_policy_codec)\<^sup>*\<^sup>* sample g'' \<and>
     fst (dequeue_batch mem_rocksdb ref_task_codec (\<lambda>i. 100) g' ''t'' ''q'' 2 50) \<noteq> Inr [] \<and>
     g'' = snd (dequeue_batch mem_rocksdb ref_task_codec (\<lambda>i. 100) g' ''t'' ''q'' 2 50) \<and>
     registry_inv ref_task_codec mem_view g''"
proof -
  let ?ks = "[encode_key ''q'' 0]"
  let ?g1 = "snd (ack_batch mem_rocksdb sample ''t'' ?ks)"
  have pr: "provisioned mem_rocksdb h ''t''" if "tenant_at (mem_view (db h)) ''t'' P I D" for h P I D
    using that by (auto simp: provisioned_def tenant_at_def mem_view_def)
  obtain g1 where g1: "ack_batch mem_rocksdb sample ''t'' ?ks = (Inr (card (set ?ks \<inter> dom (map_of sample_inflight))), g1)"
    "tenant_at (mem_view (db g1)) ''t'' (map_of sample_pending) (map_of sample_inflight |` (- set ?ks)) (map_of sample_dlq)"
    using reliable_env.ack_contract [OF ref.reliable_env_axioms sample_tenant] by blast
  let ?d = "dequeue_batch mem_rocksdb ref_task_codec (\<lambda>i. 100) g1 ''t'' ''q'' 2 50"
  have s1: "reg_step mem_rocksdb ref_task_codec ref_policy_codec sample g1"
    by (rule step_ack [OF pr [OF sample_tenant] g1(1)])
  have s2: "reg_step mem_rocksdb ref_task_codec ref_policy_codec g1 (snd ?d)"
    by (rule step_dequeue [OF pr [OF g1(2)] sample_name, of _ _ _ _ "fst ?d"]) simp
  have steps: "(reg_step mem_rocksdb ref_task_codec ref_policy_codec)\<^sup>*\<^sup>* sample (snd ?d)"
    by (rule rtranclp.rtrancl_into_rtrancl [OF r_into_rtranclp [where r = "reg_step mem_rocksdb ref_task_codec ref_policy_codec", OF s1] s2])
  have "fst ?d = Inr (delivered ref_task_codec (saturating_add 100 50)
      (consumed ref_task_codec 2 (entries (map_of sample_pending) ''q'')))"
    using reliable_env.dequeue_contract [OF ref.reliable_env_axioms g1(2), of "\<lambda>i. 100" "''q''" 2 50] by auto
  then have "fst ?d \<noteq> Inr []"
    unfolding sample_entries by (simp add: sample_pending_def corrupt_def Let_def)
  with steps registry_invariant [OF ref.queue_env steps sample_inv] show ?thesis by blast
qed

text \<open>
  C3. No payload is lost and none is duplicated on the way between the column families: handing
  tasks out, handing one back and a sweep of the reaper succeed on a reliable store and leave
  the multiset of payloads of the tenant, over its three column families, as it was. (The raw
  bytes of an unreadable record count as its payload, before and after it is enveloped.)
\<close>

theorem no_payload_lost:
  assumes "reliable_env R view C" and "tenant_at (view (db g)) t P I D"
    and "tenant_inv C (unat (seq g)) P I D"
  shows "(\<exists>out g' P' I' D'. dequeue_batch R C clk g t q n timeout = (Inr out, g') \<and>
      tenant_at (view (db g')) t P' I' D' \<and> tenant_contents C P' I' D' = tenant_contents C P I D) \<and>
    (\<exists>g' P' I' D'. nack R C now g t k = (Inr (), g') \<and>
      tenant_at (view (db g')) t P' I' D' \<and> tenant_contents C P' I' D' = tenant_contents C P I D) \<and>
    (\<exists>g' P' I' D'. reap_inflight R C clk g t q = (Inr (), g') \<and>
      tenant_at (view (db g')) t P' I' D' \<and> tenant_contents C P' I' D' = tenant_contents C P I D)"
  by (intro conjI reliable_env.dequeue_conserves [OF assms] reliable_env.nack_conserves [OF assms]
      reliable_env.reap_conserves [OF assms])

theorem no_payload_lost_witness:
  "\<exists>g' P' I' D'. nack mem_rocksdb ref_task_codec 100 sample ''t'' (encode_key ''q'' 0) = (Inr (), g') \<and>
     tenant_at (mem_view (db g')) ''t'' P' I' D' \<and>
     tenant_contents ref_task_codec P' I' D' = {# [0], [1], [9], [3], [4] #}"
proof -
  have inv: "tenant_inv ref_task_codec (unat (seq sample)) (map_of sample_pending) (map_of sample_inflight) (map_of sample_dlq)"
    using sample_tenant_inv by simp
  have l: "contents ref_task_codec (map_of xs) = listed ref_task_codec xs" if "distinct (map fst xs)" for xs
    using contents_add [of Map.empty xs ref_task_codec] that by simp
  have "tenant_contents ref_task_codec (map_of sample_pending) (map_of sample_inflight) (map_of sample_dlq) =
      {# [0], [1], [9], [3], [4] #}"
    using l [of sample_pending] l [of sample_inflight] l [of sample_dlq]
    unfolding tenant_contents_def
    by (simp add: sample_pending_def sample_inflight_def sample_dlq_def content_def sample_task_def del: map_of.simps)
  then show ?thesis
    using no_payload_lost [OF ref.reliable_env_axioms sample_tenant inv, of undefined undefined 0 undefined 100 "encode_key ''q'' 0"]
    by metis
qed

text \<open>
  C8. Tenants do not interfere: on any store, whatever an operation on one tenant returns, the three
  column families of every other tenant are what they were.
\<close>

theorem tenants_isolated:
  assumes "queue_env R view C" and "tenant_at (view (db g)) t P I D"
    and "u \<noteq> t" and "tenant_at (view (db g)) u Pu Iu Du"
    and "dequeue_batch R C clk g t q n timeout = (rd, g') \<or> ack_batch R g t ks = (ra, g') \<or>
      nack R C now g t k = (ru, g') \<or> cumulative_ack R g t q s = (ra, g') \<or>
      reap_inflight R C clk g t q = (ru, g') \<or> purge_dlq R g t = (ra, g') \<or> replay_dlq R C g t = (ra, g')"
  shows "tenant_at (view (db g')) u Pu Iu Du"
proof -
  note qe = assms(1) and T = assms(2)
  have T': "tenant_at (view (db (queue_lock g t q))) t P I D" using T by simp
  have "same_elsewhere t (view (db g)) (view (db g'))"
    using assms(5)
  proof (elim disjE)
    assume "dequeue_batch R C clk g t q n timeout = (rd, g')"
    then have "dequeue_batch_unlocked R C clk (queue_lock g t q) t q n timeout = (rd, g')"
      by (simp add: dequeue_batch_def)
    from queue_env.dequeue_unlocked_outcome [OF qe T' this] show ?thesis
      by (auto simp: queue_env.dequeue_post_def [OF qe] Let_def split: sum.splits)
  next
    assume "ack_batch R g t ks = (ra, g')"
    from queue_env.ack_batch_outcome [OF qe T this] show ?thesis by (auto split: sum.splits)
  next
    assume "nack R C now g t k = (ru, g')"
    from queue_env.nack_outcome [OF qe T this] show ?thesis
      by (auto simp: queue_env.nack_post_def [OF qe] split: sum.splits)
  next
    assume "cumulative_ack R g t q s = (ra, g')"
    from queue_env.cumulative_ack_outcome [OF qe T this] show ?thesis by (auto split: sum.splits)
  next
    assume "reap_inflight R C clk g t q = (ru, g')"
    from queue_env.reap_outcome [OF qe T this] show ?thesis
      by (auto simp: queue_env.reap_post_def [OF qe] Let_def split: sum.splits)
  next
    assume "purge_dlq R g t = (ra, g')"
    from queue_env.purge_outcome [OF qe T this] show ?thesis by (auto split: sum.splits)
  next
    assume "replay_dlq R C g t = (ra, g')"
    from queue_env.replay_outcome [OF qe T this] show ?thesis
      by (auto simp: queue_env.replay_post_def [OF qe] split: sum.splits)
  qed
  from same_elsewhere_tenant [OF this assms(3)] assms(4) show ?thesis by simp
qed

theorem tenants_isolated_witness:
  "\<exists>g g' n. provision_tenant mem_rocksdb ref_policy_codec sample ''u'' (premium_policy ''u'') = (Inr (), g) \<and>
     purge_dlq mem_rocksdb g ''u'' = (Inr n, g') \<and>
     tenant_at (mem_view (db g')) ''t'' (map_of sample_pending) (map_of sample_inflight) (map_of sample_dlq)"
proof -
  obtain g where g: "provision_tenant mem_rocksdb ref_policy_codec sample ''u'' (premium_policy ''u'') = (Inr (), g)"
    using ref_reg.provision_total [of sample "''u''" "premium_policy ''u''"]
    by (auto simp: sample_view sample_system)
  note out = ref_reg.renv.provision_outcome [OF g]
  have v: "mem_view (db g) = registry_env.with_meta (registry_env.with_tenant (mem_view (db sample)) ''u'') ''u''
      (Some (bincode.enc ref_policy_codec (premium_policy ''u'')))" using out by blast
  have T: "tenant_at (mem_view (db g)) ''u'' Map.empty Map.empty Map.empty"
    "tenant_at (mem_view (db g)) ''t'' (map_of sample_pending) (map_of sample_inflight) (map_of sample_dlq)"
    using sample_tenant
    by (auto simp: v tenant_at_def ref_reg.renv.with_meta_def ref_reg.renv.with_tenant_def)
  obtain n g' where r: "purge_dlq mem_rocksdb g ''u'' = (Inr n, g')"
    using reliable_env.purge_contract [OF ref.reliable_env_axioms T(1)] by blast
  have "tenant_at (mem_view (db g')) ''t'' (map_of sample_pending) (map_of sample_inflight) (map_of sample_dlq)"
    by (rule tenants_isolated [OF ref.queue_env T(1) _ T(2)]) (use r in auto)
  with g r show ?thesis by blast
qed

end
